(* ===== verification/Prelude.thy ===== *)
theory Prelude
  imports Main "HOL-Library.Word"
begin

unbundle bit_operations_syntax

section \<open>Shared vocabulary of the development\<close>

text \<open>
  This theory holds what every component of the kernel model shares: the C integer types as
  words, the outcome of a kernel call (it returns, panics, gives the processor to the scheduler,
  or spins on a lock), sequencing of calls, the little-endian layout of the integers that the
  source stores in byte arrays, and overlays of byte arrays.

  C \<open>uint\<close> is a 32-bit word, so it wraps as in C.  C \<open>int\<close> is \<open>int\<close>: signed overflow is
  undefined in C and no statement below depends on it; an \<open>int\<close> that is read from memory is
  \<open>sint\<close> of its word, and a conversion to \<open>uint\<close> is \<open>word_of_int\<close>.  Counters without a bound of their own, \<open>nextpid\<close>
  and the ones of \<open>wc\<close>, wrap at their width.
\<close>

type_synonym u8 = "8 word"
type_synonym u16 = "16 word"
type_synonym u32 = "32 word"
type_synonym addr = "32 word"

named_theorems res_simps \<open>evaluation of sequenced kernel calls\<close>
named_theorems byte_simps \<open>little-endian layout and overlays of byte arrays\<close>
named_theorems quiet_simps \<open>closed forms of the operations when every spin lock is free\<close>

subsection \<open>Outcomes of a kernel call\<close>

text \<open>
  \<open>Ok x s\<close>: the call returned \<open>x\<close> in state \<open>s\<close>.  \<open>Panic m\<close>: it called \<open>panic(m)\<close>, which never
  returns.  \<open>Switch s\<close>: the calling thread reached \<open>swtch()\<close> in \<open>sched()\<close> and gave up the processor
  in state \<open>s\<close> (it sleeps, yields or has exited).  \<open>Spin\<close>: it spins on a lock that somebody else
  holds.
\<close>

datatype ('a, 's) res = Ok 'a 's | Panic string | Switch 's | Spin

definition bnd :: "('a, 's) res \<Rightarrow> ('a \<Rightarrow> 's \<Rightarrow> ('b, 's) res) \<Rightarrow> ('b, 's) res" where
  "bnd m f = (case m of Ok x s \<Rightarrow> f x s | Panic e \<Rightarrow> Panic e | Switch s \<Rightarrow> Switch s | Spin \<Rightarrow> Spin)"

lemma bnd_simps [simp, res_simps]:
  "bnd (Ok x s) f = f x s"
  "bnd (Panic e) f = Panic e"
  "bnd (Switch s) f = Switch s"
  "bnd Spin f = Spin"
  by (simp_all add: bnd_def)

lemma bnd_eq_Ok: "bnd m f = Ok y t \<longleftrightarrow> (\<exists>x s. m = Ok x s \<and> f x s = Ok y t)"
  by (cases m) auto

lemma bnd_OkE:
  assumes "bnd m f = Ok y t"
  obtains x s where "m = Ok x s" and "f x s = Ok y t"
  using assms by (auto simp: bnd_eq_Ok)

lemma bnd_assoc: "bnd (bnd m f) g = bnd m (\<lambda>x s. bnd (f x s) g)"
  by (cases m) auto

lemma bnd_cong [fundef_cong]:
  "m = m' \<Longrightarrow> (\<And>x s. m' = Ok x s \<Longrightarrow> f x s = g x s) \<Longrightarrow> bnd m f = bnd m' g"
  by (cases m') auto

lemma if_Ok_simps [res_simps]:
  "((if b then Panic e else m) = Ok x s) \<longleftrightarrow> \<not> b \<and> m = Ok x s"
  "((if b then m else Panic e) = Ok x s) \<longleftrightarrow> b \<and> m = Ok x s"
  by auto

text \<open>
  \<open>returns m Q\<close>: the call returns, and \<open>Q\<close> holds of its result and final state (total).
  \<open>post m Q\<close>: if it returns then \<open>Q\<close> holds.
\<close>

definition returns :: "('a, 's) res \<Rightarrow> ('a \<Rightarrow> 's \<Rightarrow> bool) \<Rightarrow> bool" where
  "returns m Q \<longleftrightarrow> (case m of Ok x s \<Rightarrow> Q x s | _ \<Rightarrow> False)"

definition post :: "('a, 's) res \<Rightarrow> ('a \<Rightarrow> 's \<Rightarrow> bool) \<Rightarrow> bool" where
  "post m Q \<longleftrightarrow> (case m of Ok x s \<Rightarrow> Q x s | _ \<Rightarrow> True)"

lemma returns_simps [simp]:
  "returns (Ok x s) Q = Q x s" "\<not> returns (Panic e) Q" "\<not> returns (Switch s) Q" "\<not> returns Spin Q"
  by (simp_all add: returns_def)

lemma post_simps [simp]:
  "post (Ok x s) Q = Q x s" "post (Panic e) Q" "post (Switch s) Q" "post Spin Q"
  by (simp_all add: post_def)

lemma post_bnd: "post (bnd m f) Q = post m (\<lambda>x s. post (f x s) Q)"
  by (cases m) auto

lemma returns_bnd: "returns (bnd m f) Q = returns m (\<lambda>x s. returns (f x s) Q)"
  by (cases m) auto

lemma post_mono: "post m P \<Longrightarrow> (\<And>x s. P x s \<Longrightarrow> Q x s) \<Longrightarrow> post m Q"
  by (cases m) auto

lemma returns_mono: "returns m P \<Longrightarrow> (\<And>x s. P x s \<Longrightarrow> Q x s) \<Longrightarrow> returns m Q"
  by (cases m) auto

lemma postD: "post m Q \<Longrightarrow> m = Ok x s \<Longrightarrow> Q x s"
  by simp

lemma postI: "(\<And>x s. m = Ok x s \<Longrightarrow> Q x s) \<Longrightarrow> post m Q"
  by (cases m) auto

lemma returns_iff: "returns m Q \<longleftrightarrow> (\<exists>x s. m = Ok x s \<and> Q x s)"
  by (cases m) auto

subsection \<open>Little-endian integers in byte arrays\<close>

definition bytes16 :: "u16 \<Rightarrow> u8 list" where
  "bytes16 w = [ucast w, ucast (drop_bit 8 w)]"

definition bytes32 :: "u32 \<Rightarrow> u8 list" where
  "bytes32 w = [ucast w, ucast (drop_bit 8 w), ucast (drop_bit 16 w), ucast (drop_bit 24 w)]"

definition word16 :: "u8 \<Rightarrow> u8 \<Rightarrow> u16" where
  "word16 a b = ucast a OR push_bit 8 (ucast b)"

definition word32 :: "u8 \<Rightarrow> u8 \<Rightarrow> u8 \<Rightarrow> u8 \<Rightarrow> u32" where
  "word32 a b c d =
     ucast a OR push_bit 8 (ucast b) OR push_bit 16 (ucast c) OR push_bit 24 (ucast d)"

lemma length_bytes16 [simp]: "length (bytes16 w) = 2"
  by (simp add: bytes16_def)

lemma length_bytes32 [simp]: "length (bytes32 w) = 4"
  by (simp add: bytes32_def)

lemma word16_bytes [simp]: "word16 (ucast w) (ucast (drop_bit 8 w)) = w"
  unfolding word16_def by (rule bit_word_eqI) (auto simp: bit_simps)

lemma word32_bytes [simp]:
  "word32 (ucast w) (ucast (drop_bit 8 w)) (ucast (drop_bit 16 w)) (ucast (drop_bit 24 w)) = w"
proof (unfold word32_def, rule bit_word_eqI, goal_cases)
  case (1 n)
  then consider "n < 8" | "8 \<le> n" "n < 16" | "16 \<le> n" "n < 24" | "24 \<le> n" "n < 32"
    by fastforce
  then show ?case
    by cases (auto simp: bit_simps)
qed

lemma word32_zero [simp]: "word32 0 0 0 0 = 0"
  by (simp add: word32_def)

text \<open>Reading an integer at a byte offset of an array.\<close>

definition get16 :: "u8 list \<Rightarrow> nat \<Rightarrow> u16" where
  "get16 d i = word16 (d ! i) (d ! (i + 1))"

definition get32 :: "u8 list \<Rightarrow> nat \<Rightarrow> u32" where
  "get32 d i = word32 (d ! i) (d ! (i + 1)) (d ! (i + 2)) (d ! (i + 3))"

subsection \<open>Overlays of byte arrays\<close>

text \<open>\<open>overlay i ys xs\<close> is the array \<open>xs\<close> after \<open>memmove(xs + i, ys, length ys)\<close>.\<close>

definition overlay :: "nat \<Rightarrow> 'a list \<Rightarrow> 'a list \<Rightarrow> 'a list" where
  "overlay i ys xs = take i xs @ ys @ drop (i + length ys) xs"

definition slice :: "nat \<Rightarrow> nat \<Rightarrow> 'a list \<Rightarrow> 'a list" where
  "slice i n xs = take n (drop i xs)"

lemma length_overlay [simp, byte_simps]:
  "i + length ys \<le> length xs \<Longrightarrow> length (overlay i ys xs) = length xs"
  by (simp add: overlay_def)

lemma nth_overlay [byte_simps]:
  "i + length ys \<le> length xs \<Longrightarrow> j < length xs \<Longrightarrow>
   overlay i ys xs ! j = (if i \<le> j \<and> j < i + length ys then ys ! (j - i) else xs ! j)"
  by (auto simp: overlay_def nth_append min_def)

lemma overlay_id [simp]:
  "i + length ys \<le> length xs \<Longrightarrow> slice i (length ys) xs = ys \<Longrightarrow> overlay i ys xs = xs"
  by (metis append_take_drop_id drop_drop add.commute overlay_def slice_def)

lemma length_slice [simp]: "i + n \<le> length xs \<Longrightarrow> length (slice i n xs) = n"
  by (simp add: slice_def)

lemma nth_slice: "i + n \<le> length xs \<Longrightarrow> j < n \<Longrightarrow> slice i n xs ! j = xs ! (i + j)"
  by (simp add: slice_def)

lemma slice_overlay [byte_simps]:
  "i + length ys \<le> length xs \<Longrightarrow> n = length ys \<Longrightarrow> slice i n (overlay i ys xs) = ys"
  by (simp add: overlay_def slice_def)

lemma slice_overlay_disjoint [byte_simps]:
  assumes "i + length ys \<le> length xs" and "k + n \<le> length xs" and "k + n \<le> i \<or> i + length ys \<le> k"
  shows "slice k n (overlay i ys xs) = slice k n xs"
  using assms by (intro nth_equalityI) (auto simp: nth_slice nth_overlay)

lemma get32_overlay [byte_simps]:
  assumes "i + 4 \<le> length xs"
  shows "get32 (overlay i (bytes32 w) xs) i = w"
  using assms by (simp add: get32_def nth_overlay bytes32_def numeral_3_eq_3)

lemma get16_overlay [byte_simps]:
  assumes "i + 2 \<le> length xs"
  shows "get16 (overlay i (bytes16 w) xs) i = w"
  using assms by (simp add: get16_def nth_overlay bytes16_def)

lemma get32_overlay_disjoint [byte_simps]:
  assumes "i + length ys \<le> length xs" and "k + 4 \<le> length xs" and "k + 4 \<le> i \<or> i + length ys \<le> k"
  shows "get32 (overlay i ys xs) k = get32 xs k"
  using assms by (auto simp: get32_def nth_overlay)

lemma get16_overlay_disjoint [byte_simps]:
  assumes "i + length ys \<le> length xs" and "k + 2 \<le> length xs" and "k + 2 \<le> i \<or> i + length ys \<le> k"
  shows "get16 (overlay i ys xs) k = get16 xs k"
  using assms by (auto simp: get16_def nth_overlay)

subsection \<open>First matching index of an array\<close>

text \<open>
  \<open>find_idx P xs\<close> is the search that the tables of the kernel share: scan the array from the
  start, stop at the first element that satisfies \<open>P\<close>.
\<close>

fun find_idx :: "('a \<Rightarrow> bool) \<Rightarrow> 'a list \<Rightarrow> nat option" where
  "find_idx P [] = None"
| "find_idx P (x # xs) = (if P x then Some 0 else map_option Suc (find_idx P xs))"

lemma find_idx_Some:
  "find_idx P xs = Some i \<longleftrightarrow> i < length xs \<and> P (xs ! i) \<and> (\<forall>j < i. \<not> P (xs ! j))"
proof (induction xs arbitrary: i)
  case (Cons x xs)
  show ?case
    using Cons.IH by (cases i) (auto simp: All_less_Suc2 less_Suc_eq_0_disj nth_Cons split: nat.splits)
qed simp

lemma find_idx_None: "find_idx P xs = None \<longleftrightarrow> (\<forall>x \<in> set xs. \<not> P x)"
  by (induction xs) auto

end
