(* ===== verification/Mmu.thy ===== *)
theory Mmu
  imports Prelude
begin

section \<open>x86 memory management unit: mmu.h and memlayout.h\<close>

text \<open>
  The address arithmetic and the descriptor layouts of \<open>mmu.h\<close> and \<open>memlayout.h\<close>: splitting and
  composing linear addresses, rounding to pages, page-table entry fields, segment descriptors and
  interrupt gates.  Bit-fields of the structures are words of their declared width.  The lemmas
  give the arithmetic meaning of the bit manipulation, which the page-table proofs use, and show
  that addresses, descriptors and gates decode to what they were built from.
\<close>

subsection \<open>Constants\<close>

abbreviation (input) PGSIZE :: u32 where "PGSIZE \<equiv> 4096"
abbreviation (input) KERNBASE :: u32 where "KERNBASE \<equiv> 0x80000000"
abbreviation (input) EXTMEM :: u32 where "EXTMEM \<equiv> 0x100000"
abbreviation (input) PHYSTOP :: u32 where "PHYSTOP \<equiv> 0xE000000"
abbreviation (input) DEVSPACE :: u32 where "DEVSPACE \<equiv> 0xFE000000"
abbreviation (input) KERNLINK :: u32 where "KERNLINK \<equiv> 0x80100000"
abbreviation (input) PTE_P :: u32 where "PTE_P \<equiv> 1"
abbreviation (input) PTE_W :: u32 where "PTE_W \<equiv> 2"
abbreviation (input) PTE_U :: u32 where "PTE_U \<equiv> 4"
abbreviation (input) PTE_PS :: u32 where "PTE_PS \<equiv> 0x80"
abbreviation (input) KSTACKSIZE :: u32 where "KSTACKSIZE \<equiv> 4096"
abbreviation (input) NPDENTRIES :: nat where "NPDENTRIES \<equiv> 1024"

subsection \<open>Addresses\<close>

definition PDX :: "u32 \<Rightarrow> u32" where
  "PDX va = drop_bit 22 va AND 0x3FF"

definition PTX :: "u32 \<Rightarrow> u32" where
  "PTX va = drop_bit 12 va AND 0x3FF"

definition PGADDR :: "u32 \<Rightarrow> u32 \<Rightarrow> u32 \<Rightarrow> u32" where
  "PGADDR d t f = push_bit 22 d OR push_bit 12 t OR f"

definition PGROUNDUP :: "u32 \<Rightarrow> u32" where
  "PGROUNDUP sz = (sz + PGSIZE - 1) AND NOT (PGSIZE - 1)"

definition PGROUNDDOWN :: "u32 \<Rightarrow> u32" where
  "PGROUNDDOWN a = a AND NOT (PGSIZE - 1)"

definition PTE_ADDR :: "u32 \<Rightarrow> u32" where
  "PTE_ADDR pte = pte AND NOT 0xFFF"

definition PTE_FLAGS :: "u32 \<Rightarrow> u32" where
  "PTE_FLAGS pte = pte AND 0xFFF"

definition V2P :: "u32 \<Rightarrow> u32" where
  "V2P a = a - KERNBASE"

definition P2V :: "u32 \<Rightarrow> u32" where
  "P2V a = a + KERNBASE"

subsection \<open>Segment descriptors and gates\<close>

record segdesc =
  lim_15_0 :: "16 word"
  base_15_0 :: "16 word"
  base_23_16 :: "8 word"
  sd_type :: "4 word"
  sd_s :: "1 word"
  sd_dpl :: "2 word"
  sd_p :: "1 word"
  lim_19_16 :: "4 word"
  sd_avl :: "1 word"
  sd_rsv1 :: "1 word"
  sd_db :: "1 word"
  sd_g :: "1 word"
  base_31_24 :: "8 word"

definition SEG :: "4 word \<Rightarrow> u32 \<Rightarrow> u32 \<Rightarrow> 2 word \<Rightarrow> segdesc" where
  "SEG ty base lim dpl =
     \<lparr>lim_15_0 = ucast (drop_bit 12 lim AND 0xffff), base_15_0 = ucast (base AND 0xffff),
      base_23_16 = ucast (drop_bit 16 base AND 0xff), sd_type = ty, sd_s = 1, sd_dpl = dpl,
      sd_p = 1, lim_19_16 = ucast (drop_bit 28 lim), sd_avl = 0, sd_rsv1 = 0, sd_db = 1,
      sd_g = 1, base_31_24 = ucast (drop_bit 24 base)\<rparr>"

definition SEG16 :: "4 word \<Rightarrow> u32 \<Rightarrow> u32 \<Rightarrow> 2 word \<Rightarrow> segdesc" where
  "SEG16 ty base lim dpl =
     \<lparr>lim_15_0 = ucast (lim AND 0xffff), base_15_0 = ucast (base AND 0xffff),
      base_23_16 = ucast (drop_bit 16 base AND 0xff), sd_type = ty, sd_s = 1, sd_dpl = dpl,
      sd_p = 1, lim_19_16 = ucast (drop_bit 16 lim), sd_avl = 0, sd_rsv1 = 0, sd_db = 1,
      sd_g = 0, base_31_24 = ucast (drop_bit 24 base)\<rparr>"

text \<open>The fields of the task state segment that the kernel writes.\<close>

record taskstate =
  esp0 :: u32
  ss0 :: u16
  iomb :: u16

record gatedesc =
  off_15_0 :: "16 word"
  gd_cs :: "16 word"
  gd_args :: "5 word"
  gd_rsv1 :: "3 word"
  gd_type :: "4 word"
  gd_s :: "1 word"
  gd_dpl :: "2 word"
  gd_p :: "1 word"
  off_31_16 :: "16 word"

abbreviation (input) STS_T32A :: "4 word" where "STS_T32A \<equiv> 9"
abbreviation (input) STS_IG32 :: "4 word" where "STS_IG32 \<equiv> 14"
abbreviation (input) STS_TG32 :: "4 word" where "STS_TG32 \<equiv> 15"
abbreviation (input) STA_X :: "4 word" where "STA_X \<equiv> 8"
abbreviation (input) STA_W :: "4 word" where "STA_W \<equiv> 2"
abbreviation (input) STA_R :: "4 word" where "STA_R \<equiv> 2"
abbreviation (input) DPL_USER :: "2 word" where "DPL_USER \<equiv> 3"
abbreviation (input) SEG_KCODE :: nat where "SEG_KCODE \<equiv> 1"
abbreviation (input) SEG_KDATA :: nat where "SEG_KDATA \<equiv> 2"
abbreviation (input) SEG_UCODE :: nat where "SEG_UCODE \<equiv> 3"
abbreviation (input) SEG_UDATA :: nat where "SEG_UDATA \<equiv> 4"
abbreviation (input) SEG_TSS :: nat where "SEG_TSS \<equiv> 5"
abbreviation (input) NSEGS :: nat where "NSEGS \<equiv> 6"

definition SETGATE :: "gatedesc \<Rightarrow> bool \<Rightarrow> 16 word \<Rightarrow> u32 \<Rightarrow> 2 word \<Rightarrow> gatedesc" where
  "SETGATE gate istrap sel off d =
     gate\<lparr>off_15_0 := ucast (off AND 0xffff), gd_cs := sel, gd_args := 0, gd_rsv1 := 0,
          gd_type := (if istrap then STS_TG32 else STS_IG32), gd_s := 0, gd_dpl := d, gd_p := 1,
          off_31_16 := ucast (drop_bit 16 off)\<rparr>"

text \<open>What the processor reads back: base and limit of a segment, entry point of a gate.\<close>

definition seg_base :: "segdesc \<Rightarrow> u32" where
  "seg_base d = ucast (base_15_0 d) OR push_bit 16 (ucast (base_23_16 d)) OR
                push_bit 24 (ucast (base_31_24 d))"

definition seg_limit :: "segdesc \<Rightarrow> u32" where
  "seg_limit d =
     (let l = ucast (lim_15_0 d) OR push_bit 16 (ucast (lim_19_16 d))
      in if sd_g d = 1 then push_bit 12 l OR 0xfff else l)"

definition gate_off :: "gatedesc \<Rightarrow> u32" where
  "gate_off g = ucast (off_15_0 g) OR push_bit 16 (ucast (off_31_16 g))"

subsection \<open>Bit-level lemmas\<close>

lemma PDX_le: "PDX va \<le> 0x3FF"
  unfolding PDX_def by (rule word_and_le1)

lemma PTX_le: "PTX va \<le> 0x3FF"
  unfolding PTX_def by (rule word_and_le1)

lemma unat_PDX_less: "unat (PDX va) < 1024"
  using PDX_le [of va] by (simp add: word_le_nat_alt)

lemma unat_PTX_less: "unat (PTX va) < 1024"
  using PTX_le [of va] by (simp add: word_le_nat_alt)

text \<open>The masks as \<open>take_bit\<close>, whose bits are known to the simplifier.\<close>

lemma and_masks:
  "x AND (0x3FF :: u32) = take_bit 10 x" "x AND (0xFFF :: u32) = take_bit 12 x"
  "x AND (0xFFFF :: u32) = take_bit 16 x" "x AND (0xFF :: u32) = take_bit 8 x"
  by (simp_all add: take_bit_eq_mask mask_eq_exp_minus_1)

lemma and_not_masks: "x AND NOT (0xFFF :: u32) = push_bit 12 (drop_bit 12 x)"
proof -
  have "(0xFFF :: u32) = mask 12"
    by (simp add: mask_eq_exp_minus_1)
  then have "x AND NOT (0xFFF :: u32) = x AND NOT (mask 12)"
    by simp
  also have "\<dots> = push_bit 12 (drop_bit 12 x)"
    by (rule bit_word_eqI) (auto simp: bit_simps)
  finally show ?thesis .
qed

lemma PDX_alt: "PDX va = take_bit 10 (drop_bit 22 va)"
  by (simp add: PDX_def and_masks)

lemma PTX_alt: "PTX va = take_bit 10 (drop_bit 12 va)"
  by (simp add: PTX_def and_masks)

lemma PGROUNDDOWN_alt: "PGROUNDDOWN a = push_bit 12 (drop_bit 12 a)"
  using and_not_masks [of a] by (simp add: PGROUNDDOWN_def)

lemma PGROUNDUP_alt: "PGROUNDUP a = PGROUNDDOWN (a + 4095)"
  by (simp add: PGROUNDUP_def PGROUNDDOWN_def add.commute)

lemma PTE_ADDR_alt: "PTE_ADDR a = PGROUNDDOWN a"
  by (simp add: PTE_ADDR_def PGROUNDDOWN_def)

lemma PTE_FLAGS_alt: "PTE_FLAGS a = take_bit 12 a"
  by (simp add: PTE_FLAGS_def and_masks)

lemma take_bit_self: "unat (x :: u32) < 2 ^ n \<Longrightarrow> take_bit n x = x"
  by (metis take_bit_nat_eq_self_iff unsigned_take_bit_eq word_unat_eq_iff)

lemma small_bit: "x \<le> 0x3FF \<Longrightarrow> take_bit 10 x = (x :: u32)" "y \<le> 0xFFF \<Longrightarrow> take_bit 12 y = (y :: u32)"
  by (rule take_bit_self; simp add: word_le_nat_alt)+

text \<open>Splitting an address into its indexes and composing it again are inverse.\<close>

lemma PGADDR_split: "PGADDR (PDX va) (PTX va) (va AND 0xFFF) = va"
proof (unfold PGADDR_def PDX_alt PTX_alt and_masks, rule bit_word_eqI, goal_cases)
  case (1 n)
  then consider "n < 12" | "12 \<le> n" "n < 22" | "22 \<le> n" "n < 32"
    by fastforce
  then show ?case
    by cases (auto simp: bit_simps)
qed

lemma bits_PGADDR:
  assumes "d \<le> 0x3FF" and "t \<le> 0x3FF" and "f \<le> 0xFFF"
  shows "PGADDR d t f =
    push_bit 22 (take_bit 10 d) OR push_bit 12 (take_bit 10 t) OR take_bit 12 f"
  by (simp add: PGADDR_def small_bit assms)

lemma PDX_PGADDR: "d \<le> 0x3FF \<Longrightarrow> t \<le> 0x3FF \<Longrightarrow> f \<le> 0xFFF \<Longrightarrow> PDX (PGADDR d t f) = d"
proof -
  assume a: "d \<le> 0x3FF" "t \<le> 0x3FF" "f \<le> 0xFFF"
  have "PDX (PGADDR d t f) = take_bit 10 d"
    unfolding PDX_alt bits_PGADDR [OF a] by (rule bit_word_eqI) (auto simp: bit_simps)
  then show ?thesis by (simp add: small_bit a)
qed

lemma PTX_PGADDR: "d \<le> 0x3FF \<Longrightarrow> t \<le> 0x3FF \<Longrightarrow> f \<le> 0xFFF \<Longrightarrow> PTX (PGADDR d t f) = t"
proof -
  assume a: "d \<le> 0x3FF" "t \<le> 0x3FF" "f \<le> 0xFFF"
  have "PTX (PGADDR d t f) = take_bit 10 t"
    unfolding PTX_alt bits_PGADDR [OF a] by (rule bit_word_eqI) (auto simp: bit_simps)
  then show ?thesis by (simp add: small_bit a)
qed

subsection \<open>Arithmetic meaning of page rounding\<close>

lemma unat_u32_less: "unat (a :: u32) < 4294967296"
  using unsigned_less [of a, where ?'a = nat] by simp

lemma unat_push_bit12: "unat (push_bit 12 (drop_bit 12 (a :: u32))) = unat a div 4096 * 4096"
proof -
  have "unat a div 4096 * 4096 < 2 ^ LENGTH(32)"
    using unat_u32_less [of a] by simp
  moreover have "push_bit 12 (drop_bit 12 a) = of_nat (unat a div 4096 * 4096)"
    by (simp add: push_bit_eq_mult drop_bit_eq_div word_arith_nat_div)
  ultimately show ?thesis
    by (simp only: unat_of_nat mod_less)
qed

lemma unat_PGROUNDDOWN: "unat (PGROUNDDOWN a) = unat a div 4096 * 4096"
  by (simp add: PGROUNDDOWN_alt unat_push_bit12)

lemma PGROUNDDOWN_idem [simp]: "PGROUNDDOWN (PGROUNDDOWN a) = PGROUNDDOWN a"
  by (simp add: word_unat_eq_iff unat_PGROUNDDOWN)

lemma PGROUNDDOWN_le: "PGROUNDDOWN a \<le> a"
  by (simp add: word_le_nat_alt unat_PGROUNDDOWN)

lemma unat_PGROUNDUP:
  assumes "unat a + 4095 < 2 ^ 32"
  shows "unat (PGROUNDUP a) = (unat a + 4095) div 4096 * 4096"
  using assms by (simp add: PGROUNDUP_alt unat_PGROUNDDOWN unat_word_ariths)

lemma unat_PDX: "unat (PDX va) = unat va div 4194304"
proof -
  have "unat va div 4194304 < 1024"
    using unat_u32_less [of va] by simp
  then show ?thesis
    by (simp add: PDX_alt unsigned_take_bit_eq drop_bit_eq_div take_bit_nat_def unat_div_distrib)
qed

lemma unat_PTX: "unat (PTX va) = unat va div 4096 mod 1024"
  by (simp add: PTX_alt unsigned_take_bit_eq drop_bit_eq_div take_bit_nat_def unat_div_distrib)

lemma PTE_ADDR_idem [simp]: "PTE_ADDR (PTE_ADDR a) = PTE_ADDR a"
  by (simp add: PTE_ADDR_alt)

lemma PTE_ADDR_FLAGS: "PTE_ADDR p OR PTE_FLAGS p = p"
  unfolding PTE_ADDR_alt PTE_FLAGS_alt PGROUNDDOWN_alt
  by (rule bit_word_eqI) (auto simp: bit_simps)

lemma V2P_P2V [simp]: "V2P (P2V a) = a" "P2V (V2P a) = a"
  by (simp_all add: V2P_def P2V_def)

text \<open>Page alignment: the address is a multiple of the page size.\<close>

definition aligned :: "u32 \<Rightarrow> bool" where
  "aligned a \<longleftrightarrow> a mod PGSIZE = 0"

lemma aligned_unat: "aligned a \<longleftrightarrow> unat a mod 4096 = 0"
  by (simp add: aligned_def word_unat_eq_iff unat_mod_distrib)

lemma aligned_iff: "aligned a \<longleftrightarrow> PGROUNDDOWN a = a"
proof -
  have "unat a mod 4096 = 0 \<longleftrightarrow> unat a div 4096 * 4096 = unat a"
    using div_mult_mod_eq [of "unat a" 4096] by linarith
  then show ?thesis
    by (simp add: aligned_unat word_unat_eq_iff unat_PGROUNDDOWN)
qed

lemma aligned_PGROUNDDOWN [simp]: "aligned (PGROUNDDOWN a)"
  by (simp add: aligned_iff)

lemma aligned_PGROUNDUP [simp]: "aligned (PGROUNDUP a)"
  by (simp add: PGROUNDUP_alt)

lemma aligned_PTE_ADDR [simp]: "aligned (PTE_ADDR a)"
  by (simp add: PTE_ADDR_alt)

lemma unat_add_mod_page: "unat (a + b :: u32) mod 4096 = (unat a + unat b) mod 4096"
  by (simp add: unat_word_ariths mod_mod_cancel)

lemma aligned_add [simp]: "aligned a \<Longrightarrow> aligned b \<Longrightarrow> aligned (a + b)"
  unfolding aligned_unat unat_add_mod_page by (metis dvd_add mod_0_imp_dvd mod_eq_0_iff_dvd)

lemma aligned_0 [simp]: "aligned 0"
  by (simp add: aligned_def)

lemma aligned_PGSIZE [simp]: "aligned 4096"
  by (simp add: aligned_def)

lemma aligned_P2V [simp]: "aligned a \<Longrightarrow> aligned (P2V a)"
  unfolding P2V_def by (rule aligned_add) (simp_all add: aligned_def)

lemma V2P_add: "V2P a = a + KERNBASE"
  unfolding V2P_def by (simp only: diff_conv_add_uminus) simp

lemma aligned_V2P [simp]: "aligned a \<Longrightarrow> aligned (V2P a)"
  unfolding V2P_add by (rule aligned_add) (simp_all add: aligned_def)

text \<open>An offset below the page size does not leave the page.\<close>

lemma unat_page_add:
  assumes "aligned p" and "unat f < 4096"
  shows "unat (p + f) = unat p + unat f"
proof -
  have "unat p mod 4096 = 0" "unat p < 4294967296"
    using assms unat_u32_less [of p] by (simp_all add: aligned_unat)
  then obtain k where "unat p = 4096 * k" "k < 1048576"
    by auto
  then have "unat p + unat f < 4294967296"
    using assms(2) by simp
  then show ?thesis
    by (simp add: unat_word_ariths)
qed

lemma PGROUNDDOWN_add:
  assumes "aligned p" and "unat f < 4096"
  shows "PGROUNDDOWN (p + f) = p"
proof -
  have "unat p mod 4096 = 0"
    using assms by (simp add: aligned_unat)
  then have "(unat p + unat f) div 4096 * 4096 = unat p"
    using assms(2) by auto
  then show ?thesis
    by (simp add: word_unat_eq_iff unat_PGROUNDDOWN unat_page_add [OF assms])
qed

lemma PTE_ADDR_or:
  assumes "aligned p" and "unat f < 4096"
  shows "PTE_ADDR (p OR f) = p" "PTE_FLAGS (p OR f) = f"
proof -
  have f: "take_bit 12 f = f"
    using assms(2) by (intro take_bit_self) simp
  have p: "push_bit 12 (drop_bit 12 p) = p"
    using assms(1) by (simp add: aligned_iff PGROUNDDOWN_alt)
  have "PTE_ADDR (push_bit 12 (drop_bit 12 p) OR take_bit 12 f) = push_bit 12 (drop_bit 12 p)"
    unfolding PTE_ADDR_alt PGROUNDDOWN_alt by (rule bit_word_eqI) (auto simp: bit_simps)
  then show "PTE_ADDR (p OR f) = p" by (simp only: f p)
  have "PTE_FLAGS (push_bit 12 (drop_bit 12 p) OR take_bit 12 f) = take_bit 12 f"
    unfolding PTE_FLAGS_alt by (rule bit_word_eqI) (auto simp: bit_simps)
  then show "PTE_FLAGS (p OR f) = f" by (simp only: f p)
qed

subsection \<open>Descriptors decode to what they were built from\<close>

lemma seg_base_SEG: "seg_base (SEG ty b l d) = b" "seg_base (SEG16 ty b l d) = b"
proof -
  have "ucast (ucast (take_bit 16 b) :: 16 word) OR
      push_bit 16 (ucast (ucast (take_bit 8 (drop_bit 16 b)) :: 8 word)) OR
      push_bit 24 (ucast (ucast (drop_bit 24 b) :: 8 word)) = b"
  proof (rule bit_word_eqI, goal_cases)
    case (1 n)
    then consider "n < 16" | "16 \<le> n" "n < 24" | "24 \<le> n" "n < 32"
      by fastforce
    then show ?case
      by cases (auto simp: bit_simps)
  qed
  then show "seg_base (SEG ty b l d) = b" "seg_base (SEG16 ty b l d) = b"
    by (simp_all add: seg_base_def SEG_def SEG16_def and_masks)
qed

lemma gate_off_SETGATE: "gate_off (SETGATE g t sel off d) = off"
proof -
  have "ucast (ucast (take_bit 16 off) :: 16 word) OR
      push_bit 16 (ucast (ucast (drop_bit 16 off) :: 16 word)) = off"
  proof (rule bit_word_eqI, goal_cases)
    case (1 n)
    then consider "n < 16" | "16 \<le> n" "n < 32"
      by fastforce
    then show ?case
      by cases (auto simp: bit_simps)
  qed
  then show ?thesis
    by (simp add: gate_off_def SETGATE_def and_masks)
qed

end
