(* ===== verification/Interfaces.thy ===== *)
theory Interfaces
  imports Prelude
begin

section \<open>Interfaces that several components share\<close>

text \<open>
  The contracts that recur in the kernel, each a locale whose laws the component that provides the
  operations discharges by an interpretation, and whose lemmas the properties use:
  \<^item> \<open>inductive_invariant\<close>: a step relation with an invariant that every step keeps;
  \<^item> \<open>slot_table\<close>: a fixed array searched for its first free slot (processes, open files, inodes,
    descriptors);
  \<^item> \<open>ring_buffer\<close>: a circular buffer indexed by free-running unsigned counters (pipes, console
    input).
\<close>

subsection \<open>Step relations and their invariants\<close>

inductive reaches :: "('s \<Rightarrow> bool) \<Rightarrow> ('s \<Rightarrow> 's \<Rightarrow> bool) \<Rightarrow> 's \<Rightarrow> bool" for init step where
  reaches_init: "init s \<Longrightarrow> reaches init step s"
| reaches_step: "reaches init step s \<Longrightarrow> step s t \<Longrightarrow> reaches init step t"

locale inductive_invariant =
  fixes init :: "'s \<Rightarrow> bool"
    and step :: "'s \<Rightarrow> 's \<Rightarrow> bool"
    and inv :: "'s \<Rightarrow> bool"
  assumes inv_init: "init s \<Longrightarrow> inv s"
    and inv_step: "inv s \<Longrightarrow> step s t \<Longrightarrow> inv t"
begin

lemma reachable_inv: "reaches init step s \<Longrightarrow> inv s"
  by (induction rule: reaches.induct) (auto intro: inv_init inv_step)

lemma steps_inv: "step\<^sup>*\<^sup>* s t \<Longrightarrow> inv s \<Longrightarrow> inv t"
  by (induction rule: rtranclp_induct) (auto intro: inv_step)

end

subsection \<open>Tables of slots\<close>

text \<open>
  The client claims the first free slot by \<open>claim\<close>; \<open>free\<close> recognises a free slot.  The law of the
  provider: a slot that is claimed is no longer free.
\<close>

definition alloc_slot :: "('a \<Rightarrow> bool) \<Rightarrow> ('a \<Rightarrow> 'a) \<Rightarrow> 'a list \<Rightarrow> (nat \<times> 'a list) option" where
  "alloc_slot free claim xs =
     (case find_idx free xs of None \<Rightarrow> None | Some i \<Rightarrow> Some (i, xs[i := claim (xs ! i)]))"

definition free_slots :: "('a \<Rightarrow> bool) \<Rightarrow> 'a list \<Rightarrow> nat" where
  "free_slots free xs = length (filter free xs)"

lemma length_filter_update:
  "i < length xs \<Longrightarrow> P (xs ! i) \<Longrightarrow> \<not> P y \<Longrightarrow>
   Suc (length (filter P (xs[i := y]))) = length (filter P xs)"
proof (induction xs arbitrary: i)
  case (Cons x xs)
  then show ?case by (cases i) auto
qed simp

locale slot_table =
  fixes free :: "'a \<Rightarrow> bool" and claim :: "'a \<Rightarrow> 'a"
  assumes claimed: "free x \<Longrightarrow> \<not> free (claim x)"
begin

lemma alloc_Some:
  assumes "alloc_slot free claim xs = Some (i, ys)"
  shows "i < length xs" and "free (xs ! i)" and "\<forall>j < i. \<not> free (xs ! j)"
    and "ys = xs[i := claim (xs ! i)]"
  using assms by (auto simp: alloc_slot_def find_idx_Some split: option.splits)

lemma alloc_None: "alloc_slot free claim xs = None \<longleftrightarrow> free_slots free xs = 0"
proof -
  have "alloc_slot free claim xs = None \<longleftrightarrow> find_idx free xs = None"
    by (simp add: alloc_slot_def split: option.splits)
  then show ?thesis
    by (simp add: find_idx_None free_slots_def filter_empty_conv)
qed

lemma alloc_count:
  assumes "alloc_slot free claim xs = Some (i, ys)"
  shows "free_slots free xs = Suc (free_slots free ys)"
  using alloc_Some [OF assms] claimed [of "xs ! i"]
  by (simp add: free_slots_def length_filter_update)

lemma alloc_others:
  assumes "alloc_slot free claim xs = Some (i, ys)" and "j \<noteq> i"
  shows "ys ! j = xs ! j"
  using alloc_Some [OF assms(1)] assms(2) by simp

end

subsection \<open>Circular buffers over free-running counters\<close>

text \<open>
  A buffer of \<open>size\<close> bytes and two 32-bit counters \<open>r\<close> (bytes read) and \<open>w\<close> (bytes written) that are
  never reset and wrap at \<open>2 ^ 32\<close>.  The byte with number \<open>n\<close> is stored at index \<open>n mod size\<close>.  The
  law: the size divides \<open>2 ^ 32\<close>, so that the index stays right when a counter wraps.
\<close>

definition ring_contents :: "u32 \<Rightarrow> 'a list \<Rightarrow> u32 \<Rightarrow> u32 \<Rightarrow> 'a list" where
  "ring_contents n d r w = map (\<lambda>i. d ! unat ((r + of_nat i) mod n)) [0..<unat (w - r)]"

lemma length_ring_contents [simp]: "length (ring_contents n d r w) = unat (w - r)"
  by (simp add: ring_contents_def)

lemma ring_contents_empty [simp]: "ring_contents n d r r = []"
  by (simp add: ring_contents_def)

lemma unat_diff_Suc:
  fixes r w :: u32
  assumes "r \<noteq> w"
  shows "unat (w - r) = Suc (unat (w - (r + 1)))"
proof -
  have "w - r \<noteq> 0"
    using assms by simp
  then have "unat (w - r) = Suc (unat (w - r - 1))"
    by (metis Suc_pred' unat_gt_0 unat_minus_one)
  then show ?thesis
    by (simp add: diff_diff_eq)
qed

lemma ring_contents_pop:
  assumes "r \<noteq> w"
  shows "ring_contents n d r w = d ! unat (r mod n) # ring_contents n d (r + 1) w"
proof -
  have "[0..<Suc k] = 0 # map Suc [0..<k]" for k
    by (simp add: map_Suc_upt upt_conv_Cons del: upt_Suc)
  then have "ring_contents n d r w =
      d ! unat (r mod n) # map (\<lambda>i. d ! unat ((r + of_nat i) mod n)) (map Suc [0..<unat (w - (r + 1))])"
    by (simp add: ring_contents_def unat_diff_Suc [OF assms] del: upt_Suc)
  also have "map (\<lambda>i. d ! unat ((r + of_nat i) mod n)) (map Suc [0..<unat (w - (r + 1))]) =
      ring_contents n d (r + 1) w"
    by (simp add: ring_contents_def add.assoc [symmetric])
  finally show ?thesis .
qed

locale ring_buffer =
  fixes ring :: u32
  assumes ring_pos: "0 < unat ring"
    and ring_dvd: "unat ring dvd 2 ^ 32"
begin

lemma unat_index: "unat (x mod ring) = unat x mod unat ring"
  by (rule unat_mod_distrib)

lemma index_add: "unat ((r + of_nat i) mod ring) = (unat r + i) mod unat ring"
proof -
  have "unat (r + of_nat i) = (unat r + i) mod 2 ^ 32"
    by (simp add: unat_word_ariths unat_of_nat mod_simps)
  then show ?thesis
    by (simp only: unat_index mod_mod_cancel [OF ring_dvd])
qed

lemma index_inj_less:
  assumes "i < j" and "j < unat ring"
  shows "(unat r + i) mod unat ring \<noteq> (unat r + j) mod unat ring"
proof
  assume "(unat r + i) mod unat ring = (unat r + j) mod unat ring"
  then have "unat ring dvd (unat r + j) - (unat r + i)"
    using assms by (metis add_le_cancel_left less_imp_le mod_eq_dvd_iff_nat)
  then have "unat ring dvd j - i"
    by simp
  then show False
    using assms by (simp add: nat_dvd_not_less)
qed

text \<open>Storing at the write index appends to the contents while the buffer is not full.\<close>

lemma contents_push:
  assumes "unat (w - r) < unat ring" and "length d = unat ring"
  shows "ring_contents ring (d[unat (w mod ring) := x]) r (w + 1) = ring_contents ring d r w @ [x]"
proof -
  define k where "k = unat (w - r)"
  have w: "w = r + of_nat k"
    by (simp add: k_def)
  have "w - r + 1 \<noteq> 0"
  proof
    assume "w - r + 1 = 0"
    then have "w - r = - 1"
      by (simp add: eq_neg_iff_add_eq_0)
    then show False
      using assms(1) word_order.extremum [of ring] by (simp add: word_le_nat_alt)
  qed
  then have len: "unat (w + 1 - r) = Suc k"
    using unatSuc [of "w - r"] by (simp add: k_def algebra_simps)
  have wi: "unat (w mod ring) = (unat r + k) mod unat ring"
    by (simp only: w index_add)
  have "(d[unat (w mod ring) := x]) ! unat ((r + of_nat i) mod ring) =
      (if i = k then x else d ! unat ((r + of_nat i) mod ring))" if "i < Suc k" for i
    using that assms index_inj_less [of i k r] ring_pos by (auto simp: wi index_add k_def)
  then show ?thesis
    by (simp add: ring_contents_def len k_def [symmetric])
qed

lemma full_iff: "w = r + ring \<longleftrightarrow> unat (w - r) = unat ring"
  by (auto simp: word_unat_eq_iff [symmetric] diff_eq_eq add.commute)

end

end
