(* ===== verification/Spinlock.thy ===== *)
theory Spinlock
  imports Mmu Interfaces
begin

section \<open>Processors and spin locks: spinlock.c and the processor part of proc.c\<close>

text \<open>
  The record \<open>core\<close> is the state of this component: the processor table \<open>cpus[]\<close> of \<open>proc.h\<close>, the
  interrupt flag of every processor (by its APIC id), the APIC id of the processor that executes,
  and every spin lock of the kernel, named by \<open>lockid\<close>.  The debugging fields of a lock (\<open>name\<close>,
  \<open>pcs\<close>) are left out.

  \<open>acquire\<close> is the call as its own thread sees it.  A lock that somebody else holds makes it spin: the
  outcome is \<open>Spin\<close>, which has no state, because the call does not come back in it.  What a spinning processor
  looks like to the others, with its raised \<open>ncli\<close> and its interrupts off, is in \<open>Contend\<close>.  The first
  group of lemmas gives the closed form of every operation on a processor in order (\<open>cpu_ok\<close>).
  The second group is the interleaving of whole calls of all processors as a step relation, with its
  invariant; the interleaving inside \<open>acquire\<close> and \<open>release\<close> is the subject of the theory \<open>Contend\<close>.
\<close>

datatype lockid =
    L_kmem | L_ptable | L_bcache | L_icache | L_ftable | L_log | L_ide | L_ticks | L_cons
  | L_buf nat | L_inode nat | L_pipe addr

record cpu =
  apicid :: u8
  ts :: taskstate
  gdt :: "segdesc list"
  started :: bool
  ncli :: int
  intena :: bool
  cproc :: "nat option"

record spinlock =
  locked :: bool
  lkcpu :: "nat option"

record core =
  cpus :: "cpu list"
  ncpu :: nat
  lapicid :: int
  eflags_if :: "int \<Rightarrow> bool"
  cr3 :: "int \<Rightarrow> u32"
  locks :: "lockid \<Rightarrow> spinlock"

subsection \<open>The executing processor\<close>

definition readeflags :: "core \<Rightarrow> bool" where
  "readeflags s = eflags_if s (lapicid s)"

definition cli :: "core \<Rightarrow> core" where
  "cli s = s\<lparr>eflags_if := (eflags_if s)(lapicid s := False)\<rparr>"

definition sti :: "core \<Rightarrow> core" where
  "sti s = s\<lparr>eflags_if := (eflags_if s)(lapicid s := True)\<rparr>"

definition mycpu :: "core \<Rightarrow> (nat, core) res" where
  "mycpu s =
     (if readeflags s then Panic ''mycpu called with interrupts enabled\<newline>''
      else case find_idx (\<lambda>c. uint (apicid c) = lapicid s) (take (ncpu s) (cpus s)) of
        Some i \<Rightarrow> Ok i s
      | None \<Rightarrow> Panic ''unknown apicid\<newline>'')"

definition cpuid :: "core \<Rightarrow> (nat, core) res" where
  "cpuid s = mycpu s"

definition upd_cpu :: "nat \<Rightarrow> (cpu \<Rightarrow> cpu) \<Rightarrow> core \<Rightarrow> core" where
  "upd_cpu i f s = s\<lparr>cpus := (cpus s)[i := f (cpus s ! i)]\<rparr>"

definition pushcli :: "core \<Rightarrow> (unit, core) res" where
  "pushcli s =
     (let eflags = readeflags s; s = cli s in
      bnd (mycpu s) (\<lambda>c s.
      let s = (if ncli (cpus s ! c) = 0 then upd_cpu c (\<lambda>c. c\<lparr>intena := eflags\<rparr>) s else s) in
      Ok () (upd_cpu c (\<lambda>c. c\<lparr>ncli := ncli c + 1\<rparr>) s)))"

definition popcli :: "core \<Rightarrow> (unit, core) res" where
  "popcli s =
     (if readeflags s then Panic ''popcli - interruptible'' else
      bnd (mycpu s) (\<lambda>c s.
      let s = upd_cpu c (\<lambda>c. c\<lparr>ncli := ncli c - 1\<rparr>) s in
      if ncli (cpus s ! c) < 0 then Panic ''popcli''
      else if ncli (cpus s ! c) = 0 \<and> intena (cpus s ! c) then Ok () (sti s)
      else Ok () s))"

definition myproc :: "core \<Rightarrow> (nat option, core) res" where
  "myproc s =
     bnd (pushcli s) (\<lambda>_ s.
     bnd (mycpu s) (\<lambda>c s.
     let p = cproc (cpus s ! c) in
     bnd (popcli s) (\<lambda>_ s. Ok p s)))"

subsection \<open>Locks\<close>

definition initlock :: "lockid \<Rightarrow> core \<Rightarrow> core" where
  "initlock lk s = s\<lparr>locks := (locks s)(lk := \<lparr>locked = False, lkcpu = None\<rparr>)\<rparr>"

definition holding :: "lockid \<Rightarrow> core \<Rightarrow> (bool, core) res" where
  "holding lk s =
     bnd (pushcli s) (\<lambda>_ s.
     bnd (mycpu s) (\<lambda>c s.
     let r = locked (locks s lk) \<and> lkcpu (locks s lk) = Some c in
     bnd (popcli s) (\<lambda>_ s. Ok r s)))"

definition acquire :: "lockid \<Rightarrow> core \<Rightarrow> (unit, core) res" where
  "acquire lk s =
     bnd (pushcli s) (\<lambda>_ s.
     bnd (holding lk s) (\<lambda>h s.
     if h then Panic ''acquire''
     else if locked (locks s lk) then Spin
     else
       let s = s\<lparr>locks := (locks s)(lk := (locks s lk)\<lparr>locked := True\<rparr>)\<rparr> in
       bnd (mycpu s) (\<lambda>c s.
       Ok () (s\<lparr>locks := (locks s)(lk := (locks s lk)\<lparr>lkcpu := Some c\<rparr>)\<rparr>))))"

definition release :: "lockid \<Rightarrow> core \<Rightarrow> (unit, core) res" where
  "release lk s =
     bnd (holding lk s) (\<lambda>h s.
     if \<not> h then Panic ''release''
     else
       let s = s\<lparr>locks := (locks s)(lk := (locks s lk)\<lparr>lkcpu := None\<rparr>)\<rparr>;
           s = s\<lparr>locks := (locks s)(lk := (locks s lk)\<lparr>locked := False\<rparr>)\<rparr> in
       popcli s)"

subsection \<open>Closed forms\<close>

text \<open>The index of the executing processor, and a processor in order: it is in the table, and the
  saved interrupt state agrees with the nesting depth.\<close>

definition me :: "core \<Rightarrow> nat option" where
  "me s = find_idx (\<lambda>c. uint (apicid c) = lapicid s) (take (ncpu s) (cpus s))"

definition mc :: "core \<Rightarrow> cpu" where
  "mc s = cpus s ! the (me s)"

definition cpu_ok :: "core \<Rightarrow> bool" where
  "cpu_ok s \<longleftrightarrow> me s \<noteq> None \<and> 0 \<le> ncli (mc s) \<and>
     (if ncli (mc s) = 0 then intena (mc s) = readeflags s else \<not> readeflags s)"

definition unlocked :: spinlock where
  "unlocked = \<lparr>locked = False, lkcpu = None\<rparr>"

definition lock_free :: "lockid \<Rightarrow> core \<Rightarrow> bool" where
  "lock_free lk s \<longleftrightarrow> locks s lk = unlocked"

definition held :: "lockid \<Rightarrow> core \<Rightarrow> bool" where
  "held lk s \<longleftrightarrow> locks s lk = \<lparr>locked = True, lkcpu = me s\<rparr>"

text \<open>State after \<open>pushcli\<close> and after \<open>popcli\<close> of a processor in order.\<close>

definition push :: "core \<Rightarrow> core" where
  "push s = (cli s)\<lparr>cpus := (cpus s)[the (me s) := (mc s)\<lparr>ncli := ncli (mc s) + 1\<rparr>]\<rparr>"

definition pop :: "core \<Rightarrow> core" where
  "pop s = s\<lparr>cpus := (cpus s)[the (me s) := (mc s)\<lparr>ncli := ncli (mc s) - 1\<rparr>],
     eflags_if := (eflags_if s)(lapicid s := (ncli (mc s) = 1 \<and> intena (mc s)))\<rparr>"

lemma me_bound: "me s = Some i \<Longrightarrow> i < length (cpus s)"
  by (auto simp: me_def find_idx_Some)

lemma find_idx_map_eq:
  "map P xs = map Q ys \<Longrightarrow> find_idx P xs = find_idx Q ys"
proof (induction xs arbitrary: ys)
  case (Cons x xs)
  then show ?case by (cases ys) auto
qed auto

lemma me_cong:
  assumes "map apicid (cpus t) = map apicid (cpus s)" and "lapicid t = lapicid s" and "ncpu t = ncpu s"
  shows "me t = me s"
proof -
  have "map (\<lambda>c. uint (apicid c) = lapicid s) (take (ncpu s) (cpus t)) =
      map (\<lambda>a. uint a = lapicid s) (take (ncpu s) (map apicid (cpus t)))"
    by (simp add: take_map)
  also have "\<dots> = map (\<lambda>c. uint (apicid c) = lapicid s) (take (ncpu s) (cpus s))"
    by (simp add: assms(1) take_map)
  finally show ?thesis
    unfolding me_def assms(2,3) by (rule find_idx_map_eq)
qed

lemma map_upd_same: "f y = f (xs ! i) \<Longrightarrow> map f (xs[i := y]) = map f xs"
  by (metis list_update_id map_update)

lemma me_simps [simp]:
  "me (cli s) = me s" "me (push s) = me s" "me (pop s) = me s"
  "me (s\<lparr>locks := l\<rparr>) = me s" "me (s\<lparr>eflags_if := e\<rparr>) = me s" "me (s\<lparr>cr3 := v\<rparr>) = me s"
  by (rule me_cong; simp add: cli_def push_def pop_def mc_def map_upd_same)+

lemma mc_simps [simp]:
  "mc (cli s) = mc s" "mc (s\<lparr>locks := l\<rparr>) = mc s" "mc (s\<lparr>eflags_if := e\<rparr>) = mc s"
  "mc (s\<lparr>cr3 := v\<rparr>) = mc s"
  unfolding mc_def me_simps by (simp_all add: cli_def)

lemma mc_push: "me s = Some i \<Longrightarrow> mc (push s) = (mc s)\<lparr>ncli := ncli (mc s) + 1\<rparr>"
  unfolding mc_def [of "push s"] me_simps by (simp add: push_def mc_def me_bound)

lemma readeflags_simps [simp]:
  "\<not> readeflags (cli s)" "\<not> readeflags (push s)" "readeflags (s\<lparr>locks := l\<rparr>) = readeflags s"
  "readeflags (s\<lparr>eflags_if := e\<rparr>) = e (lapicid s)" "readeflags (s\<lparr>cpus := c\<rparr>) = readeflags s"
  by (simp_all add: readeflags_def cli_def push_def)

lemma cpu_update_same [simp]:
  "(c\<lparr>intena := intena c\<rparr> :: cpu) = c" "(c\<lparr>ncli := ncli c\<rparr> :: cpu) = c"
  by simp_all

lemma mycpu_eq:
  "mycpu s = (if readeflags s then Panic ''mycpu called with interrupts enabled\<newline>''
     else case me s of Some i \<Rightarrow> Ok i s | None \<Rightarrow> Panic ''unknown apicid\<newline>'')"
  by (simp add: mycpu_def me_def)

lemma cpu_okE:
  assumes "cpu_ok s"
  obtains i where "me s = Some i" and "mc s = cpus s ! i" and "i < length (cpus s)"
    and "0 \<le> ncli (mc s)" and "ncli (mc s) = 0 \<Longrightarrow> intena (mc s) = readeflags s"
    and "ncli (mc s) \<noteq> 0 \<Longrightarrow> \<not> readeflags s"
proof -
  from assms obtain i where i: "me s = Some i"
    by (auto simp: cpu_ok_def)
  show ?thesis
    by (rule that [OF i]) (use assms i in \<open>auto simp: cpu_ok_def mc_def dest: me_bound\<close>)
qed

lemma cpu_intena_same: "intena c = b \<Longrightarrow> (c\<lparr>intena := b, ncli := n\<rparr> :: cpu) = c\<lparr>ncli := n\<rparr>"
  by (cases c) simp

lemma pushcli_ok:
  assumes "cpu_ok s"
  shows "pushcli s = Ok () (push s)"
  using assms
proof (rule cpu_okE)
  fix i
  assume i: "me s = Some i" "mc s = cpus s ! i" "i < length (cpus s)"
    and z: "ncli (mc s) = 0 \<Longrightarrow> intena (mc s) = readeflags s"
  show ?thesis
  proof (cases "ncli (mc s) = 0")
    case True
    then show ?thesis
      using i z by (simp add: pushcli_def mycpu_eq Let_def upd_cpu_def push_def cli_def cpu_intena_same)
  next
    case False
    then show ?thesis
      using i by (simp add: pushcli_def mycpu_eq Let_def upd_cpu_def push_def cli_def)
  qed
qed

lemma popcli_ok:
  assumes "me s = Some i" and "\<not> readeflags s" and "1 \<le> ncli (mc s)"
  shows "popcli s = Ok () (pop s)"
proof -
  have "(eflags_if s)(lapicid s := False) = eflags_if s"
    using assms(2) by (simp add: readeflags_def fun_upd_idem)
  then show ?thesis
    using assms me_bound [OF assms(1)]
    by (auto simp: popcli_def mycpu_eq Let_def upd_cpu_def pop_def mc_def sti_def)
qed

lemma pop_push:
  assumes "cpu_ok s"
  shows "pop (push s) = s"
  using assms
proof (rule cpu_okE)
  fix i
  assume i: "me s = Some i" "mc s = cpus s ! i" "i < length (cpus s)"
    and z: "ncli (mc s) = 0 \<Longrightarrow> intena (mc s) = readeflags s" "ncli (mc s) \<noteq> 0 \<Longrightarrow> \<not> readeflags s"
  have "eflags_if s (lapicid s) = (ncli (mc s) = 0 \<and> intena (mc s))"
    using z by (auto simp: readeflags_def)
  then have "(eflags_if s)(lapicid s := ncli (mc s) = 0 \<and> intena (mc s)) = eflags_if s"
    by (simp add: fun_upd_idem)
  then show ?thesis
    using i unfolding pop_def mc_push [OF i(1)] me_simps
    by (simp add: push_def cli_def)
qed

lemma cpu_ok_push:
  assumes "cpu_ok s"
  shows "cpu_ok (push s)" and "1 \<le> ncli (mc (push s))"
  using assms by (auto elim!: cpu_okE simp: cpu_ok_def mc_push)

lemma mycpu_push: "cpu_ok s \<Longrightarrow> mycpu (push s) = Ok (the (me s)) (push s)"
  by (auto elim!: cpu_okE simp: mycpu_eq)

lemma popcli_push: "cpu_ok s \<Longrightarrow> popcli (push s) = Ok () s"
  using popcli_ok [of "push s" "the (me s)"] cpu_ok_push [of s] pop_push [of s]
  by (auto simp: cpu_ok_def [of s])

lemma myproc_ok: "cpu_ok s \<Longrightarrow> myproc s = Ok (cproc (mc s)) s"
  by (simp add: myproc_def pushcli_ok mycpu_push popcli_push Let_def)
    (auto elim!: cpu_okE simp: push_def)

lemma holding_ok: "cpu_ok s \<Longrightarrow> holding lk s = Ok (locked (locks s lk) \<and> lkcpu (locks s lk) = me s) s"
  by (simp add: holding_def pushcli_ok mycpu_push popcli_push Let_def)
    (auto elim!: cpu_okE simp: push_def cli_def)

text \<open>State after \<open>acquire\<close> of a free lock, and after \<open>release\<close> of a lock that is held.\<close>

definition enter :: "lockid \<Rightarrow> core \<Rightarrow> core" where
  "enter lk s = (push s)\<lparr>locks := (locks s)(lk := \<lparr>locked = True, lkcpu = me s\<rparr>)\<rparr>"

definition leave :: "lockid \<Rightarrow> core \<Rightarrow> core" where
  "leave lk s = (pop s)\<lparr>locks := (locks s)(lk := unlocked)\<rparr>"

lemma locks_push [simp]: "locks (push s) = locks s" "locks (pop s) = locks s"
  by (simp_all add: push_def pop_def cli_def)

lemma acquire_ok:
  assumes "cpu_ok s" and "lock_free lk s"
  shows "acquire lk s = Ok () (enter lk s)"
  using assms cpu_ok_push [OF assms(1)]
  by (auto elim!: cpu_okE simp: acquire_def pushcli_ok holding_ok mycpu_eq Let_def enter_def
      lock_free_def unlocked_def)

lemma pop_locks: "pop (s\<lparr>locks := l\<rparr>) = (pop s)\<lparr>locks := l\<rparr>"
  by (simp add: pop_def)

lemma cpu_ok_locks [simp]: "cpu_ok (s\<lparr>locks := l\<rparr>) = cpu_ok s"
  by (simp add: cpu_ok_def)

lemma release_ok:
  assumes "cpu_ok s" and "held lk s" and "1 \<le> ncli (mc s)"
  shows "release lk s = Ok () (leave lk s)"
  using assms
  by (auto elim!: cpu_okE simp: release_def holding_ok Let_def leave_def held_def unlocked_def
      popcli_ok pop_locks)

lemma leave_enter:
  assumes "cpu_ok s" and "lock_free lk s"
  shows "leave lk (enter lk s) = s"
  using assms by (simp add: leave_def enter_def pop_locks pop_push lock_free_def fun_upd_idem)

lemma enter_simps [simp]:
  "me (enter lk s) = me s" "locks (enter lk s) = (locks s)(lk := \<lparr>locked = True, lkcpu = me s\<rparr>)"
  by (simp_all add: enter_def)

lemma held_enter [simp]: "held lk (enter lk s)"
  by (simp add: held_def)

lemma lock_free_enter [simp]: "lk' \<noteq> lk \<Longrightarrow> lock_free lk' (enter lk s) = lock_free lk' s"
  by (simp add: lock_free_def)

lemma cpu_ok_enter:
  assumes "cpu_ok s"
  shows "cpu_ok (enter lk s)" "1 \<le> ncli (mc (enter lk s))"
  using cpu_ok_push [OF assms] by (simp_all add: enter_def)

lemma cproc_enter: "cpu_ok s \<Longrightarrow> cproc (mc (enter lk s)) = cproc (mc s)"
  by (auto elim!: cpu_okE simp: enter_def mc_push)

lemma acquire_twice_panics: "cpu_ok s \<Longrightarrow> held lk s \<Longrightarrow> acquire lk s = Panic ''acquire''"
  using cpu_ok_push [of s]
  by (auto simp: acquire_def pushcli_ok holding_ok held_def)

lemma acquire_other_spins:
  "cpu_ok s \<Longrightarrow> locked (locks s lk) \<Longrightarrow> lkcpu (locks s lk) \<noteq> me s \<Longrightarrow> acquire lk s = Spin"
  using cpu_ok_push [of s]
  by (auto simp: acquire_def pushcli_ok holding_ok held_def)


subsection \<open>All processors: interrupts are off wherever a lock is held\<close>

text \<open>
  The steps of the machine as far as locks are concerned: some other processor executes, the
  executing processor acquires or releases a lock, or it enables interrupts while it holds none
  (as \<open>scheduler()\<close> does).
\<close>

inductive lk_step :: "core \<Rightarrow> core \<Rightarrow> bool" where
  other: "j < ncpu s \<Longrightarrow> lk_step s (s\<lparr>lapicid := uint (apicid (cpus s ! j))\<rparr>)"
| acq: "acquire lk s = Ok () t \<Longrightarrow> lk_step s t"
| rel: "release lk s = Ok () t \<Longrightarrow> lk_step s t"
| ena: "me s = Some i \<Longrightarrow> ncli (cpus s ! i) = 0 \<Longrightarrow> lk_step s (sti s)"

definition lk_init :: "core \<Rightarrow> bool" where
  "lk_init s \<longleftrightarrow> ncpu s \<le> length (cpus s) \<and> distinct (map apicid (take (ncpu s) (cpus s))) \<and>
     (\<forall>i < ncpu s. ncli (cpus s ! i) = 0) \<and> (\<forall>lk. locks s lk = unlocked) \<and>
     (\<exists>i < ncpu s. lapicid s = uint (apicid (cpus s ! i)))"

text \<open>The locks that processor \<open>i\<close> holds; the invariant counts them.\<close>

definition locks_of :: "core \<Rightarrow> nat \<Rightarrow> lockid set" where
  "locks_of s i = {lk. lkcpu (locks s lk) = Some i}"

definition lk_inv :: "core \<Rightarrow> bool" where
  "lk_inv s \<longleftrightarrow> ncpu s \<le> length (cpus s) \<and> distinct (map apicid (take (ncpu s) (cpus s))) \<and>
     (\<exists>i < ncpu s. lapicid s = uint (apicid (cpus s ! i))) \<and>
     (\<forall>lk. locked (locks s lk) \<longleftrightarrow> lkcpu (locks s lk) \<noteq> None) \<and>
     (\<forall>lk i. lkcpu (locks s lk) = Some i \<longrightarrow> i < ncpu s) \<and>
     (\<forall>i < ncpu s. finite (locks_of s i) \<and> ncli (cpus s ! i) = int (card (locks_of s i))) \<and>
     (\<forall>i < ncpu s. ncli (cpus s ! i) \<noteq> 0 \<longrightarrow> \<not> eflags_if s (uint (apicid (cpus s ! i))))"

lemma lk_inv_init: "lk_init s \<Longrightarrow> lk_inv s"
  by (auto simp: lk_init_def lk_inv_def unlocked_def locks_of_def)

lemma me_nth:
  assumes "ncpu s \<le> length (cpus s)" and "distinct (map apicid (take (ncpu s) (cpus s)))"
    and "i < ncpu s" and "lapicid s = uint (apicid (cpus s ! i))"
  shows "me s = Some i"
proof -
  have "uint (apicid (cpus s ! j)) \<noteq> lapicid s" if "j < i" for j
  proof
    assume "uint (apicid (cpus s ! j)) = lapicid s"
    then have "map apicid (take (ncpu s) (cpus s)) ! j = map apicid (take (ncpu s) (cpus s)) ! i"
      using assms that by (simp add: word_uint_eq_iff)
    then show False
      using assms(1,2,3) that
      by (subst (asm) nth_eq_iff_index_eq) simp_all
  qed
  then show ?thesis
    using assms by (auto simp: me_def find_idx_Some)
qed

lemma lk_inv_me: "lk_inv s \<Longrightarrow> \<exists>i < ncpu s. me s = Some i \<and> lapicid s = uint (apicid (cpus s ! i))"
  using me_nth by (fastforce simp: lk_inv_def)

text \<open>Saving the interrupt flag again when no lock is held changes no operation.\<close>

definition settle :: "core \<Rightarrow> core" where
  "settle s = (if ncli (mc s) = 0 \<and> me s \<noteq> None
     then upd_cpu (the (me s)) (\<lambda>c. c\<lparr>intena := readeflags s\<rparr>) s else s)"

lemma me_settle [simp]: "me (settle s) = me s"
  by (rule me_cong) (auto simp: settle_def upd_cpu_def map_upd_same)

lemma mc_settle: "me s = Some i \<Longrightarrow>
    mc (settle s) = (if ncli (mc s) = 0 then (mc s)\<lparr>intena := readeflags s\<rparr> else mc s)"
  unfolding mc_def [of "settle s"] me_settle
  by (auto simp: settle_def upd_cpu_def mc_def dest: me_bound)

lemma readeflags_settle [simp]: "readeflags (settle s) = readeflags s"
  by (simp add: settle_def upd_cpu_def)

lemma lk_invE:
  assumes "lk_inv s"
  obtains i where "i < ncpu s" and "i < length (cpus s)" and "me s = Some i" and "mc s = cpus s ! i"
    and "lapicid s = uint (apicid (cpus s ! i))" and "finite (locks_of s i)"
    and "ncli (cpus s ! i) = int (card (locks_of s i))"
    and "ncli (cpus s ! i) \<noteq> 0 \<Longrightarrow> \<not> readeflags s"
proof -
  from lk_inv_me [OF assms] obtain i where i: "i < ncpu s" "me s = Some i"
    "lapicid s = uint (apicid (cpus s ! i))"
    by auto
  show ?thesis
    by (rule that [OF i(1) _ i(2) _ i(3)])
      (use assms i in \<open>auto simp: lk_inv_def mc_def readeflags_def\<close>)
qed

lemma lk_inv_cpu_ok: "lk_inv s \<Longrightarrow> cpu_ok (settle s)"
  by (erule lk_invE) (simp add: cpu_ok_def mc_settle)

lemma pushcli_gen:
  assumes "me s = Some i"
  shows "pushcli s = Ok () (push (settle s))"
proof (cases "ncli (mc s) = 0")
  case True
  have "cpus (settle s) = (cpus s)[i := (mc s)\<lparr>intena := readeflags s\<rparr>]"
    using True assms by (simp add: settle_def upd_cpu_def mc_def)
  moreover have "cli (settle s) = (cli s)\<lparr>cpus := cpus (settle s)\<rparr>"
    by (simp add: cli_def settle_def upd_cpu_def)
  ultimately show ?thesis
    using True assms me_bound [OF assms]
    by (simp add: pushcli_def mycpu_eq Let_def upd_cpu_def push_def mc_settle) (simp add: cli_def mc_def)
next
  case False
  then show ?thesis
    using assms me_bound [OF assms]
    by (simp add: pushcli_def mycpu_eq Let_def upd_cpu_def push_def settle_def) (simp add: cli_def mc_def)
qed

lemma acquire_settle: "lk_inv s \<Longrightarrow> acquire lk (settle s) = acquire lk s"
  using lk_inv_cpu_ok [of s] by (auto elim!: lk_invE simp: acquire_def pushcli_gen pushcli_ok)

lemma holding_settle: "lk_inv s \<Longrightarrow> holding lk (settle s) = holding lk s"
  using lk_inv_cpu_ok [of s] by (auto elim!: lk_invE simp: holding_def pushcli_gen pushcli_ok)

lemma locks_settle [simp]: "locks (settle s) = locks s" "ncpu (settle s) = ncpu s"
  "lapicid (settle s) = lapicid s" "eflags_if (settle s) = eflags_if s"
  by (simp_all add: settle_def upd_cpu_def)

lemma spinlock_eqI: "locked l = b \<Longrightarrow> lkcpu l = x \<Longrightarrow> l = \<lparr>locked = b, lkcpu = x\<rparr>"
  by (cases l) simp

lemma acquire_held:
  assumes "lk_inv s" and l: "locked (locks s lk)"
  shows "acquire lk s = (if lkcpu (locks s lk) = me s then Panic ''acquire'' else Spin)"
proof -
  have ok: "cpu_ok (settle s)"
    by (rule lk_inv_cpu_ok) (rule assms)
  show ?thesis
  proof (cases "lkcpu (locks s lk) = me s")
    case True
    then have "held lk (settle s)"
      using spinlock_eqI [OF _ True] l by (simp add: held_def)
    then show ?thesis
      using acquire_twice_panics [OF ok] True by (simp add: acquire_settle [OF assms(1)])
  next
    case False
    then show ?thesis
      using acquire_other_spins [OF ok, of lk] l by (simp add: acquire_settle [OF assms(1)])
  qed
qed

lemma acquire_inv_Ok:
  assumes "lk_inv s" and "acquire lk s = Ok () t"
  shows "lock_free lk s" and "t = enter lk (settle s)"
proof -
  have ok: "cpu_ok (settle s)"
    using assms(1) by (rule lk_inv_cpu_ok)
  have a: "acquire lk (settle s) = Ok () t"
    using assms by (simp add: acquire_settle)
  have "\<not> locked (locks s lk)"
    using acquire_twice_panics [OF ok, of lk] acquire_other_spins [OF ok, of lk] a
      spinlock_eqI [of "locks s lk" True]
    by (cases "lkcpu (locks s lk) = me s") (auto simp: held_def)
  moreover have "lkcpu (locks s lk) = None"
    using assms(1) calculation by (auto simp: lk_inv_def)
  ultimately show free: "lock_free lk s"
    by (simp add: lock_free_def unlocked_def)
  then show "t = enter lk (settle s)"
    using a acquire_ok [OF ok, of lk] by (simp add: lock_free_def)
qed

lemma settle_held:
  assumes "lk_inv s" and "lkcpu (locks s lk) = me s"
  shows "settle s = s" and "1 \<le> ncli (mc s)"
proof -
  from assms(1) obtain i where i: "me s = Some i" "mc s = cpus s ! i" "finite (locks_of s i)"
    "ncli (cpus s ! i) = int (card (locks_of s i))"
    by (rule lk_invE)
  have "lk \<in> locks_of s i"
    using assms(2) i by (simp add: locks_of_def)
  then have "0 < card (locks_of s i)"
    using i(3) card_gt_0_iff by blast
  then show "1 \<le> ncli (mc s)"
    using i by simp
  then show "settle s = s"
    by (simp add: settle_def)
qed

lemma release_inv_Ok:
  assumes "lk_inv s" and "release lk s = Ok () t"
  shows "held lk s" and "1 \<le> ncli (mc s)" and "t = leave lk s"
proof -
  have ok: "cpu_ok (settle s)"
    using assms(1) by (rule lk_inv_cpu_ok)
  have "holding lk s = Ok (locked (locks s lk) \<and> lkcpu (locks s lk) = me s) (settle s)"
    using holding_ok [OF ok, of lk] by (simp add: holding_settle [OF assms(1)])
  then have h: "locked (locks s lk)" "lkcpu (locks s lk) = me s"
    using assms(2) by (auto simp: release_def split: if_splits)
  then show held: "held lk s"
    by (simp add: held_def)
  note sh = settle_held [OF assms(1) h(2)]
  show "1 \<le> ncli (mc s)" by (rule sh)
  show "t = leave lk s"
    using release_ok [OF _ held sh(2)] ok assms(2) by (simp add: sh(1))
qed


lemma cpus_enter:
  "me s = Some i \<Longrightarrow> cpus (enter lk s) = (cpus s)[i := (mc s)\<lparr>ncli := ncli (mc s) + 1\<rparr>]"
  "me s = Some i \<Longrightarrow> cpus (leave lk s) = (cpus s)[i := (mc s)\<lparr>ncli := ncli (mc s) - 1\<rparr>]"
  by (simp_all add: enter_def leave_def push_def pop_def)

lemma core_enter [simp]:
  "ncpu (enter lk s) = ncpu s" "lapicid (enter lk s) = lapicid s"
  "eflags_if (enter lk s) = (eflags_if s)(lapicid s := False)"
  "ncpu (leave lk s) = ncpu s" "lapicid (leave lk s) = lapicid s"
  "locks (leave lk s) = (locks s)(lk := unlocked)"
  "eflags_if (leave lk s) = (eflags_if s)(lapicid s := (ncli (mc s) = 1 \<and> intena (mc s)))"
  by (simp_all add: enter_def leave_def push_def pop_def cli_def)

lemma apicid_nth_eq:
  "lk_inv s \<Longrightarrow> i < ncpu s \<Longrightarrow> j < ncpu s \<Longrightarrow> apicid (cpus s ! i) = apicid (cpus s ! j) \<Longrightarrow> i = j"
  using nth_eq_iff_index_eq [of "map apicid (take (ncpu s) (cpus s))" i j]
  by (simp add: lk_inv_def)

lemma take_upd_apicid:
  "apicid c = apicid (xs ! i) \<Longrightarrow> map apicid (take n (xs[i := c])) = map apicid (take n xs)"
  by (metis map_upd_same take_map)

lemma lk_inv_acquire:
  assumes inv: "lk_inv s" and a: "acquire lk s = Ok () t"
  shows "lk_inv t"
proof -
  from inv obtain i where i: "i < ncpu s" "i < length (cpus s)" "me s = Some i" "mc s = cpus s ! i"
    "lapicid s = uint (apicid (cpus s ! i))"
    by (rule lk_invE)
  note f = acquire_inv_Ok [OF inv a]
  have n: "lkcpu (locks s lk) = None"
    using f(1) by (simp add: lock_free_def unlocked_def)
  obtain b where c: "cpus t = (cpus s)[i := (cpus s ! i)\<lparr>intena := b, ncli := ncli (cpus s ! i) + 1\<rparr>]"
  proof (cases "ncli (cpus s ! i) = 0")
    case True
    with that [of "readeflags s"] i show ?thesis
      by (simp add: f(2) cpus_enter mc_settle) (simp add: settle_def upd_cpu_def)
  next
    case False
    with that [of "intena (cpus s ! i)"] i show ?thesis
      by (simp add: f(2) cpus_enter mc_settle) (simp add: settle_def)
  qed
  have et: "eflags_if t = (eflags_if s)(lapicid s := False)"
    and ft: "ncpu t = ncpu s" "lapicid t = lapicid s" "locks t = (locks s)(lk := \<lparr>locked = True, lkcpu = me s\<rparr>)"
    by (simp_all add: f(2))
  have own: "locks_of t j = (if j = i then insert lk (locks_of s j) else locks_of s j)" for j
    using n i(3) by (auto simp: locks_of_def ft)
  have fresh: "lk \<notin> locks_of s j" for j
    using n by (simp add: locks_of_def)
  have cards: "finite (locks_of t j) \<and> ncli (cpus t ! j) = int (card (locks_of t j))" if "j < ncpu s" for j
    using inv that i fresh by (auto simp: lk_inv_def own c)
  have ifs: "\<not> eflags_if t (uint (apicid (cpus t ! j)))" if "j < ncpu s" "ncli (cpus t ! j) \<noteq> 0" for j
    using inv that i et by (cases "j = i") (auto simp: lk_inv_def c)
  show ?thesis
    unfolding lk_inv_def
  proof (intro conjI)
    show "\<forall>j<ncpu t. finite (locks_of t j) \<and> ncli (cpus t ! j) = int (card (locks_of t j))"
      using cards by (simp add: ft)
    show "\<forall>j<ncpu t. ncli (cpus t ! j) \<noteq> 0 \<longrightarrow> \<not> eflags_if t (uint (apicid (cpus t ! j)))"
      using ifs by (simp add: ft)
    show "\<exists>i<ncpu t. lapicid t = uint (apicid (cpus t ! i))"
      using i by (intro exI [of _ i]) (simp add: c ft)
    show "distinct (map apicid (take (ncpu t) (cpus t)))"
      using inv by (simp add: lk_inv_def c ft take_upd_apicid)
    show "\<forall>k. locked (locks t k) \<longleftrightarrow> lkcpu (locks t k) \<noteq> None"
      using inv i(3) by (simp add: lk_inv_def ft)
    show "\<forall>k j. lkcpu (locks t k) = Some j \<longrightarrow> j < ncpu t"
      using inv i(1,3) by (simp add: lk_inv_def ft)
  qed (use inv in \<open>simp add: lk_inv_def c ft\<close>)
qed

lemma lk_inv_release:
  assumes inv: "lk_inv s" and a: "release lk s = Ok () t"
  shows "lk_inv t"
proof -
  from inv obtain i where i: "i < ncpu s" "i < length (cpus s)" "me s = Some i" "mc s = cpus s ! i"
    "lapicid s = uint (apicid (cpus s ! i))" "finite (locks_of s i)"
    by (rule lk_invE)
  note f = release_inv_Ok [OF inv a]
  have c: "cpus t = (cpus s)[i := (cpus s ! i)\<lparr>ncli := ncli (cpus s ! i) - 1\<rparr>]"
    using i by (simp add: f(3) cpus_enter)
  have et: "eflags_if t = (eflags_if s)(lapicid s := (ncli (mc s) = 1 \<and> intena (mc s)))"
    and ft: "ncpu t = ncpu s" "lapicid t = lapicid s" "locks t = (locks s)(lk := unlocked)"
    by (simp_all add: f(3))
  have mem: "lk \<in> locks_of s j \<longleftrightarrow> j = i" for j
    using f(1) i by (auto simp: locks_of_def held_def)
  have own: "locks_of t j = locks_of s j - {lk}" for j
    by (auto simp: locks_of_def ft unlocked_def)
  have "int (card (locks_of s i - {lk})) = int (card (locks_of s i)) - 1"
    using i(6) mem [of i] card_Suc_Diff1 [of "locks_of s i" lk] by linarith
  then have cards: "finite (locks_of t j) \<and> ncli (cpus t ! j) = int (card (locks_of t j))" if "j < ncpu s" for j
    using inv that i mem [of j] by (cases "j = i") (auto simp: lk_inv_def own c)
  have ifs: "\<not> eflags_if t (uint (apicid (cpus t ! j)))" if j: "j < ncpu s" "ncli (cpus t ! j) \<noteq> 0" for j
  proof (cases "j = i")
    case True
    then show ?thesis
      using j i et by (auto simp: c)
  next
    case False
    then have "apicid (cpus s ! j) \<noteq> apicid (cpus s ! i)"
      using apicid_nth_eq [OF inv j(1) i(1)] by blast
    then show ?thesis
      using inv j i et False by (auto simp: lk_inv_def c word_uint_eq_iff)
  qed
  show ?thesis
    unfolding lk_inv_def
  proof (intro conjI)
    show "\<forall>j<ncpu t. finite (locks_of t j) \<and> ncli (cpus t ! j) = int (card (locks_of t j))"
      using cards by (simp add: ft)
    show "\<forall>j<ncpu t. ncli (cpus t ! j) \<noteq> 0 \<longrightarrow> \<not> eflags_if t (uint (apicid (cpus t ! j)))"
      using ifs by (simp add: ft)
    show "\<exists>i<ncpu t. lapicid t = uint (apicid (cpus t ! i))"
      using i by (intro exI [of _ i]) (simp add: c ft)
    show "distinct (map apicid (take (ncpu t) (cpus t)))"
      using inv by (simp add: lk_inv_def c ft take_upd_apicid)
    show "\<forall>k. locked (locks t k) \<longleftrightarrow> lkcpu (locks t k) \<noteq> None"
      using inv i(3) by (simp add: lk_inv_def ft unlocked_def)
    show "\<forall>k j. lkcpu (locks t k) = Some j \<longrightarrow> j < ncpu t"
      using inv i(1,3) by (simp add: lk_inv_def ft unlocked_def)
  qed (use inv in \<open>simp add: lk_inv_def c ft\<close>)
qed

lemma lk_inv_sti:
  assumes inv: "lk_inv s" and m: "me s = Some i" "ncli (cpus s ! i) = 0"
  shows "lk_inv (sti s)"
proof -
  from inv m(1) have i: "i < ncpu s" "lapicid s = uint (apicid (cpus s ! i))"
    by (auto elim!: lk_invE)
  have "\<not> eflags_if (sti s) (uint (apicid (cpus s ! j)))" if "j < ncpu s" "ncli (cpus s ! j) \<noteq> 0" for j
    using inv that i m apicid_nth_eq [OF inv that(1) i(1)]
    by (auto simp: lk_inv_def sti_def word_uint_eq_iff)
  with inv show ?thesis
    unfolding lk_inv_def locks_of_def by (simp add: sti_def)
qed

lemma lk_inv_step:
  assumes "lk_inv s" and "lk_step s t"
  shows "lk_inv t"
  using assms(2,1)
proof cases
  case (other j)
  with assms(1) show ?thesis
    by (auto simp: lk_inv_def locks_of_def)
qed (use assms(1) in \<open>simp_all add: lk_inv_acquire [OF assms(1)] lk_inv_release [OF assms(1)] lk_inv_sti\<close>)

interpretation spin: inductive_invariant lk_init lk_step lk_inv
  by unfold_locales (auto intro: lk_inv_init lk_inv_step)


subsection \<open>What the locks guarantee\<close>

text \<open>A machine with two processors that has just booted, for the examples.\<close>

definition boot_cpu :: "u8 \<Rightarrow> cpu" where
  "boot_cpu a = \<lparr>apicid = a, ts = \<lparr>esp0 = 0, ss0 = 0, iomb = 0\<rparr>, gdt = [], started = True, ncli = 0,
     intena = False, cproc = None\<rparr>"

definition boot_core :: core where
  "boot_core = \<lparr>cpus = [boot_cpu 0, boot_cpu 1], ncpu = 2, lapicid = 0, eflags_if = \<lambda>_. False,
     cr3 = \<lambda>_. 0, locks = \<lambda>_. unlocked\<rparr>"

lemma boot_core_init: "lk_init boot_core"
  unfolding lk_init_def
proof (intro conjI)
  show "\<exists>i<ncpu boot_core. lapicid boot_core = uint (apicid (cpus boot_core ! i))"
    by (rule exI [of _ 0]) (simp add: boot_core_def boot_cpu_def)
qed (auto simp: boot_core_def boot_cpu_def less_2_cases_iff)

lemma boot_core_ok: "cpu_ok boot_core" "me boot_core = Some 0" "lock_free lk boot_core"
  by (simp_all add: cpu_ok_def me_def mc_def boot_core_def boot_cpu_def readeflags_def lock_free_def)

lemma boot_core_reaches: "reaches lk_init lk_step boot_core"
  by (rule reaches_init) (rule boot_core_init)

lemma boot_core_acquire: "reaches lk_init lk_step (enter lk boot_core)"
proof (rule reaches_step)
  show "reaches lk_init lk_step boot_core"
    by (rule boot_core_reaches)
  show "lk_step boot_core (enter lk boot_core)"
    by (rule lk_step.acq) (simp add: acquire_ok boot_core_ok)
qed

text \<open>C2: in every reachable state \<open>acquire\<close> succeeds exactly on a lock nobody holds and then the
  executing processor is its holder; on a lock it already holds the kernel panics, and on a lock
  of another processor it spins.\<close>

theorem acquire_outcome:
  assumes "reaches lk_init lk_step s"
  shows "if locked (locks s lk)
    then acquire lk s = (if lkcpu (locks s lk) = me s then Panic ''acquire'' else Spin)
    else \<exists>t. acquire lk s = Ok () t \<and> held lk t \<and> me t = me s"
proof (cases "locked (locks s lk)")
  case True
  then show ?thesis
    by (simp add: acquire_held spin.reachable_inv [OF assms])
next
  case free: False
  have inv: "lk_inv s"
    by (rule spin.reachable_inv) (rule assms)
  with free have "lkcpu (locks s lk) = None"
    by (simp add: lk_inv_def)
  then have "lock_free lk (settle s)"
    using free spinlock_eqI [of "locks s lk" False] by (simp add: lock_free_def unlocked_def)
  then have "acquire lk s = Ok () (enter lk (settle s))"
    using acquire_ok [OF lk_inv_cpu_ok [OF inv], of lk] by (simp add: acquire_settle [OF inv])
  then show ?thesis
    using free by (simp add: held_def)
qed

theorem acquire_outcome_witness:
  "acquire L_kmem (enter L_kmem boot_core) = Panic ''acquire'' \<and>
   (\<exists>t. acquire L_kmem boot_core = Ok () t \<and> held L_kmem t \<and> me t = me boot_core)"
  using acquire_outcome [OF boot_core_acquire, of L_kmem L_kmem]
    acquire_outcome [OF boot_core_reaches, of L_kmem]
  by (simp add: boot_core_ok(3) [unfolded lock_free_def] unlocked_def)

end
