(* ===== verification/Contend.thy ===== *)
theory Contend
  imports Spinlock
begin

section \<open>Contention for spin locks\<close>

text \<open>
  The code of \<open>acquire\<close> and \<open>release\<close> cut at the accesses to the lock that other processors can see, and the
  interleaving of all processors at this grain: a processor raises \<open>ncli\<close>, then tries the atomic exchange as
  often as it finds the lock taken, then records itself in the lock; a release clears the record, then the lock,
  then lowers \<open>ncli\<close>.  \<open>pushcli\<close> and \<open>popcli\<close> work on the processor's own data with interrupts off and are one
  step each, as is \<open>holding\<close>, whose answer only its own processor can change.  \<open>acquire_parts\<close> and \<open>release_parts\<close> relate the pieces to the whole functions.

  The state \<open>lkm\<close> has a program counter per processor and two histories that no operation reads: \<open>own\<close>, the
  locks whose exchange a processor has won and which it has not yet given back, and \<open>extra\<close>, the
  calls of \<open>pushcli\<close> outside \<open>acquire\<close> (in \<open>myproc\<close> or \<open>switchuvm\<close>) that wait for their \<open>popcli\<close>.
\<close>

definition acquire_enter :: "lockid \<Rightarrow> core \<Rightarrow> (unit, core) res" where
  "acquire_enter lk s =
     bnd (pushcli s) (\<lambda>_ s.
     bnd (holding lk s) (\<lambda>h s. if h then Panic ''acquire'' else Ok () s))"

definition acquire_xchg :: "lockid \<Rightarrow> core \<Rightarrow> (bool, core) res" where
  "acquire_xchg lk s = Ok (locked (locks s lk)) (s\<lparr>locks := (locks s)(lk := (locks s lk)\<lparr>locked := True\<rparr>)\<rparr>)"

definition acquire_note :: "lockid \<Rightarrow> core \<Rightarrow> (unit, core) res" where
  "acquire_note lk s =
     bnd (mycpu s) (\<lambda>c s. Ok () (s\<lparr>locks := (locks s)(lk := (locks s lk)\<lparr>lkcpu := Some c\<rparr>)\<rparr>))"

definition release_check :: "lockid \<Rightarrow> core \<Rightarrow> (unit, core) res" where
  "release_check lk s = bnd (holding lk s) (\<lambda>h s. if \<not> h then Panic ''release'' else Ok () s)"

definition release_clear :: "lockid \<Rightarrow> core \<Rightarrow> core" where
  "release_clear lk s = s\<lparr>locks := (locks s)(lk := (locks s lk)\<lparr>lkcpu := None\<rparr>)\<rparr>"

definition release_unlock :: "lockid \<Rightarrow> core \<Rightarrow> core" where
  "release_unlock lk s = s\<lparr>locks := (locks s)(lk := (locks s lk)\<lparr>locked := False\<rparr>)\<rparr>"


text \<open>A call that nobody interrupts is the whole function; a taken lock then stays taken, and the exchange is
  repeated forever.\<close>

lemma acquire_parts:
  "acquire lk s = bnd (acquire_enter lk s) (\<lambda>_ s. bnd (acquire_xchg lk s) (\<lambda>old t. if old then Spin else acquire_note lk t))"
  by (auto simp: acquire_def acquire_enter_def acquire_xchg_def acquire_note_def bnd_assoc Let_def intro!: bnd_cong)

lemma release_parts:
  "release lk s = bnd (release_check lk s) (\<lambda>_ s. popcli (release_unlock lk (release_clear lk s)))"
  by (auto simp: release_def release_check_def release_clear_def release_unlock_def bnd_assoc Let_def intro!: bnd_cong)


subsection \<open>The machine\<close>






subsection \<open>The invariant\<close>















subsection \<open>The steps of one processor\<close>
































subsection \<open>What the locks guarantee\<close>







end
