(* ===== verification/Ram.thy ===== *)
theory Ram
  imports Mmu
begin

section \<open>Memory and the string functions: string.c and the store instructions of x86.h\<close>

text \<open>
  Memory is a total function from 32-bit kernel addresses to bytes.  \<open>load32\<close> and \<open>store32\<close> are the
  accesses through an \<open>uint*\<close>.  The first group of definitions translates \<open>memset\<close>, \<open>memcmp\<close> and
  \<open>memmove\<close> with their loops; the lemmas show that \<open>memset\<close> fills exactly its range on both of its
  branches and that \<open>memmove\<close> copies correctly when source and destination overlap.

  The second group translates the functions on NUL-terminated strings.  A \<open>const char*\<close> argument is
  the sequence of bytes it points to (\<open>nat \<Rightarrow> u8\<close>), so that one translation serves strings in
  memory (\<open>str_at\<close>) and strings in a byte array (\<open>str_of\<close>); \<open>strncpy\<close> and \<open>safestrcpy\<close> return the
  bytes they store, first byte first.  The lemmas show that \<open>strncmp\<close> decides equality of the
  strings and that a string survives \<open>strncpy\<close>.
\<close>

type_synonym ram = "u32 \<Rightarrow> u8"

definition load32 :: "ram \<Rightarrow> u32 \<Rightarrow> u32" where
  "load32 m a = word32 (m a) (m (a + 1)) (m (a + 2)) (m (a + 3))"

definition store32 :: "ram \<Rightarrow> u32 \<Rightarrow> u32 \<Rightarrow> ram" where
  "store32 m a v = m(a := ucast v, a + 1 := ucast (drop_bit 8 v), a + 2 := ucast (drop_bit 16 v),
     a + 3 := ucast (drop_bit 24 v))"

subsection \<open>Block functions\<close>

fun stosb :: "u32 \<Rightarrow> u32 \<Rightarrow> nat \<Rightarrow> ram \<Rightarrow> ram" where
  "stosb a d 0 m = m"
| "stosb a d (Suc cnt) m = stosb (a + 1) d cnt (m(a := ucast d))"

fun stosl :: "u32 \<Rightarrow> u32 \<Rightarrow> nat \<Rightarrow> ram \<Rightarrow> ram" where
  "stosl a d 0 m = m"
| "stosl a d (Suc cnt) m = stosl (a + 4) d cnt (store32 m a d)"

definition memset :: "u32 \<Rightarrow> u32 \<Rightarrow> u32 \<Rightarrow> ram \<Rightarrow> ram" where
  "memset dst c n m =
     (if dst mod 4 = 0 \<and> n mod 4 = 0 then
        let c = c AND 0xFF in
        stosl dst (push_bit 24 c OR push_bit 16 c OR push_bit 8 c OR c) (unat (n div 4)) m
      else stosb dst c (unat n) m)"

fun memcmp :: "ram \<Rightarrow> u32 \<Rightarrow> u32 \<Rightarrow> nat \<Rightarrow> int" where
  "memcmp m s1 s2 0 = 0"
| "memcmp m s1 s2 (Suc n) =
     (if m s1 \<noteq> m s2 then uint (m s1) - uint (m s2) else memcmp m (s1 + 1) (s2 + 1) n)"

text \<open>The two loops of \<open>memmove\<close>: \<open>*--d = *--s\<close> and \<open>*d++ = *s++\<close>.\<close>

fun move_down :: "u32 \<Rightarrow> u32 \<Rightarrow> nat \<Rightarrow> ram \<Rightarrow> ram" where
  "move_down d s 0 m = m"
| "move_down d s (Suc n) m = move_down (d - 1) (s - 1) n (m(d - 1 := m (s - 1)))"

fun move_up :: "u32 \<Rightarrow> u32 \<Rightarrow> nat \<Rightarrow> ram \<Rightarrow> ram" where
  "move_up d s 0 m = m"
| "move_up d s (Suc n) m = move_up (d + 1) (s + 1) n (m(d := m s))"

definition memmove :: "u32 \<Rightarrow> u32 \<Rightarrow> u32 \<Rightarrow> ram \<Rightarrow> ram" where
  "memmove d s n m =
     (if s < d \<and> s + n > d then move_down (d + n) (s + n) (unat n) m
      else move_up d s (unat n) m)"

subsection \<open>Strings\<close>

definition str_at :: "ram \<Rightarrow> u32 \<Rightarrow> nat \<Rightarrow> u8" where
  "str_at m p i = m (p + of_nat i)"

definition str_of :: "u8 list \<Rightarrow> nat \<Rightarrow> u8" where
  "str_of xs i = (if i < length xs then xs ! i else 0)"

fun strncmp :: "(nat \<Rightarrow> u8) \<Rightarrow> (nat \<Rightarrow> u8) \<Rightarrow> nat \<Rightarrow> int" where
  "strncmp p q 0 = 0"
| "strncmp p q (Suc n) =
     (if p 0 \<noteq> 0 \<and> p 0 = q 0 then strncmp (\<lambda>i. p (Suc i)) (\<lambda>i. q (Suc i)) n
      else uint (p 0) - uint (q 0))"

fun strncpy :: "(nat \<Rightarrow> u8) \<Rightarrow> nat \<Rightarrow> u8 list" where
  "strncpy t 0 = []"
| "strncpy t (Suc n) =
     t 0 # (if t 0 \<noteq> 0 then strncpy (\<lambda>i. t (Suc i)) n else replicate n 0)"

fun safestrcpy_loop :: "(nat \<Rightarrow> u8) \<Rightarrow> nat \<Rightarrow> u8 list" where
  "safestrcpy_loop t 0 = [0]"
| "safestrcpy_loop t (Suc n) = (if t 0 \<noteq> 0 then t 0 # safestrcpy_loop (\<lambda>i. t (Suc i)) n else [0, 0])"

definition safestrcpy :: "(nat \<Rightarrow> u8) \<Rightarrow> int \<Rightarrow> u8 list" where
  "safestrcpy t n = (if n \<le> 0 then [] else safestrcpy_loop t (nat (n - 1)))"

partial_function (option) strlen_from :: "(nat \<Rightarrow> u8) \<Rightarrow> nat \<Rightarrow> nat option" where
  "strlen_from s n = (if s n = 0 then Some n else strlen_from s (n + 1))"

definition strlen :: "(nat \<Rightarrow> u8) \<Rightarrow> nat option" where
  "strlen s = strlen_from s 0"

subsection \<open>Accesses within a page\<close>

lemma load32_store32_same [simp]: "load32 (store32 m a v) a = v"
  by (simp add: load32_def store32_def)

text \<open>Words at multiples of four do not overlap, and stay within their page.\<close>

definition al4 :: "u32 \<Rightarrow> bool" where
  "al4 a \<longleftrightarrow> a mod 4 = 0"

lemma al4_unat: "al4 a \<longleftrightarrow> unat a mod 4 = 0"
  by (simp add: al4_def word_unat_eq_iff unat_mod_distrib)

lemma aligned_al4 [simp]: "aligned a \<Longrightarrow> al4 a"
  using dvd_trans [of 4 4096 "unat a"] by (simp add: aligned_unat al4_unat mod_eq_0_iff_dvd)

lemma al4_index: "aligned p \<Longrightarrow> al4 (p + 4 * i)"
proof -
  assume "aligned p"
  then have "unat p mod 4 = 0"
    using aligned_al4 [of p] by (simp add: al4_unat)
  then show ?thesis
    by (auto simp: al4_unat unat_word_ariths mod_mod_cancel)
qed

lemma al4_offset:
  assumes "al4 a" and "i < 4"
  shows "unat (a + of_nat i) = unat a + i"
proof -
  obtain k where "unat a = 4 * k"
    using assms(1) by (auto simp: al4_unat mod_eq_0_iff_dvd)
  then have "unat a + i < 4294967296"
    using unat_u32_less [of a] assms(2) by simp
  then show ?thesis
    using assms(2) by (simp add: unat_word_ariths unat_of_nat)
qed

lemma al4_offsets:
  assumes "al4 a"
  shows "unat (a + 1) = unat a + 1" "unat (a + 2) = unat a + 2" "unat (a + 3) = unat a + 3"
  using al4_offset [OF assms, of 1] al4_offset [OF assms, of 2] al4_offset [OF assms, of 3] by simp_all

lemma store32_other:
  assumes "al4 a" and "unat b < unat a \<or> unat a + 4 \<le> unat b"
  shows "store32 m a v b = m b"
  using assms by (auto simp: store32_def word_unat_eq_iff al4_offsets)

lemma load32_store32_other:
  assumes "al4 a" and "al4 b" and "a \<noteq> b"
  shows "load32 (store32 m a v) b = load32 m b"
proof -
  have "unat b + 4 \<le> unat a \<or> unat a + 4 \<le> unat b"
    using assms unfolding al4_unat word_unat_eq_iff by presburger
  then show ?thesis
    using assms by (auto simp: load32_def store32_other al4_offsets)
qed

lemma PGROUNDDOWN_al4:
  assumes "al4 a"
  shows "PGROUNDDOWN (a + 1) = PGROUNDDOWN a" "PGROUNDDOWN (a + 2) = PGROUNDDOWN a"
    "PGROUNDDOWN (a + 3) = PGROUNDDOWN a"
proof -
  obtain k where "unat a = 4 * k"
    using assms by (auto simp: al4_unat mod_eq_0_iff_dvd)
  moreover have "x div 4096 = x div 4 div 1024" for x :: nat
    by (simp add: div_mult2_eq [symmetric])
  ultimately show "PGROUNDDOWN (a + 1) = PGROUNDDOWN a" "PGROUNDDOWN (a + 2) = PGROUNDDOWN a"
    "PGROUNDDOWN (a + 3) = PGROUNDDOWN a"
    by (simp_all add: word_unat_eq_iff unat_PGROUNDDOWN al4_offsets [OF assms])
qed

lemma store32_page:
  assumes "al4 a" and "PGROUNDDOWN b \<noteq> PGROUNDDOWN a"
  shows "store32 m a v b = m b"
  using assms PGROUNDDOWN_al4 [OF assms(1)] by (auto simp: store32_def)

lemma load32_cong:
  assumes "al4 a" and "\<And>b. PGROUNDDOWN b = PGROUNDDOWN a \<Longrightarrow> m b = m' b"
  shows "load32 m a = load32 m' a"
  using assms(2) PGROUNDDOWN_al4 [OF assms(1)] by (simp add: load32_def)

lemma load32_store32_page:
  assumes "al4 a" and "al4 b" and "PGROUNDDOWN b \<noteq> PGROUNDDOWN a"
  shows "load32 (store32 m a v) b = load32 m b"
  using load32_store32_other [OF assms(1,2)] assms(3) by auto

lemma unat_index4:
  assumes "i \<le> (0x3FF :: u32)"
  shows "unat (4 * i) = 4 * unat i" "unat (4 * i) < 4096"
  using assms by (simp_all add: word_le_nat_alt unat_word_ariths)

lemma PGROUNDDOWN_index:
  assumes "aligned p" and "i \<le> 0x3FF"
  shows "PGROUNDDOWN (p + 4 * i) = p"
  by (rule PGROUNDDOWN_add) (use assms unat_index4 in auto)

lemma index4_inj:
  assumes "i \<le> (0x3FF :: u32)" and "j \<le> 0x3FF"
  shows "p + 4 * i = p + 4 * j \<longleftrightarrow> i = j"
proof
  assume "p + 4 * i = p + 4 * j"
  then have "unat (4 * i) = unat (4 * j)"
    by simp
  then show "i = j"
    by (simp only: unat_index4 [OF assms(1)] unat_index4 [OF assms(2)]) (simp add: word_unat_eq_iff)
qed simp

subsection \<open>What the block functions compute\<close>

text \<open>\<open>in_range a n b\<close>: the byte \<open>b\<close> is one of the \<open>n\<close> bytes from \<open>a\<close> on.\<close>

definition in_range :: "u32 \<Rightarrow> nat \<Rightarrow> u32 \<Rightarrow> bool" where
  "in_range a n b \<longleftrightarrow> unat (b - a) < n"

lemma in_range_0 [simp]: "\<not> in_range a 0 b"
  by (simp add: in_range_def)

lemma unat_sub_one: "unat ((b :: u32) - a) \<noteq> 0 \<Longrightarrow> unat (b - (a + 1)) = unat (b - a) - 1"
  using unat_minus_one [of "b - a"] by (simp add: diff_diff_eq unat_eq_0)

lemma in_range_Suc: "in_range a (Suc n) b \<longleftrightarrow> b = a \<or> (in_range (a + 1) n b \<and> b \<noteq> a)"
proof (cases "b = a")
  case False
  then have "unat (b - a) \<noteq> 0"
    by (simp add: unat_eq_0)
  then show ?thesis
    using False unat_sub_one [of b a] by (auto simp: in_range_def)
qed (simp add: in_range_def)

lemma unat_minus_one_u32: "unat (- 1 :: u32) = 4294967295"
  by (simp add: unsigned_minus_1_eq_mask mask_eq_exp_minus_1)

lemma stosb_fill: "n \<le> 2 ^ 32 \<Longrightarrow> stosb a c n m b = (if in_range a n b then ucast c else m b)"
proof (induction n arbitrary: a m)
  case (Suc n)
  have "\<not> in_range (a + 1) n a"
    using Suc.prems by (simp add: in_range_def unat_minus_one_u32)
  then show ?case
    using Suc by (auto simp: in_range_Suc)
qed simp

text \<open>The replicated byte of \<open>memset\<close>: four byte stores and one word store are the same.\<close>

lemma replicated_bytes:
  fixes c :: u32
  defines "w \<equiv> push_bit 24 (take_bit 8 c) OR push_bit 16 (take_bit 8 c) OR push_bit 8 (take_bit 8 c) OR take_bit 8 c"
  shows "ucast w = (ucast c :: u8)" "ucast (drop_bit 8 w) = (ucast c :: u8)"
    "ucast (drop_bit 16 w) = (ucast c :: u8)" "ucast (drop_bit 24 w) = (ucast c :: u8)"
  unfolding w_def by (rule bit_word_eqI; auto simp: bit_simps)+

lemma stosl_stosb:
  fixes c :: u32
  defines "w \<equiv> push_bit 24 (take_bit 8 c) OR push_bit 16 (take_bit 8 c) OR push_bit 8 (take_bit 8 c) OR take_bit 8 c"
  shows "stosl a w n m = stosb a c (4 * n) m"
proof (induction n arbitrary: a m)
  case (Suc n)
  have four: "4 * Suc n = Suc (Suc (Suc (Suc (4 * n))))"
    by simp
  have "stosb a c (4 * Suc n) m = stosb (a + 4) c (4 * n)
      (m(a := ucast c, a + 1 := ucast c, a + 2 := ucast c, a + 3 := ucast c))"
    by (simp only: four stosb.simps) (simp add: add.assoc)
  moreover have "store32 m a w = m(a := ucast c, a + 1 := ucast c, a + 2 := ucast c, a + 3 := ucast c)"
    by (simp only: store32_def w_def replicated_bytes)
  ultimately show ?case
    by (simp only: stosl.simps Suc.IH)
qed simp

lemma memset_fill: "memset dst c n m = (\<lambda>b. if in_range dst (unat n) b then ucast c else m b)"
proof
  fix b
  have "4 * unat (n div 4) = unat n" if "n mod 4 = 0"
  proof -
    have "unat n mod 4 = 0"
      using that by (simp add: word_unat_eq_iff unat_mod_distrib)
    then show ?thesis
      by (simp add: unat_div_distrib mod_eq_0_iff_dvd)
  qed
  moreover have "stosb dst c (unat n) m b = (if in_range dst (unat n) b then ucast c else m b)"
    by (rule stosb_fill) (use unat_u32_less [of n] in simp)
  ultimately show "memset dst c n m b = (if in_range dst (unat n) b then ucast c else m b)"
    by (simp add: memset_def Let_def and_masks stosl_stosb)
qed

lemma in_range_page:
  assumes "aligned p"
  shows "in_range p 4096 b \<longleftrightarrow> PGROUNDDOWN b = p"
proof
  assume r: "in_range p 4096 b"
  then show "PGROUNDDOWN b = p"
    using PGROUNDDOWN_add [OF assms, of "b - p"] by (simp add: in_range_def)
next
  assume "PGROUNDDOWN b = p"
  then have "p \<le> b" "unat p = unat b div 4096 * 4096"
    using PGROUNDDOWN_le [of b] unat_PGROUNDDOWN [of b] by auto
  then have "unat (b - p) = unat b mod 4096"
    by (simp add: unat_sub_if_size word_le_nat_alt minus_div_mult_eq_mod)
  then show "in_range p 4096 b"
    by (simp add: in_range_def)
qed

lemma memset_page:
  "aligned p \<Longrightarrow> memset p c 4096 m = (\<lambda>b. if PGROUNDDOWN b = p then ucast c else m b)"
  by (simp add: memset_fill in_range_page)

lemma load32_memset_page:
  assumes "aligned p" and "al4 a"
  shows "PGROUNDDOWN a = p \<Longrightarrow> load32 (memset p 0 4096 m) a = 0"
    and "PGROUNDDOWN a \<noteq> p \<Longrightarrow> load32 (memset p c 4096 m) a = load32 m a"
  using assms PGROUNDDOWN_al4 [OF assms(2)] by (simp_all add: memset_page load32_def)

text \<open>Each loop of \<open>memmove\<close> copies, provided no store hits a byte that is still to be read.\<close>

lemma of_nat_unat_diff: "a + of_nat (unat (b - a)) = (b :: u32)"
  by simp

lemma move_up_copy:
  assumes "n \<le> 2 ^ 32" and "\<And>i j. i < j \<Longrightarrow> j < n \<Longrightarrow> d + of_nat i \<noteq> s + of_nat j"
  shows "move_up d s n m b = (if in_range d n b then m (s + (b - d)) else m b)"
  using assms
proof (induction n arbitrary: d s m)
  case (Suc n)
  have "d + 1 + of_nat i \<noteq> s + 1 + of_nat j" if "i < j" "j < n" for i j
    using Suc.prems(2) [of "Suc i" "Suc j"] that by (simp add: add.assoc)
  then have IH: "move_up (d + 1) (s + 1) n (m(d := m s)) b =
      (if in_range (d + 1) n b then (m(d := m s)) (s + 1 + (b - (d + 1))) else (m(d := m s)) b)"
    using Suc.IH [of "d + 1" "s + 1"] Suc.prems(1) by auto
  have "s + (b - d) \<noteq> d" if "in_range (d + 1) n b" "b \<noteq> d"
  proof -
    have "0 < unat (b - d)" "unat (b - d) < Suc n"
      using that in_range_Suc [of d n b] by (auto simp: in_range_def unat_gt_0)
    then show ?thesis
      using Suc.prems(2) [of 0 "unat (b - d)"] by auto
  qed
  moreover have "\<not> in_range (d + 1) n d"
    using Suc.prems(1) by (simp add: in_range_def unat_minus_one_u32)
  ultimately show ?case
    using IH by (auto simp: in_range_Suc algebra_simps)
qed simp

lemma in_range_Suc_last: "n < 2 ^ 32 \<Longrightarrow> in_range a (Suc n) b \<longleftrightarrow> in_range a n b \<or> b = a + of_nat n"
proof -
  assume n: "n < 2 ^ 32"
  have "b = a + of_nat n \<longleftrightarrow> b - a = of_nat n"
    by (auto simp: algebra_simps)
  also have "\<dots> \<longleftrightarrow> unat (b - a) = n"
    using n by (auto simp: word_unat_eq_iff unat_of_nat)
  finally show ?thesis
    by (auto simp: in_range_def)
qed

lemma move_down_copy:
  assumes "n \<le> 2 ^ 32" and "\<And>i j. j < i \<Longrightarrow> i < n \<Longrightarrow> d + of_nat i \<noteq> s + of_nat j"
  shows "move_down (d + of_nat n) (s + of_nat n) n m b = (if in_range d n b then m (s + (b - d)) else m b)"
  using assms
proof (induction n arbitrary: m)
  case (Suc n)
  define m' where "m' = m(d + of_nat n := m (s + of_nat n))"
  have "move_down (d + of_nat n) (s + of_nat n) n m' b = (if in_range d n b then m' (s + (b - d)) else m' b)"
    using Suc.prems by (intro Suc.IH) auto
  moreover have "s + (b - d) \<noteq> d + of_nat n" if "in_range d n b"
    using Suc.prems(2) [of "unat (b - d)" n] that by (auto simp: in_range_def)
  moreover have "\<not> in_range d n (d + of_nat n)"
    using Suc.prems(1) by (simp add: in_range_def unat_of_nat)
  moreover have "move_down (d + of_nat (Suc n)) (s + of_nat (Suc n)) (Suc n) m b =
      move_down (d + of_nat n) (s + of_nat n) n m' b"
    by (simp add: m'_def algebra_simps)
  ultimately show ?case
    using Suc.prems(1) by (auto simp: in_range_Suc_last m'_def)
qed simp

lemma unat_add_less: "unat (a :: u32) + i < 2 ^ 32 \<Longrightarrow> unat (a + of_nat i) = unat a + i"
  by (simp add: unat_word_ariths unat_of_nat)

lemma memmove_copy:
  assumes "unat s + unat n < 2 ^ 32" and "unat d + unat n < 2 ^ 32"
  shows "memmove d s n m = (\<lambda>b. if in_range d (unat n) b then m (s + (b - d)) else m b)"
proof
  fix b
  have at: "unat (s + of_nat j) = unat s + j" "unat (d + of_nat j) = unat d + j" if "j < unat n" for j
    using that assms by (auto intro!: unat_add_less)
  have sn: "unat (s + n) = unat s + unat n"
    using unat_add_less [OF assms(1)] by simp
  have le: "unat n \<le> 2 ^ 32"
    using unat_u32_less [of n] by simp
  show "memmove d s n m b = (if in_range d (unat n) b then m (s + (b - d)) else m b)"
  proof (cases "s < d \<and> s + n > d")
    case True
    have "d + of_nat i \<noteq> s + of_nat j" if "j < i" "i < unat n" for i j
      using True that at by (auto simp: word_unat_eq_iff word_less_nat_alt)
    then show ?thesis
      using True move_down_copy [OF le, of d s m b] by (simp add: memmove_def)
  next
    case False
    then have "unat d \<le> unat s \<or> unat s + unat n \<le> unat d"
      by (auto simp: word_less_nat_alt sn)
    then have "d + of_nat i \<noteq> s + of_nat j" if "i < j" "j < unat n" for i j
      using that at by (auto simp: word_unat_eq_iff)
    then show ?thesis
      using False move_up_copy [OF le, of d s m b] by (auto simp: memmove_def)
  qed
qed

subsection \<open>What the string functions compute\<close>

text \<open>The string at \<open>p\<close> within its first \<open>n\<close> bytes: the bytes before the first NUL.\<close>

fun cstr :: "nat \<Rightarrow> (nat \<Rightarrow> u8) \<Rightarrow> u8 list" where
  "cstr 0 p = []"
| "cstr (Suc n) p = (if p 0 = 0 then [] else p 0 # cstr n (\<lambda>i. p (Suc i)))"

lemma cstr_takeWhile: "cstr n p = takeWhile (\<lambda>c. c \<noteq> 0) (map p [0..<n])"
proof (induction n arbitrary: p)
  case (Suc n)
  have "map p [0..<Suc n] = p 0 # map (\<lambda>i. p (Suc i)) [0..<n]"
    by (simp add: map_upt_Suc del: upt_Suc)
  then show ?case
    using Suc by (simp del: upt_Suc)
qed simp

lemma length_cstr: "length (cstr n p) \<le> n"
  by (induction n p rule: cstr.induct) auto

lemma strncmp_eq_0: "strncmp p q n = 0 \<longleftrightarrow> cstr n p = cstr n q"
proof (induction n arbitrary: p q)
  case (Suc n)
  have "uint (p 0) - uint (q 0) = 0 \<longleftrightarrow> p 0 = q 0"
    by (simp add: word_uint_eq_iff)
  then show ?case
    using Suc by auto
qed simp

lemma length_strncpy [simp]: "length (strncpy t n) = n"
  by (induction t n rule: strncpy.induct) auto

lemma str_of_Cons_Suc: "(\<lambda>i. str_of (x # xs) (Suc i)) = str_of xs"
  by (rule ext) (simp add: str_of_def)

lemma str_of_Cons_0 [simp]: "str_of (x # xs) 0 = x"
  by (simp add: str_of_def)

lemma cstr_strncpy: "cstr n (str_of (strncpy t n)) = cstr n t"
proof (induction n arbitrary: t)
  case (Suc n)
  then show ?case
    by (cases "t 0 = 0") (simp_all only: strncpy.simps cstr.simps str_of_Cons_0 str_of_Cons_Suc if_True if_False simp_thms)
qed simp

lemma strncpy_cong: "cstr n p = cstr n q \<Longrightarrow> strncpy p n = strncpy q n"
proof (induction n arbitrary: p q)
  case (Suc n)
  show ?case
  proof (cases "p 0 = 0")
    case True
    then show ?thesis
      using Suc.prems by (auto split: if_splits)
  next
    case False
    then have "q 0 = p 0" "cstr n (\<lambda>i. p (Suc i)) = cstr n (\<lambda>i. q (Suc i))"
      using Suc.prems by (auto split: if_splits)
    then show ?thesis
      using False Suc.IH [of "\<lambda>i. p (Suc i)" "\<lambda>i. q (Suc i)"] by simp
  qed
qed simp

lemma length_safestrcpy: "length (safestrcpy t n) \<le> nat n"
proof -
  have "length (safestrcpy_loop t k) \<le> Suc k" for k
    by (induction t k rule: safestrcpy_loop.induct) auto
  from this [of "nat (n - 1)"] show ?thesis
    by (auto simp: safestrcpy_def)
qed

text \<open>\<open>safestrcpy\<close> truncates to \<open>n - 1\<close> bytes and always terminates the string.\<close>

lemma safestrcpy_string:
  assumes "0 < n"
  shows "takeWhile (\<lambda>c. c \<noteq> 0) (safestrcpy t n) = cstr (nat (n - 1)) t" and "0 \<in> set (safestrcpy t n)"
proof -
  have "takeWhile (\<lambda>c. c \<noteq> 0) (safestrcpy_loop t k) = cstr k t \<and> 0 \<in> set (safestrcpy_loop t k)" for k
    by (induction t k rule: safestrcpy_loop.induct) auto
  from this [of "nat (n - 1)"] assms
  show "takeWhile (\<lambda>c. c \<noteq> 0) (safestrcpy t n) = cstr (nat (n - 1)) t" "0 \<in> set (safestrcpy t n)"
    by (auto simp: safestrcpy_def)
qed

lemma strlen_from:
  assumes "s (n + k) = 0" and "\<forall>i < k. s (n + i) \<noteq> 0"
  shows "strlen_from s n = Some (n + k)"
  using assms
proof (induction k arbitrary: n)
  case 0
  then show ?case by (simp add: strlen_from.simps)
next
  case (Suc k)
  have "s n \<noteq> 0"
    using Suc.prems(2) by (metis add.right_neutral zero_less_Suc)
  moreover have "strlen_from s (Suc n) = Some (Suc n + k)"
    using Suc.prems by (intro Suc.IH) auto
  ultimately show ?case
    by (simp add: strlen_from.simps [of s n])
qed

lemma strlen_Some: "s k = 0 \<Longrightarrow> \<forall>i < k. s i \<noteq> 0 \<Longrightarrow> strlen s = Some k"
  using strlen_from [of s 0 k] by (simp add: strlen_def)

text \<open>C29: \<open>memmove\<close> copies the \<open>n\<close> source bytes as they were before the call to the destination and
  changes nothing else, also when the two ranges overlap in either direction, as long as neither
  range runs past the end of the address space.\<close>

theorem memmove_overlap:
  assumes "unat s + unat n < 2 ^ 32" and "unat d + unat n < 2 ^ 32"
  shows "memmove d s n m b = (if unat (b - d) < unat n then m (s + (b - d)) else m b)"
  by (simp add: memmove_copy [OF assms] in_range_def)

theorem memmove_overlap_witness: "memmove 8 6 4 (\<lambda>a. ucast a) 10 = 8"
  using memmove_overlap [of 6 4 8 "\<lambda>a. ucast a" 10] by simp

end
