(* ===== verification/Kalloc.thy ===== *)
theory Kalloc
  imports Ram Spinlock
begin

section \<open>Physical memory allocator: kalloc.c\<close>

text \<open>
  The record \<open>mach\<close> is the machine that every later component extends with its own fields: the
  processors and locks (\<open>core\<close>), memory at kernel addresses, the linker symbol \<open>end\<close> (\<open>kend\<close>), and the
  allocator's \<open>kmem.use_lock\<close> and \<open>kmem.freelist\<close>.  The free list itself lives in memory: the first word
  of a free page is \<open>r->next\<close>.

  The lemmas relate the list in memory to the list of free pages (\<open>free_list\<close>) and give the closed
  form of \<open>kalloc\<close> and \<open>kfree\<close>; the locale \<open>page_allocator\<close> states the contract the rest of the kernel
  relies on.
\<close>

record mach =
  core :: core
  mem :: ram
  kend :: u32
  use_lock :: bool
  freelist :: u32

text \<open>An operation on processors and locks, run on a larger state.\<close>

definition on_core :: "(core \<Rightarrow> ('r, core) res) \<Rightarrow> 'a mach_scheme \<Rightarrow> ('r, 'a mach_scheme) res" where
  "on_core f s = (case f (core s) of
       Ok x c \<Rightarrow> Ok x (s\<lparr>core := c\<rparr>)
     | Panic e \<Rightarrow> Panic e
     | Switch c \<Rightarrow> Switch (s\<lparr>core := c\<rparr>)
     | Spin \<Rightarrow> Spin)"

definition kfree :: "u32 \<Rightarrow> 'a mach_scheme \<Rightarrow> (unit, 'a mach_scheme) res" where
  "kfree v s =
     (if v mod PGSIZE \<noteq> 0 \<or> v < kend s \<or> V2P v \<ge> PHYSTOP then Panic ''kfree'' else
      let s = s\<lparr>mem := memset v 1 PGSIZE (mem s)\<rparr> in
      bnd (if use_lock s then on_core (acquire L_kmem) s else Ok () s) (\<lambda>_ s.
      let r = v;
          s = s\<lparr>mem := store32 (mem s) r (freelist s)\<rparr>;
          s = s\<lparr>freelist := r\<rparr> in
      if use_lock s then on_core (release L_kmem) s else Ok () s))"

definition kalloc :: "'a mach_scheme \<Rightarrow> (u32, 'a mach_scheme) res" where
  "kalloc s =
     bnd (if use_lock s then on_core (acquire L_kmem) s else Ok () s) (\<lambda>_ s.
     let r = freelist s;
         s = (if r \<noteq> 0 then s\<lparr>freelist := load32 (mem s) r\<rparr> else s) in
     bnd (if use_lock s then on_core (release L_kmem) s else Ok () s) (\<lambda>_ s.
     Ok r s))"

text \<open>The loop of \<open>freerange\<close> visits each page of the address space at most once, so \<open>2 ^ 20\<close> rounds
  are enough.\<close>

fun freerange_loop :: "nat \<Rightarrow> u32 \<Rightarrow> u32 \<Rightarrow> 'a mach_scheme \<Rightarrow> (unit, 'a mach_scheme) res" where
  "freerange_loop 0 p vend s = Spin"
| "freerange_loop (Suc n) p vend s =
     (if p + PGSIZE \<le> vend then bnd (kfree p s) (\<lambda>_ s. freerange_loop n (p + PGSIZE) vend s)
      else Ok () s)"

definition freerange :: "u32 \<Rightarrow> u32 \<Rightarrow> 'a mach_scheme \<Rightarrow> (unit, 'a mach_scheme) res" where
  "freerange vstart vend s = freerange_loop (2 ^ 20) (PGROUNDUP vstart) vend s"

definition kinit1 :: "u32 \<Rightarrow> u32 \<Rightarrow> 'a mach_scheme \<Rightarrow> (unit, 'a mach_scheme) res" where
  "kinit1 vstart vend s =
     (let s = s\<lparr>core := initlock L_kmem (core s)\<rparr>;
          s = s\<lparr>use_lock := False\<rparr> in
      freerange vstart vend s)"

definition kinit2 :: "u32 \<Rightarrow> u32 \<Rightarrow> 'a mach_scheme \<Rightarrow> (unit, 'a mach_scheme) res" where
  "kinit2 vstart vend s = bnd (freerange vstart vend s) (\<lambda>_ s. Ok () (s\<lparr>use_lock := True\<rparr>))"

subsection \<open>Closed forms\<close>

lemma release_enter: "cpu_ok c \<Longrightarrow> lock_free lk c \<Longrightarrow> release lk (enter lk c) = Ok () c"
  using release_ok [of "enter lk c" lk] leave_enter [of c lk] cpu_ok_enter [of c lk]
  by (simp add: held_def)

lemma acq_ok [quiet_simps]:
  "cpu_ok (core s) \<Longrightarrow> lock_free lk (core s) \<Longrightarrow>
   on_core (acquire lk) s = Ok () (s\<lparr>core := enter lk (core s)\<rparr>)"
  by (simp add: on_core_def acquire_ok)

lemma rel_ok [quiet_simps]:
  "core s = enter lk c \<Longrightarrow> cpu_ok c \<Longrightarrow> lock_free lk c \<Longrightarrow> on_core (release lk) s = Ok () (s\<lparr>core := c\<rparr>)"
  by (simp add: on_core_def release_enter)

definition kmem_quiet :: "'a mach_scheme \<Rightarrow> bool" where
  "kmem_quiet s \<longleftrightarrow> (use_lock s \<longrightarrow> cpu_ok (core s) \<and> lock_free L_kmem (core s))"

definition page_ok :: "'a mach_scheme \<Rightarrow> u32 \<Rightarrow> bool" where
  "page_ok s v \<longleftrightarrow> aligned v \<and> kend s \<le> v \<and> V2P v < PHYSTOP"

lemma kalloc_ok [quiet_simps]:
  "kmem_quiet s \<Longrightarrow> kalloc s = Ok (freelist s)
     (if freelist s \<noteq> 0 then s\<lparr>freelist := load32 (mem s) (freelist s)\<rparr> else s)"
  by (auto simp: kalloc_def kmem_quiet_def Let_def quiet_simps)

lemma kfree_ok [quiet_simps]:
  "kmem_quiet s \<Longrightarrow> page_ok s v \<Longrightarrow> kfree v s =
     Ok () (s\<lparr>mem := store32 (memset v 1 PGSIZE (mem s)) v (freelist s), freelist := v\<rparr>)"
  by (auto simp: kfree_def kmem_quiet_def page_ok_def aligned_def Let_def quiet_simps not_le not_less)

subsection \<open>The free list in memory\<close>

fun chain :: "ram \<Rightarrow> u32 \<Rightarrow> u32 list \<Rightarrow> bool" where
  "chain m p [] \<longleftrightarrow> p = 0"
| "chain m p (x # xs) \<longleftrightarrow> p = x \<and> x \<noteq> 0 \<and> chain m (load32 m x) xs"

definition free_list :: "'a mach_scheme \<Rightarrow> u32 list \<Rightarrow> bool" where
  "free_list s xs \<longleftrightarrow> chain (mem s) (freelist s) xs \<and> distinct xs \<and> (\<forall>x \<in> set xs. page_ok s x)"

lemma page_ok_aligned: "page_ok s v \<Longrightarrow> aligned v" "page_ok s v \<Longrightarrow> al4 v" "page_ok s v \<Longrightarrow> PGROUNDDOWN v = v"
  by (auto simp: page_ok_def aligned_iff)

lemma page_ok_nonzero: "page_ok s v \<Longrightarrow> v \<noteq> 0"
  by (auto simp: page_ok_def V2P_def)

lemma page_ok_upd [simp]:
  "page_ok (s\<lparr>mem := m\<rparr>) = page_ok s" "page_ok (s\<lparr>freelist := f\<rparr>) = page_ok s"
  "page_ok (s\<lparr>core := c\<rparr>) = page_ok s" "page_ok (s\<lparr>use_lock := u\<rparr>) = page_ok s"
  by (simp_all add: page_ok_def fun_eq_iff)

text \<open>The chain depends on the free pages only, so whatever the kernel stores elsewhere leaves the
  allocator alone.\<close>

lemma chain_cong:
  assumes "chain m p xs" and "\<forall>x \<in> set xs. load32 m' x = load32 m x"
  shows "chain m' p xs"
  using assms by (induction xs arbitrary: p) auto

lemma chain_det: "chain m p xs \<Longrightarrow> chain m p ys \<Longrightarrow> xs = ys"
proof (induction xs arbitrary: p ys)
  case Nil
  then show ?case by (cases ys) auto
next
  case (Cons x xs)
  then show ?case by (cases ys) auto
qed

lemma free_list_det: "free_list s xs \<Longrightarrow> free_list s ys \<Longrightarrow> xs = ys"
  by (auto simp: free_list_def intro: chain_det)

lemma free_list_frame:
  assumes "free_list s xs" and "freelist t = freelist s" and "kend t = kend s"
    and "\<And>b. PGROUNDDOWN b \<in> set xs \<Longrightarrow> mem t b = mem s b"
  shows "free_list t xs"
proof -
  have "load32 (mem t) x = load32 (mem s) x" if "x \<in> set xs" for x
    using assms(1,4) that by (intro load32_cong) (auto simp: free_list_def page_ok_aligned)
  then show ?thesis
    using assms(1) chain_cong [of "mem s" "freelist s" xs "mem t"]
    by (simp add: free_list_def assms(2,3) page_ok_def)
qed

lemma kalloc_empty:
  assumes "kmem_quiet s" and "free_list s []"
  shows "kalloc s = Ok 0 s"
  using assms by (simp add: kalloc_ok free_list_def)

lemma kalloc_cons:
  assumes "kmem_quiet s" and "free_list s (x # xs)"
  shows "kalloc s = Ok x (s\<lparr>freelist := load32 (mem s) x\<rparr>)"
    and "free_list (s\<lparr>freelist := load32 (mem s) x\<rparr>) xs"
  using assms by (auto simp: kalloc_ok free_list_def)

lemma kalloc_mem: "kmem_quiet s \<Longrightarrow> kalloc s = Ok p t \<Longrightarrow> mem t = mem s \<and> core t = core s \<and> mach.more t = mach.more s"
  by (auto simp: kalloc_ok split: if_splits)

lemma kfree_list:
  assumes "kmem_quiet s" and "free_list s xs" and "page_ok s v" and "v \<notin> set xs"
  shows "free_list (s\<lparr>mem := store32 (memset v 1 PGSIZE (mem s)) v (freelist s), freelist := v\<rparr>) (v # xs)"
    (is "free_list ?t _")
proof -
  have al: "al4 v" "aligned v" "PGROUNDDOWN v = v"
    using assms(3) by (auto simp: page_ok_aligned)
  have "load32 (mem ?t) x = load32 (mem s) x" if "x \<in> set xs" for x
  proof -
    have "al4 x" "PGROUNDDOWN x = x" "x \<noteq> v"
      using assms(2,4) that by (auto simp: free_list_def page_ok_aligned)
    then show ?thesis
      using al by (simp add: load32_store32_other load32_memset_page)
  qed
  then have "\<forall>x \<in> set xs. load32 (mem ?t) x = load32 (mem s) x"
    by blast
  moreover have "chain (mem s) (freelist s) xs"
    using assms(2) by (simp add: free_list_def)
  ultimately have "chain (mem ?t) (freelist s) xs"
    by (rule chain_cong [rotated])
  then show ?thesis
    using assms page_ok_nonzero [OF assms(3)] by (simp add: free_list_def)
qed

lemma kfree_mem:
  assumes "page_ok s v" and "PGROUNDDOWN b \<noteq> v"
  shows "store32 (memset v 1 PGSIZE (mem s)) v f b = mem s b"
  using assms(2) by (simp add: store32_page page_ok_aligned [OF assms(1)] memset_page)

subsection \<open>The contract of the allocator\<close>

text \<open>
  What the kernel relies on: \<open>alloc\<close> hands out a page of the free list, \<open>0\<close> exactly when there is
  none, and \<open>free\<close> puts a page back.
\<close>

locale page_allocator =
  fixes alloc :: "'s \<Rightarrow> (u32, 's) res" and free :: "u32 \<Rightarrow> 's \<Rightarrow> (unit, 's) res"
    and rep :: "'s \<Rightarrow> u32 list \<Rightarrow> bool" and legal :: "'s \<Rightarrow> u32 \<Rightarrow> bool"
  assumes alloc_none: "rep s [] \<Longrightarrow> alloc s = Ok 0 s"
    and alloc_some: "rep s (x # xs) \<Longrightarrow> \<exists>t. alloc s = Ok x t \<and> rep t xs \<and> legal t = legal s"
    and free_page: "rep s xs \<Longrightarrow> legal s v \<Longrightarrow> v \<notin> set xs \<Longrightarrow>
      \<exists>t. free v s = Ok () t \<and> rep t (v # xs) \<and> legal t = legal s"
    and rep_wf: "rep s xs \<Longrightarrow> distinct xs \<and> (\<forall>x \<in> set xs. legal s x \<and> x \<noteq> 0)"
begin

fun alloc_many :: "nat \<Rightarrow> 's \<Rightarrow> (u32 list, 's) res" where
  "alloc_many 0 s = Ok [] s"
| "alloc_many (Suc n) s = bnd (alloc s) (\<lambda>p s. bnd (alloc_many n s) (\<lambda>ps s. Ok (p # ps) s))"

lemma alloc_many_fresh:
  "rep s xs \<Longrightarrow> n \<le> length xs \<Longrightarrow> \<exists>t. alloc_many n s = Ok (take n xs) t \<and> rep t (drop n xs)"
proof (induction n arbitrary: s xs)
  case (Suc n)
  then obtain x ys where xs: "xs = x # ys"
    by (cases xs) auto
  then obtain t where t: "alloc s = Ok x t" "rep t ys"
    using alloc_some Suc.prems by blast
  then obtain u where "alloc_many n t = Ok (take n ys) u" "rep u (drop n ys)"
    using Suc.IH [of t ys] Suc.prems xs by auto
  then show ?case
    using t xs by auto
qed auto

lemma alloc_many_distinct:
  "rep s xs \<Longrightarrow> n \<le> length xs \<Longrightarrow>
   returns (alloc_many n s) (\<lambda>ps t. length ps = n \<and> distinct ps \<and> 0 \<notin> set ps)"
  using alloc_many_fresh [of s xs n] rep_wf [of s xs] set_take_subset [of n xs] by fastforce

lemma free_then_alloc:
  "rep s xs \<Longrightarrow> legal s v \<Longrightarrow> v \<notin> set xs \<Longrightarrow>
   returns (bnd (free v s) (\<lambda>_ s. alloc s)) (\<lambda>p t. p = v \<and> rep t xs)"
  using free_page [of s xs v] alloc_some [of _ v xs] by fastforce

lemma alloc_zero_iff: "rep s xs \<Longrightarrow> returns (alloc s) (\<lambda>p t. p = 0 \<longleftrightarrow> xs = [])"
  using alloc_none [of s] alloc_some [of s] rep_wf [of s xs] by (cases xs) fastforce+

end

definition kmem_rep :: "'a mach_scheme \<Rightarrow> u32 list \<Rightarrow> bool" where
  "kmem_rep s xs \<longleftrightarrow> kmem_quiet s \<and> free_list s xs"

interpretation kmem: page_allocator kalloc kfree kmem_rep page_ok
proof unfold_locales
  fix s :: "'a mach_scheme" and x v xs
  show "kmem_rep s [] \<Longrightarrow> kalloc s = Ok 0 s"
    by (simp add: kmem_rep_def kalloc_empty)
  show "kmem_rep s (x # xs) \<Longrightarrow> \<exists>t. kalloc s = Ok x t \<and> kmem_rep t xs \<and> page_ok t = page_ok s"
    using kalloc_cons [of s x xs] by (auto simp: kmem_rep_def kmem_quiet_def)
  show "\<exists>t. kfree v s = Ok () t \<and> kmem_rep t (v # xs) \<and> page_ok t = page_ok s"
    if "kmem_rep s xs" "page_ok s v" "v \<notin> set xs"
    using that kfree_ok [of s v] kfree_list [of s xs v]
    by (auto simp: kmem_rep_def kmem_quiet_def)
  show "kmem_rep s xs \<Longrightarrow> distinct xs \<and> (\<forall>x \<in> set xs. page_ok s x \<and> x \<noteq> 0)"
    using page_ok_nonzero by (auto simp: kmem_rep_def free_list_def)
qed

subsection \<open>Boot: filling the free list\<close>

text \<open>The pages that \<open>freerange(vstart, vend)\<close> frees, in the order of the addresses.\<close>

fun pages :: "u32 \<Rightarrow> nat \<Rightarrow> u32 list" where
  "pages p 0 = []"
| "pages p (Suc n) = p # pages (p + PGSIZE) n"

lemma unat_page_step:
  "unat (p :: u32) + 4096 * Suc n < 2 ^ 32 \<Longrightarrow> unat (p + 4096) = unat p + 4096"
  by (simp add: unat_word_ariths)

lemma set_pages_ge:
  "unat p + 4096 * n < 2 ^ 32 \<Longrightarrow> x \<in> set (pages p n) \<Longrightarrow> unat p \<le> unat x \<and> unat x < unat p + 4096 * n"
proof (induction n arbitrary: p)
  case (Suc n)
  then show ?case
    using Suc.IH [of "p + 4096"] by (auto simp: unat_page_step)
qed simp

lemma distinct_pages: "unat p + 4096 * n < 2 ^ 32 \<Longrightarrow> distinct (pages p n)"
proof (induction n arbitrary: p)
  case (Suc n)
  then show ?case
    using set_pages_ge [of "p + 4096" n p] by (auto simp: unat_page_step)
qed simp

lemma page_ok_step:
  assumes "aligned p" and "kend s \<le> p" and "unat p + 4096 * Suc n \<le> 0x8E000000" and "unat p \<ge> 0x80000000"
  shows "page_ok s p" and "aligned (p + 4096)" and "kend s \<le> p + 4096"
    and "unat (p + 4096) = unat p + 4096"
proof -
  show u: "unat (p + 4096) = unat p + 4096"
    using assms(3) by (simp add: unat_word_ariths)
  have "unat (V2P p) = unat p - 0x80000000"
    using assms(4) by (simp add: V2P_def unat_sub_if_size)
  then show "page_ok s p"
    using assms by (simp add: page_ok_def word_less_nat_alt)
  show "kend s \<le> p + 4096"
    using assms(2) u by (simp add: word_le_nat_alt)
  show "aligned (p + 4096)"
    using assms(1) by simp
qed

lemma freerange_loop_ok:
  assumes "kmem_quiet s" and "free_list s xs" and "aligned p" and "kend s \<le> p"
    and "0x80000000 \<le> unat p" and "unat p + 4096 * n \<le> 0x8E000000"
    and "n \<noteq> 0 \<Longrightarrow> unat p + 4096 * n \<le> unat vend" and "unat vend < unat p + 4096 * n + 4096"
    and "set xs \<inter> set (pages p n) = {}" and "n < fuel"
  shows "\<exists>t. freerange_loop fuel p vend s = Ok () t \<and> kmem_quiet t \<and> free_list t (rev (pages p n) @ xs) \<and>
    core t = core s \<and> use_lock t = use_lock s \<and> kend t = kend s"
  using assms
proof (induction n arbitrary: p s xs fuel)
  case 0
  have "unat (p + 4096) = unat p + 4096"
    using 0 by (simp add: unat_word_ariths)
  then have "\<not> p + 4096 \<le> vend"
    using 0 by (simp add: word_le_nat_alt)
  then show ?case
    using 0 by (cases fuel) auto
next
  case (Suc n)
  from Suc.prems(10) obtain k where k: "fuel = Suc k" "n < k"
    by (cases fuel) auto
  define t where "t = s\<lparr>mem := store32 (memset p 1 PGSIZE (mem s)) p (freelist s), freelist := p\<rparr>"
  note st = page_ok_step [OF Suc.prems(3,4), of n]
  have ok: "page_ok s p" and u: "unat (p + 4096) = unat p + 4096"
    using st Suc.prems by auto
  have kf: "kfree p s = Ok () t"
    unfolding t_def by (rule kfree_ok [OF Suc.prems(1) ok])
  have "free_list t (p # xs)"
    unfolding t_def by (rule kfree_list) (use Suc.prems ok in auto)
  moreover have "set (p # xs) \<inter> set (pages (p + 4096) n) = {}"
    using Suc.prems distinct_pages [of p "Suc n"] by auto
  moreover have "kmem_quiet t" "kend t = kend s"
    using Suc.prems(1) by (simp_all add: t_def kmem_quiet_def)
  ultimately obtain r where r: "freerange_loop k (p + 4096) vend t = Ok () r" "kmem_quiet r"
    "free_list r (rev (pages (p + 4096) n) @ p # xs)" "core r = core t" "use_lock r = use_lock t" "kend r = kend t"
    using Suc.IH [of t "p # xs" "p + 4096" k] Suc.prems st k(2) by (auto simp: u)
  have "p + 4096 \<le> vend"
    using Suc.prems u by (simp add: word_le_nat_alt)
  then have "freerange_loop fuel p vend s = Ok () r"
    using r(1) kf k(1) by simp
  then show ?case
    using r by (auto simp: t_def)
qed

text \<open>C26: from an empty allocator \<open>kinit1\<close> puts exactly the whole pages between \<open>vstart\<close> and \<open>vend\<close> on
  the free list, each once, the highest first, without running out of the address space; it
  never fails for a range between the end of the kernel and \<open>PHYSTOP\<close>.\<close>

theorem kinit1_free_pages:
  assumes "freelist s = 0" and "kend s \<le> vstart" and "KERNBASE \<le> vstart" and "vstart \<le> vend"
    and "vend \<le> P2V PHYSTOP"
  shows "returns (kinit1 vstart vend s) (\<lambda>_ t.
    free_list t (rev (pages (PGROUNDUP vstart) ((unat vend - unat (PGROUNDUP vstart)) div 4096))))"
proof -
  define p where "p = PGROUNDUP vstart"
  define n where "n = (unat vend - unat p) div 4096"
  have v: "unat vend \<le> 0x8E000000" "0x80000000 \<le> unat vstart" "unat vstart \<le> unat vend"
    using assms(3-5) by (simp_all add: word_le_nat_alt P2V_def)
  have up: "unat p = (unat vstart + 4095) div 4096 * 4096"
    unfolding p_def by (rule unat_PGROUNDUP) (use v in simp)
  have ge: "unat vstart \<le> unat p"
    using up div_mult_mod_eq [of "unat vstart + 4095" 4096]
      mod_less_divisor [of 4096 "unat vstart + 4095"] by linarith
  have le: "unat p \<le> 0x8E000000"
    using div_le_mono [of "unat vstart + 4095" "0x8E000FFF" 4096] v up by simp
  have n: "4096 * n \<le> unat vend - unat p" "unat vend < unat p + 4096 * n + 4096"
    unfolding n_def using div_mult_mod_eq [of "unat vend - unat p" 4096]
      mod_less_divisor [of 4096 "unat vend - unat p"] by linarith+
  define s' where "s' = s\<lparr>core := initlock L_kmem (core s), use_lock := False\<rparr>"
  have "\<exists>t. freerange_loop (2 ^ 20) p vend s' = Ok () t \<and> kmem_quiet t \<and> free_list t (rev (pages p n) @ []) \<and>
    core t = core s' \<and> use_lock t = use_lock s' \<and> kend t = kend s'"
  proof (rule freerange_loop_ok)
    show "kmem_quiet s'" "free_list s' []"
      using assms(1) by (simp_all add: s'_def kmem_quiet_def free_list_def)
    show "aligned p"
      by (simp add: p_def)
    show "kend s' \<le> p"
      using assms(2) ge by (simp add: s'_def word_le_nat_alt)
    show "n < 2 ^ 20"
      using n v by simp
  qed (use n v ge le in auto)
  then show ?thesis
    by (auto simp: kinit1_def freerange_def s'_def p_def n_def Let_def)
qed

text \<open>A small machine: the kernel ends at \<open>0x80100800\<close>, and three whole pages follow.\<close>

definition boot_mach :: mach where
  "boot_mach = \<lparr>core = boot_core, mem = \<lambda>_. 0, kend = 0x80100800, use_lock = False, freelist = 0\<rparr>"

theorem kinit1_free_pages_witness:
  "returns (kinit1 0x80100800 0x80104800 boot_mach) (\<lambda>_ t.
     free_list t [0x80103000, 0x80102000, 0x80101000])"
  using kinit1_free_pages [of boot_mach "0x80100800" "0x80104800"]
  by (simp add: boot_mach_def P2V_def PGROUNDUP_def numeral_3_eq_3)

text \<open>C27: \<open>kalloc\<close> returns the null pointer exactly when no page is free; otherwise it takes one page
  off the free list, a legal one that is not handed out again, and touches no memory.\<close>

theorem kalloc_takes_free_page:
  assumes "kmem_rep s xs"
  shows "returns (kalloc s) (\<lambda>p t. (p = 0 \<longleftrightarrow> xs = []) \<and>
    (xs \<noteq> [] \<longrightarrow> p = hd xs \<and> page_ok s p \<and> p \<notin> set (tl xs) \<and> kmem_rep t (tl xs)) \<and>
    mem t = mem s \<and> core t = core s)"
proof (cases xs)
  case Nil
  then show ?thesis
    using kmem.alloc_none [of s] assms by simp
next
  case (Cons x ys)
  then obtain t where t: "kalloc s = Ok x t" "kmem_rep t ys"
    using kmem.alloc_some [of s x ys] assms by blast
  moreover have "mem t = mem s \<and> core t = core s"
    using kalloc_mem [OF _ t(1)] assms by (simp add: kmem_rep_def)
  ultimately show ?thesis
    using kmem.rep_wf [OF assms] Cons by simp
qed

definition one_page :: mach where
  "one_page = boot_mach\<lparr>use_lock := True, freelist := 0x80101000\<rparr>"

lemma one_page_rep: "kmem_rep one_page [0x80101000]"
  by (simp add: one_page_def boot_mach_def kmem_rep_def kmem_quiet_def boot_core_ok free_list_def load32_def
      page_ok_def V2P_def aligned_def)

theorem kalloc_takes_free_page_witness:
  "returns (kalloc one_page) (\<lambda>p t. p = 0x80101000 \<and> kmem_rep t [])"
  using kalloc_takes_free_page [OF one_page_rep] by (simp add: returns_iff) blast

text \<open>C28: a page that \<open>kfree\<close> accepts is the next one that \<open>kalloc\<close> returns, and the pair leaves the
  list of free pages as it was.\<close>

theorem kfree_kalloc_roundtrip:
  assumes "kmem_rep s xs" and "page_ok s v" and "v \<notin> set xs"
  shows "returns (bnd (kfree v s) (\<lambda>_ s. kalloc s)) (\<lambda>p t. p = v \<and> kmem_rep t xs)"
  using assms by (rule kmem.free_then_alloc)

theorem kfree_kalloc_roundtrip_witness:
  "returns (bnd (kfree 0x80102000 one_page) (\<lambda>_ s. kalloc s)) (\<lambda>p t. p = 0x80102000 \<and> kmem_rep t [0x80101000])"
  by (rule kfree_kalloc_roundtrip [OF one_page_rep])
    (simp_all add: one_page_def boot_mach_def page_ok_def V2P_def aligned_def)

end
