(* ===== verification/Cprintf.thy ===== *)
theory Cprintf
  imports Kalloc
begin

section \<open>Console output: the first half of console.c and the transmitter of uart.c\<close>

text \<open>
  The record \<open>con\<close> extends the machine by the devices and variables of console output: the serial
  port (whether it is there, and the bytes sent so far), the CGA cursor register and the CGA
  memory (one 16-bit cell per character), \<open>cons.locking\<close> and \<open>panicked\<close>.  Waiting for the serial
  transmitter is a delay only and is left out.

  A string argument of \<open>cprintf\<close> is the list of its bytes, \<open>None\<close> for the null pointer.  The lemmas
  show that output never fails once the cursor is on the screen, that it stays there, and that
  printing changes nothing but the devices; \<open>printint\<close> is shown to print the number's digits.
\<close>

record con = mach +
  uart :: bool
  uartout :: "u8 list"
  cga_pos :: nat
  crt :: "nat \<Rightarrow> u16"
  cons_locking :: bool
  panicked :: bool

abbreviation (input) BACKSPACE :: int where "BACKSPACE \<equiv> 0x100"

definition uartputc :: "int \<Rightarrow> 'a con_scheme \<Rightarrow> 'a con_scheme" where
  "uartputc c s = (if \<not> uart s then s else s\<lparr>uartout := uartout s @ [word_of_int c]\<rparr>)"

text \<open>Moving the screen up by one row: \<open>memmove(crt, crt+80, 2*23*80)\<close> and clearing from \<open>pos\<close> on.\<close>

definition scroll :: "nat \<Rightarrow> (nat \<Rightarrow> u16) \<Rightarrow> nat \<Rightarrow> u16" where
  "scroll pos v i =
     (if pos \<le> i \<and> i < 24 * 80 then 0 else if i < 23 * 80 then v (i + 80) else v i)"

definition cgaputc :: "int \<Rightarrow> 'a con_scheme \<Rightarrow> (unit, 'a con_scheme) res" where
  "cgaputc c s =
     (let pos = cga_pos s;
          (pos, s) =
            (if c = 10 then (pos + (80 - pos mod 80), s)
             else if c = BACKSPACE then (if pos > 0 then pos - 1 else pos, s)
             else (pos + 1, s\<lparr>crt := (crt s)(pos := (word_of_int c AND 0xff) OR 0x0700)\<rparr>)) in
      if pos > 25 * 80 then Panic ''pos under/overflow'' else
      let (pos, s) =
            (if pos div 80 \<ge> 24 then (pos - 80, s\<lparr>crt := scroll (pos - 80) (crt s)\<rparr>) else (pos, s));
          s = s\<lparr>cga_pos := pos\<rparr> in
      Ok () (s\<lparr>crt := (crt s)(pos := 0x0720)\<rparr>))"

definition consputc :: "int \<Rightarrow> 'a con_scheme \<Rightarrow> (unit, 'a con_scheme) res" where
  "consputc c s =
     (if panicked s then Spin else
      let s = (if c = BACKSPACE then uartputc 8 (uartputc 32 (uartputc 8 s)) else uartputc c s) in
      cgaputc c s)"

fun putall :: "int list \<Rightarrow> 'a con_scheme \<Rightarrow> (unit, 'a con_scheme) res" where
  "putall [] s = Ok () s"
| "putall (c # cs) s = bnd (consputc c s) (\<lambda>_ s. putall cs s)"

definition digit_char :: "nat \<Rightarrow> int" where
  "digit_char d = int (of_char (''0123456789abcdef'' ! d))"

text \<open>The loop of \<open>printint\<close> that stores the digits in \<open>buf[16]\<close>, the least significant one first, and the
  number of characters it stored.  A store behind the end of \<open>buf\<close> is undefined in C; the model gives up (\<open>None\<close>).\<close>

function printint_fill :: "nat \<Rightarrow> nat \<Rightarrow> nat \<Rightarrow> int list \<Rightarrow> (int list \<times> nat) option" where
  "printint_fill x base i buf =
     (if \<not> i < 16 then None
      else
        let buf = buf[i := digit_char (x mod base)] in
        if x div base \<noteq> 0 then printint_fill (x div base) base (i + 1) buf else Some (buf, i + 1))"
  by pat_completeness auto

termination printint_fill
  by (relation "measure (\<lambda>(_, _, i, _). 16 - i)") auto

declare printint_fill.simps [simp del]

definition printint :: "u32 \<Rightarrow> nat \<Rightarrow> bool \<Rightarrow> 'a con_scheme \<Rightarrow> (unit, 'a con_scheme) res" where
  "printint xx base sign s =
     (let sign = (sign \<and> sint xx < 0);
          x = (if sign then - xx else xx) in
      case printint_fill (unat x) base 0 (replicate 16 0) of
        None \<Rightarrow> Panic ''buf[16] exceeded''
      | Some (buf, i) \<Rightarrow>
          if sign \<and> \<not> i < 16 then Panic ''buf[16] exceeded''
          else
            let (buf, i) = (if sign then (buf[i := 45], i + 1) else (buf, i)) in
            putall (rev (take i buf)) s)"

datatype karg = KInt u32 | KStr "u8 list option"

definition arg_word :: "karg list \<Rightarrow> u32" where
  "arg_word as = (case as of KInt w # _ \<Rightarrow> w | _ \<Rightarrow> 0)"

definition arg_str :: "karg list \<Rightarrow> int list" where
  "arg_str as = (case as of
       KStr (Some b) # _ \<Rightarrow> map sint (takeWhile (\<lambda>c. c \<noteq> 0) b)
     | _ \<Rightarrow> map of_char ''(null)'')"

fun cprintf_loop :: "string \<Rightarrow> karg list \<Rightarrow> 'a con_scheme \<Rightarrow> (unit, 'a con_scheme) res" where
  "cprintf_loop [] as s = Ok () s"
| "cprintf_loop [c] as s = (if c \<noteq> CHR ''%'' then consputc (of_char c) s else Ok () s)"
| "cprintf_loop (c # d # fmt) as s =
     (if c \<noteq> CHR ''%'' then bnd (consputc (of_char c) s) (\<lambda>_ s. cprintf_loop (d # fmt) as s)
      else if d = CHR ''d'' then
        bnd (printint (arg_word as) 10 True s) (\<lambda>_ s. cprintf_loop fmt (tl as) s)
      else if d = CHR ''x'' \<or> d = CHR ''p'' then
        bnd (printint (arg_word as) 16 False s) (\<lambda>_ s. cprintf_loop fmt (tl as) s)
      else if d = CHR ''s'' then
        bnd (putall (arg_str as) s) (\<lambda>_ s. cprintf_loop fmt (tl as) s)
      else if d = CHR ''%'' then
        bnd (consputc (of_char CHR ''%'') s) (\<lambda>_ s. cprintf_loop fmt as s)
      else
        bnd (consputc (of_char CHR ''%'') s) (\<lambda>_ s.
        bnd (consputc (of_char d) s) (\<lambda>_ s. cprintf_loop fmt as s)))"

definition cprintf :: "string \<Rightarrow> karg list \<Rightarrow> 'a con_scheme \<Rightarrow> (unit, 'a con_scheme) res" where
  "cprintf fmt as s =
     (let locking = cons_locking s in
      bnd (if locking then on_core (acquire L_cons) s else Ok () s) (\<lambda>_ s.
      bnd (cprintf_loop fmt as s) (\<lambda>_ s.
      if locking then on_core (release L_cons) s else Ok () s)))"

subsection \<open>Printing changes the devices only\<close>

definition con_same :: "'a con_scheme \<Rightarrow> 'a con_scheme \<Rightarrow> bool" where
  "con_same s t \<longleftrightarrow> (\<exists>a b c. t = s\<lparr>uartout := a, cga_pos := b, crt := c\<rparr>)"

definition con_ok :: "'a con_scheme \<Rightarrow> bool" where
  "con_ok s \<longleftrightarrow> \<not> panicked s \<and> cga_pos s \<le> 24 * 80"

lemma con_sameI: "t = s\<lparr>uartout := a, cga_pos := b, crt := c\<rparr> \<Longrightarrow> con_same s t"
  by (auto simp: con_same_def)

lemma con_same_refl [simp]: "con_same s s"
  by (rule con_sameI [where a = "uartout s" and b = "cga_pos s" and c = "crt s"]) simp

lemma con_same_trans: "con_same s t \<Longrightarrow> con_same t u \<Longrightarrow> con_same s u"
  unfolding con_same_def by fastforce

lemma con_same_simps:
  assumes "con_same s t"
  shows "core t = core s" "mem t = mem s" "kend t = kend s" "use_lock t = use_lock s"
    "freelist t = freelist s" "cons_locking t = cons_locking s" "panicked t = panicked s"
    "con.more t = con.more s" "uart t = uart s"
  using assms by (auto simp: con_same_def)

text \<open>\<open>prints m s\<close>: the call returns, the state differs in the output devices only, and the cursor
  is still on the screen.\<close>

definition prints :: "(unit, 'a con_scheme) res \<Rightarrow> 'a con_scheme \<Rightarrow> bool" where
  "prints m s \<longleftrightarrow> returns m (\<lambda>_ t. con_same s t \<and> con_ok t)"

lemma prints_Ok [simp]: "con_ok s \<Longrightarrow> prints (Ok () s) s"
  by (simp add: prints_def)

lemma prints_bnd: "prints m s \<Longrightarrow> (\<And>t. con_ok t \<Longrightarrow> prints (f () t) t) \<Longrightarrow> prints (bnd m f) s"
  by (cases m) (auto simp: prints_def returns_iff, meson con_same_trans)

lemma uartputc_same: "con_same s (uartputc c s)" "cga_pos (uartputc c s) = cga_pos s"
  "panicked (uartputc c s) = panicked s"
  by (auto simp: uartputc_def intro: con_sameI [where b = "cga_pos s" and c = "crt s"])

lemma cgaputc_prints:
  assumes "con_ok s"
  shows "prints (cgaputc c s) s"
proof -
  define p where "p = (if c = 10 then cga_pos s + (80 - cga_pos s mod 80)
    else if c = BACKSPACE then cga_pos s - 1 else cga_pos s + 1)"
  have "cga_pos s \<le> 1920"
    using assms by (simp add: con_ok_def)
  then have "cga_pos s + (80 - cga_pos s mod 80) \<le> 2000"
    using div_mult_mod_eq [of "cga_pos s" 80] mod_less_divisor [of 80 "cga_pos s"]
      div_le_mono [of "cga_pos s" 1920 80] by simp
  then have p: "p \<le> 2000"
    using \<open>cga_pos s \<le> 1920\<close> by (auto simp: p_def)
  define w where "w = (if c = 10 \<or> c = BACKSPACE then crt s
    else (crt s)(cga_pos s := (word_of_int c AND 0xff) OR 0x0700))"
  define q where "q = (if 24 \<le> p div 80 then p - 80 else p)"
  define v where "v = (if 24 \<le> p div 80 then scroll (p - 80) w else w)(q := 0x0720)"
  consider "c = 10" | "c = BACKSPACE" | "c \<noteq> 10" "c \<noteq> BACKSPACE"
    by blast
  then have v: "cgaputc c s = Ok () (s\<lparr>cga_pos := q, crt := v\<rparr>)"
    using p by cases (simp_all add: cgaputc_def Let_def p_def w_def q_def v_def)
  have "con_same s (s\<lparr>cga_pos := q, crt := v\<rparr>)"
    by (rule con_sameI [where a = "uartout s" and b = q and c = v]) simp
  moreover have "q \<le> 1920"
    using p by (auto simp: q_def)
  ultimately show ?thesis
    using assms by (simp add: v prints_def con_ok_def)
qed

lemma con_ok_uartputc: "con_ok (uartputc c s) = con_ok s"
  by (simp add: con_ok_def uartputc_same)

lemma consputc_prints:
  assumes "con_ok s"
  shows "prints (consputc c s) s"
proof -
  have "prints (cgaputc c u) s" if "con_same s u" "con_ok u" for u
    using cgaputc_prints [OF that(2), of c] that(1) con_same_trans
    by (auto simp: prints_def returns_iff)
  moreover have "con_same s (uartputc 8 (uartputc 32 (uartputc 8 s)))"
    by (meson con_same_trans uartputc_same(1))
  ultimately show ?thesis
    using assms by (auto simp: consputc_def Let_def con_ok_uartputc uartputc_same con_ok_def [of s])
qed

lemma putall_prints: "con_ok s \<Longrightarrow> prints (putall cs s) s"
  by (induction cs arbitrary: s) (auto intro: prints_bnd consputc_prints)

text \<open>The digits of a number, the least significant one first; \<open>buf\<close> has room for them from base 5 on.\<close>

function digits_of :: "nat \<Rightarrow> nat \<Rightarrow> nat list" where
  "digits_of x base = x mod base # (if x div base \<noteq> 0 \<and> 1 < base then digits_of (x div base) base else [])"
  by pat_completeness auto

termination digits_of
  by (relation "measure fst") (auto intro: div_less_dividend simp: div_eq_0_iff)

declare digits_of.simps [simp del]

lemma digits_of_length: "x < base ^ Suc k \<Longrightarrow> length (digits_of x base) \<le> Suc k"
proof (induction k arbitrary: x)
  case 0
  then show ?case
    by (simp add: digits_of.simps [of x])
next
  case (Suc k)
  then have "x div base < base ^ Suc k"
    by (simp add: less_mult_imp_div_less mult.commute)
  then show ?case
    using Suc.IH by (subst digits_of.simps) simp
qed

lemma printint_fill_digits:
  "1 < base \<Longrightarrow> length buf = 16 \<Longrightarrow> i + length (digits_of x base) \<le> 16 \<Longrightarrow>
    \<exists>rest. printint_fill x base i buf =
      Some (take i buf @ map digit_char (digits_of x base) @ rest, i + length (digits_of x base)) \<and>
      length (take i buf @ map digit_char (digits_of x base) @ rest) = 16"
proof (induction x base arbitrary: i buf rule: digits_of.induct)
  case (1 x base)
  have i: "i < 16"
    using 1(4) by (subst (asm) digits_of.simps) simp
  let ?b = "buf[i := digit_char (x mod base)]"
  have t: "take (Suc i) ?b = take i buf @ [digit_char (x mod base)]"
    using i 1(3) by (simp add: take_Suc_conv_app_nth)
  show ?case
  proof (cases "x div base \<noteq> 0 \<and> 1 < base")
    case True
    then have d: "digits_of x base = x mod base # digits_of (x div base) base"
      by (subst digits_of.simps) simp
    have f: "printint_fill x base i buf = printint_fill (x div base) base (Suc i) ?b"
      using True i by (subst printint_fill.simps) (simp add: Let_def)
    show ?thesis
      using 1(1) [OF True 1(2), of ?b "Suc i"] 1(3,4) unfolding f d by (simp add: t)
  next
    case False
    then have d: "digits_of x base = [x mod base]"
      by (subst digits_of.simps) auto
    have f: "printint_fill x base i buf = Some (?b, Suc i)"
      using False i 1(2) by (subst printint_fill.simps) (simp add: Let_def)
    show ?thesis
      using t i 1(3) append_take_drop_id [of "Suc i" ?b] unfolding f d
      by (intro exI [of _ "drop (Suc i) ?b"]) simp
  qed
qed

lemma digits_fit: "5 \<le> base \<Longrightarrow> length (digits_of (unat (x :: u32)) base) \<le> 14"
proof -
  assume "5 \<le> base"
  then have "(5 :: nat) ^ Suc 13 \<le> base ^ Suc 13"
    by (rule power_mono) simp
  moreover have "unat x < 2 ^ 32"
    using unsigned_less [where ?'a = nat, of x] by simp
  then have "unat x < 5 ^ Suc 13"
    by simp
  ultimately show ?thesis
    using digits_of_length [of "unat x" base 13] by simp
qed

text \<open>What \<open>printint\<close> sends.\<close>

definition number :: "u32 \<Rightarrow> nat \<Rightarrow> bool \<Rightarrow> int list" where
  "number xx base sign =
     (if sign \<and> sint xx < 0 then 45 # map digit_char (rev (digits_of (unat (- xx)) base))
      else map digit_char (rev (digits_of (unat xx) base)))"

lemma printint_number:
  assumes "5 \<le> base"
  shows "printint xx base sign s = putall (number xx base sign) s"
proof -
  have fill: "\<exists>rest. printint_fill (unat x) base 0 (replicate 16 0) =
      Some (map digit_char (digits_of (unat x) base) @ rest, length (digits_of (unat x) base)) \<and>
      length (digits_of (unat x) base) + length rest = 16" for x :: u32
    using printint_fill_digits [of base "replicate 16 0" 0 "unat x"] digits_fit [OF assms, of x] assms by auto
  show ?thesis
  proof (cases "sign \<and> sint xx < 0")
    case True
    then have e: "(sign \<and> sint xx < 0) = True"
      by simp
    let ?ds = "digits_of (unat (- xx)) base"
    obtain rest where f: "printint_fill (unat (- xx)) base 0 (replicate 16 0) = Some (map digit_char ?ds @ rest, length ?ds)"
      "length ?ds + length rest = 16"
      using fill by blast
    have "take (Suc (length ?ds)) ((map digit_char ?ds @ rest)[length ?ds := 45]) = map digit_char ?ds @ [45]"
      using f(2) digits_fit [OF assms, of "- xx"] by (cases rest) (simp_all add: list_update_append)
    then show ?thesis
      using f(1) digits_fit [OF assms, of "- xx"] unfolding printint_def number_def Let_def e by (simp add: rev_map)
  next
    case False
    then have e: "(sign \<and> sint xx < 0) = False"
      by simp
    show ?thesis
      using fill [of xx] unfolding printint_def number_def Let_def e by (auto simp: rev_map)
  qed
qed

lemma printint_prints: "con_ok s \<Longrightarrow> 5 \<le> b \<Longrightarrow> prints (printint x b g s) s"
  by (simp add: printint_number putall_prints)

lemma prints_if: "(b \<Longrightarrow> prints x s) \<Longrightarrow> (\<not> b \<Longrightarrow> prints y s) \<Longrightarrow> prints (if b then x else y) s"
  by simp

lemma cprintf_loop_prints:
  fixes s :: "'a con_scheme"
  shows "con_ok s \<Longrightarrow> prints (cprintf_loop fmt as s) s"
proof (induction fmt arbitrary: as s rule: length_induct)
  case (1 fmt)
  then have IH: "prints (cprintf_loop f as s) s" if "length f < length fmt" "con_ok s" for f as and s :: "'a con_scheme"
    using that by blast
  note rules = prints_if prints_bnd consputc_prints printint_prints putall_prints IH 1(2)
  consider "fmt = []" | c where "fmt = [c]" | c d f where "fmt = c # d # f"
    by (metis list.exhaust)
  then show ?case
  proof cases
    case (3 c d f)
    then show ?thesis
      unfolding 3 cprintf_loop.simps by (intro rules) (simp_all add: 3)
  qed (use 1(2) in \<open>simp_all add: consputc_prints\<close>)
qed

definition con_quiet :: "'a con_scheme \<Rightarrow> bool" where
  "con_quiet s \<longleftrightarrow> con_ok s \<and> (cons_locking s \<longrightarrow> cpu_ok (core s) \<and> lock_free L_cons (core s))"

lemma cprintf_prints:
  assumes "con_quiet s"
  shows "prints (cprintf fmt as s) s"
proof (cases "cons_locking s")
  case True
  define u where "u = s\<lparr>core := enter L_cons (core s)\<rparr>"
  have "con_ok u"
    using assms by (simp add: u_def con_quiet_def con_ok_def)
  then have "prints (cprintf_loop fmt as u) u"
    by (rule cprintf_loop_prints)
  then obtain a b c where t: "cprintf_loop fmt as u = Ok () (u\<lparr>uartout := a, cga_pos := b, crt := c\<rparr>)"
    and ok: "con_ok (u\<lparr>uartout := a, cga_pos := b, crt := c\<rparr>)"
    by (auto simp: prints_def returns_iff con_same_def)
  have "cprintf fmt as s = Ok () (s\<lparr>uartout := a, cga_pos := b, crt := c\<rparr>)"
    using True assms t by (simp add: cprintf_def con_quiet_def quiet_simps u_def)
  then show ?thesis
    using ok con_sameI [where s = s and a = a and b = b and c = c] by (simp add: prints_def con_ok_def u_def)
next
  case False
  then show ?thesis
    using assms cprintf_loop_prints [of s fmt as] by (auto simp: cprintf_def con_quiet_def intro: prints_bnd)
qed

lemma cprintf_ok:
  assumes "con_quiet s"
  obtains t where "cprintf fmt as s = Ok () t" "con_same s t" "con_quiet t"
proof -
  obtain t where t: "cprintf fmt as s = Ok () t" "con_same s t" "con_ok t"
    using cprintf_prints [OF assms] by (auto simp: prints_def returns_iff)
  then show ?thesis
    using assms that con_same_simps [OF t(2)] by (simp add: con_quiet_def)
qed

subsection \<open>What is printed\<close>

lemma uartout_cgaputc: "cgaputc c s = Ok () t \<Longrightarrow> uartout t = uartout s \<and> uart t = uart s"
  by (auto simp: cgaputc_def Let_def split: if_splits)

lemma consputc_uart:
  assumes "con_ok s" and "uart s" and "c \<noteq> BACKSPACE"
  shows "returns (consputc c s) (\<lambda>_ t. con_ok t \<and> uart t \<and> uartout t = uartout s @ [word_of_int c])"
proof -
  obtain t where t: "consputc c s = Ok () t" "con_ok t"
    using consputc_prints [OF assms(1), of c] by (auto simp: prints_def returns_iff)
  then show ?thesis
    using assms uartout_cgaputc [of c "uartputc c s" t]
    by (auto simp: consputc_def con_ok_def uartputc_def)
qed

lemma putall_uart:
  assumes "con_ok s" and "uart s" and "\<forall>c \<in> set cs. c \<noteq> BACKSPACE"
  shows "returns (putall cs s) (\<lambda>_ t. con_ok t \<and> uart t \<and> uartout t = uartout s @ map word_of_int cs)"
  using assms
proof (induction cs arbitrary: s)
  case (Cons c cs)
  then obtain t where t: "consputc c s = Ok () t" "con_ok t" "uart t" "uartout t = uartout s @ [word_of_int c]"
    using consputc_uart [of s c] by (auto simp: returns_iff)
  then show ?case
    using Cons.IH [of t] Cons.prems by simp
qed simp

definition digits_val :: "nat \<Rightarrow> nat list \<Rightarrow> nat" where
  "digits_val b ds = foldr (\<lambda>d a. d + b * a) ds 0"

lemma digits_of_spec:
  assumes "1 < b"
  shows "(\<forall>d \<in> set (digits_of x b). d < b) \<and> digits_val b (digits_of x b) = x \<and>
    (1 < length (digits_of x b) \<longrightarrow> last (digits_of x b) \<noteq> 0) \<and> digits_of x b \<noteq> []"
proof (induction x rule: less_induct)
  case (less x)
  show ?case
  proof (cases "x div b = 0")
    case True
    then show ?thesis
      using assms by (auto simp: digits_of.simps [of x] digits_val_def div_eq_0_iff)
  next
    case False
    then have "x div b < x"
      using assms by (cases "x = 0") auto
    note IH = less.IH [OF this]
    have d: "digits_of x b = x mod b # digits_of (x div b) b"
      using False assms by (subst digits_of.simps) simp
    have "last (digits_of (x div b) b) \<noteq> 0"
      using IH False by (cases "digits_of (x div b) b") (auto simp: digits_val_def split: if_splits)
    then show ?thesis
      using IH assms unfolding d by (auto simp: digits_val_def)
  qed
qed

lemma digit_char_byte: "digit_char d < 256"
  unfolding digit_char_def using nat_of_char_less_256 by simp

lemma number_byte: "c \<in> set (number x b g) \<Longrightarrow> c \<noteq> BACKSPACE"
  using digit_char_byte by (auto simp: number_def less_le split: if_splits)

lemma magnitude: "int (unat (if sint xx < 0 then - xx else xx)) = \<bar>sint xx\<bar>" for xx :: u32
proof -
  have "word_of_int (sint xx) = xx"
    by simp
  then have "(if sint xx < 0 then - xx else xx) = word_of_int \<bar>sint xx\<bar>"
    by (simp add: abs_if)
  moreover have "\<bar>sint xx\<bar> < 2 ^ 32"
    using sint_lt [of xx] sint_ge [of xx] by simp
  then have "uint (word_of_int \<bar>sint xx\<bar> :: u32) = \<bar>sint xx\<bar>"
    by (simp add: uint_word_of_int)
  ultimately show ?thesis
    by simp
qed

text \<open>C30: for the bases 5 to 16, among them the two that \<open>cprintf\<close> uses, \<open>printint\<close> never leaves its buffer of 16
  characters and returns; on a machine with a serial port it sends a minus sign exactly for a negative number
  that is printed with a sign, and then exactly the digits of the number's magnitude, most significant first and without
  leading zeros.\<close>

theorem printint_sends_digits:
  assumes "con_ok s" and "uart s" and "5 \<le> base" and "base \<le> 16"
  shows "returns (printint xx base sign s) (\<lambda>_ t. \<exists>ds.
    uartout t = uartout s @ (if sign \<and> sint xx < 0 then [45] else []) @ map (\<lambda>d. word_of_int (digit_char d)) (rev ds) \<and>
    int (digits_val base ds) = (if sign then \<bar>sint xx\<bar> else uint xx) \<and>
    (\<forall>d \<in> set ds. d < base) \<and> ds \<noteq> [] \<and> (1 < length ds \<longrightarrow> last ds \<noteq> 0))"
proof -
  let ?x = "if sign \<and> sint xx < 0 then - xx else xx"
  have v: "int (unat ?x) = (if sign then \<bar>sint xx\<bar> else uint xx)"
    using magnitude [of xx] by auto
  have "\<forall>c \<in> set (number xx base sign). c \<noteq> BACKSPACE"
    using number_byte by blast
  from putall_uart [OF assms(1,2) this] show ?thesis
    unfolding printint_number [OF assms(3)]
    by (rule returns_mono) (use digits_of_spec [of base "unat ?x"] assms(3) v in \<open>auto simp: number_def intro!: exI [of _ "digits_of (unat ?x) base"]\<close>)
qed

subsection \<open>The characters of a formatted message\<close>

fun chars_of :: "string \<Rightarrow> karg list \<Rightarrow> int list" where
  "chars_of [] as = []"
| "chars_of [c] as = (if c \<noteq> CHR ''%'' then [of_char c] else [])"
| "chars_of (c # d # fmt) as =
     (if c \<noteq> CHR ''%'' then of_char c # chars_of (d # fmt) as
      else if d = CHR ''d'' then number (arg_word as) 10 True @ chars_of fmt (tl as)
      else if d = CHR ''x'' \<or> d = CHR ''p'' then number (arg_word as) 16 False @ chars_of fmt (tl as)
      else if d = CHR ''s'' then arg_str as @ chars_of fmt (tl as)
      else if d = CHR ''%'' then of_char CHR ''%'' # chars_of fmt as
      else of_char CHR ''%'' # of_char d # chars_of fmt as)"

lemma putall_append: "putall (xs @ ys) s = bnd (putall xs s) (\<lambda>_ s. putall ys s)"
  by (induction xs arbitrary: s) (auto simp: bnd_assoc intro!: bnd_cong)

lemma putall_single: "putall [c] s = consputc c s"
  by (cases "consputc c s") simp_all

lemma putall_Cons: "putall (c # cs) = (\<lambda>s. bnd (consputc c s) (\<lambda>_ s. putall cs s))"
  by (simp add: fun_eq_iff)

lemma cprintf_loop_chars:
  fixes s :: "'a con_scheme"
  shows "cprintf_loop fmt as s = putall (chars_of fmt as) s"
proof (induction fmt arbitrary: as s rule: length_induct)
  case (1 fmt)
  then have IH: "(cprintf_loop f :: _ \<Rightarrow> 'a con_scheme \<Rightarrow> _) = (\<lambda>as. putall (chars_of f as))" if "length f < length fmt" for f
    using that by (simp add: fun_eq_iff)
  consider "fmt = []" | c where "fmt = [c]" | c d f where "fmt = c # d # f"
    by (metis list.exhaust)
  then show ?case
  proof cases
    case (3 c d f)
    have e: "(cprintf_loop (d # f) :: _ \<Rightarrow> 'a con_scheme \<Rightarrow> _) = (\<lambda>as. putall (chars_of (d # f) as))"
      "(cprintf_loop f :: _ \<Rightarrow> 'a con_scheme \<Rightarrow> _) = (\<lambda>as. putall (chars_of f as))"
      by (simp_all add: IH 3)
    show ?thesis
      unfolding 3 cprintf_loop.simps chars_of.simps e
      by (simp only: putall_append putall_Cons printint_number if_distrib [of "\<lambda>x. putall x s"] numeral_le_iff semiring_norm order_refl)
  next
    case (2 c)
    then show ?thesis
      using putall_single [of "of_char c" s] by simp
  qed simp
qed

lemma of_char_byte: "(of_char c :: int) \<noteq> BACKSPACE"
proof -
  have "int (of_char c) = (of_char c :: int)"
    by (rule of_nat_of_char)
  then show ?thesis
    using nat_of_char_less_256 [of c] by linarith
qed

lemma arg_str_byte: "c \<in> set (arg_str as) \<Longrightarrow> c \<noteq> BACKSPACE"
proof -
  have "sint (b :: u8) \<noteq> BACKSPACE" for b
    using sint_lt [of b] by simp
  then show "c \<in> set (arg_str as) \<Longrightarrow> c \<noteq> BACKSPACE"
    by (auto simp: arg_str_def of_char_byte split: list.splits karg.splits option.splits)
qed

lemma chars_of_byte: "c \<in> set (chars_of fmt as) \<Longrightarrow> c \<noteq> BACKSPACE"
  by (induction fmt as rule: chars_of.induct) (auto simp: of_char_byte dest: arg_str_byte number_byte split: if_splits)

lemma cprintf_sends:
  assumes "con_quiet s" "uart s"
  obtains t where "cprintf fmt as s = Ok () t" "con_same s t" "con_quiet t" "uartout t = uartout s @ map word_of_int (chars_of fmt as)"
proof -
  obtain t where t: "cprintf fmt as s = Ok () t" "con_same s t" "con_quiet t"
    by (rule cprintf_ok [OF assms(1)])
  define u where "u = (if cons_locking s then s\<lparr>core := enter L_cons (core s)\<rparr> else s)"
  have u: "con_ok u" "uart u" "uartout u = uartout s"
    using assms by (simp_all add: u_def con_quiet_def con_ok_def)
  have "\<forall>c \<in> set (chars_of fmt as). c \<noteq> BACKSPACE"
    using chars_of_byte by blast
  from putall_uart [OF u(1,2) this] obtain v where v: "cprintf_loop fmt as u = Ok () v"
    "uartout v = uartout s @ map word_of_int (chars_of fmt as)"
    by (auto simp: returns_iff cprintf_loop_chars u(3))
  have "uartout t = uartout v"
  proof (cases "cons_locking s")
    case True
    have "core v = enter L_cons (core s)"
      using cprintf_loop_prints [OF u(1), of fmt as] v(1) True by (auto simp: prints_def u_def dest: con_same_simps(1))
    then have "cprintf fmt as s = Ok () (v\<lparr>core := core s\<rparr>)"
      using True assms(1) v(1) by (simp add: cprintf_def con_quiet_def quiet_simps u_def)
    then show ?thesis
      using t(1) by auto
  next
    case False
    then show ?thesis
      using t(1) v(1) by (simp add: cprintf_def u_def)
  qed
  then show ?thesis
    using that t v(2) by simp
qed

definition boot_con :: con where
  "boot_con = \<lparr>core = boot_core, mem = \<lambda>_. 0, kend = 0x80100800, use_lock = True, freelist = 0x80101000,
     uart = True, uartout = [], cga_pos = 0, crt = \<lambda>_. 0, cons_locking = True, panicked = False\<rparr>"

theorem printint_sends_digits_witness:
  "returns (printint (- 42) 10 True boot_con) (\<lambda>_ t. \<exists>ds.
     uartout t = 45 # map (\<lambda>d. word_of_int (digit_char d)) (rev ds) \<and> digits_val 10 ds = 42)"
  using printint_sends_digits [of boot_con 10 "- 42" True]
  by (auto simp: boot_con_def con_ok_def returns_iff)

end
