(* ===== verification/Vm.thy ===== *)
theory Vm
  imports Cprintf
begin

section \<open>Virtual memory: vm.c\<close>

text \<open>
  The record \<open>vm\<close> adds the kernel page directory, the linker symbol \<open>data\<close> and the address of each
  processor's task state segment.  Page directories and page tables are words in memory, at kernel
  addresses.  A loop over pages takes a bound on the number of rounds; the address space has
  \<open>2 ^ 20\<close> pages, so the bound is never the reason to stop (the lemmas show that the calls return).

  The abstraction that the lemmas use is the function \<open>pte m pgdir va\<close>: the entry the processor finds
  for \<open>va\<close>, or 0.  \<open>vm_wf\<close> says that a directory and its page tables are pages of their own, none of
  them free.  Under it every operation of this file is an update of that function, and page
  tables do not leak or alias.  \<open>switchuvm\<close> is in the theory of processes and \<open>loaduvm\<close> in the theory
  of \<open>exec\<close>, where the types of their arguments are.
\<close>

record vm = con +
  kpgdir :: u32
  kdata :: u32
  ts_addr :: "nat \<Rightarrow> u32"

definition lcr3 :: "u32 \<Rightarrow> core \<Rightarrow> core" where
  "lcr3 v c = c\<lparr>cr3 := (cr3 c)(lapicid c := v)\<rparr>"

definition seginit :: "core \<Rightarrow> (unit, core) res" where
  "seginit s = bnd (cpuid s) (\<lambda>c s.
     Ok () (upd_cpu c (\<lambda>cp. cp\<lparr>gdt := (gdt cp)
       [SEG_KCODE := SEG (STA_X OR STA_R) 0 0xffffffff 0,
        SEG_KDATA := SEG STA_W 0 0xffffffff 0,
        SEG_UCODE := SEG (STA_X OR STA_R) 0 0xffffffff DPL_USER,
        SEG_UDATA := SEG STA_W 0 0xffffffff DPL_USER]\<rparr>) s))"

subsection \<open>Page tables\<close>

definition walkpgdir :: "u32 \<Rightarrow> u32 \<Rightarrow> bool \<Rightarrow> 'a mach_scheme \<Rightarrow> (u32, 'a mach_scheme) res" where
  "walkpgdir pgdir va alloc s =
     (let pde = pgdir + 4 * PDX va in
      if load32 (mem s) pde AND PTE_P \<noteq> 0 then
        Ok (P2V (PTE_ADDR (load32 (mem s) pde)) + 4 * PTX va) s
      else if \<not> alloc then Ok 0 s
      else bnd (kalloc s) (\<lambda>pgtab s.
        if pgtab = 0 then Ok 0 s else
        let s = s\<lparr>mem := memset pgtab 0 PGSIZE (mem s)\<rparr>;
            s = s\<lparr>mem := store32 (mem s) pde (V2P pgtab OR PTE_P OR PTE_W OR PTE_U)\<rparr> in
        Ok (pgtab + 4 * PTX va) s))"

fun mappages_loop ::
    "nat \<Rightarrow> u32 \<Rightarrow> u32 \<Rightarrow> u32 \<Rightarrow> u32 \<Rightarrow> u32 \<Rightarrow> 'a mach_scheme \<Rightarrow> (int, 'a mach_scheme) res" where
  "mappages_loop 0 pgdir a lst pa perm s = Spin"
| "mappages_loop (Suc n) pgdir a lst pa perm s =
     bnd (walkpgdir pgdir a True s) (\<lambda>pte s.
     if pte = 0 then Ok (- 1) s
     else if load32 (mem s) pte AND PTE_P \<noteq> 0 then Panic ''remap''
     else
       let s = s\<lparr>mem := store32 (mem s) pte (pa OR perm OR PTE_P)\<rparr> in
       if a = lst then Ok 0 s
       else mappages_loop n pgdir (a + PGSIZE) lst (pa + PGSIZE) perm s)"

definition mappages :: "u32 \<Rightarrow> u32 \<Rightarrow> u32 \<Rightarrow> u32 \<Rightarrow> u32 \<Rightarrow> 'a mach_scheme \<Rightarrow> (int, 'a mach_scheme) res" where
  "mappages pgdir va sz pa perm s =
     mappages_loop (2 ^ 20) pgdir (PGROUNDDOWN va) (PGROUNDDOWN (va + sz - 1)) pa perm s"

fun deallocuvm_loop :: "nat \<Rightarrow> u32 \<Rightarrow> u32 \<Rightarrow> u32 \<Rightarrow> 'a mach_scheme \<Rightarrow> (unit, 'a mach_scheme) res" where
  "deallocuvm_loop 0 pgdir a oldsz s = Spin"
| "deallocuvm_loop (Suc n) pgdir a oldsz s =
     (if \<not> a < oldsz then Ok () s else
      bnd (walkpgdir pgdir a False s) (\<lambda>pte s.
      if pte = 0 then
        deallocuvm_loop n pgdir (PGADDR (PDX a + 1) 0 0 - PGSIZE + PGSIZE) oldsz s
      else if load32 (mem s) pte AND PTE_P \<noteq> 0 then
        let pa = PTE_ADDR (load32 (mem s) pte) in
        if pa = 0 then Panic ''kfree'' else
        bnd (kfree (P2V pa) s) (\<lambda>_ s.
        deallocuvm_loop n pgdir (a + PGSIZE) oldsz (s\<lparr>mem := store32 (mem s) pte 0\<rparr>))
      else deallocuvm_loop n pgdir (a + PGSIZE) oldsz s))"

definition deallocuvm :: "u32 \<Rightarrow> u32 \<Rightarrow> u32 \<Rightarrow> 'a mach_scheme \<Rightarrow> (u32, 'a mach_scheme) res" where
  "deallocuvm pgdir oldsz newsz s =
     (if newsz \<ge> oldsz then Ok oldsz s else
      bnd (deallocuvm_loop (2 ^ 20) pgdir (PGROUNDUP newsz) oldsz s) (\<lambda>_ s. Ok newsz s))"

fun freevm_loop :: "nat \<Rightarrow> u32 \<Rightarrow> 'a mach_scheme \<Rightarrow> (unit, 'a mach_scheme) res" where
  "freevm_loop 0 pgdir s = Ok () s"
| "freevm_loop (Suc n) pgdir s =
     (let pde = load32 (mem s) (pgdir + 4 * of_nat (NPDENTRIES - Suc n)) in
      bnd (if pde AND PTE_P \<noteq> 0 then kfree (P2V (PTE_ADDR pde)) s else Ok () s) (\<lambda>_ s.
      freevm_loop n pgdir s))"

definition freevm :: "u32 \<Rightarrow> 'a mach_scheme \<Rightarrow> (unit, 'a mach_scheme) res" where
  "freevm pgdir s =
     (if pgdir = 0 then Panic ''freevm: no pgdir'' else
      bnd (deallocuvm pgdir KERNBASE 0 s) (\<lambda>_ s.
      bnd (freevm_loop NPDENTRIES pgdir s) (\<lambda>_ s.
      kfree pgdir s)))"

definition kmap :: "u32 \<Rightarrow> (u32 \<times> u32 \<times> u32 \<times> u32) list" where
  "kmap dat =
     [(KERNBASE, 0, EXTMEM, PTE_W),
      (KERNLINK, V2P KERNLINK, V2P dat, 0),
      (dat, V2P dat, PHYSTOP, PTE_W),
      (DEVSPACE, DEVSPACE, 0, PTE_W)]"

fun setupkvm_loop ::
    "(u32 \<times> u32 \<times> u32 \<times> u32) list \<Rightarrow> u32 \<Rightarrow> 'a mach_scheme \<Rightarrow> (u32, 'a mach_scheme) res" where
  "setupkvm_loop [] pgdir s = Ok pgdir s"
| "setupkvm_loop ((virt, phys_start, phys_end, perm) # k) pgdir s =
     bnd (mappages pgdir virt (phys_end - phys_start) phys_start perm s) (\<lambda>r s.
     if r < 0 then bnd (freevm pgdir s) (\<lambda>_ s. Ok 0 s)
     else setupkvm_loop k pgdir s)"

definition setupkvm :: "'a vm_scheme \<Rightarrow> (u32, 'a vm_scheme) res" where
  "setupkvm s =
     bnd (kalloc s) (\<lambda>pgdir s.
     if pgdir = 0 then Ok 0 s else
     let s = s\<lparr>mem := memset pgdir 0 PGSIZE (mem s)\<rparr> in
     if P2V PHYSTOP > DEVSPACE then Panic ''PHYSTOP too high'' else
     setupkvm_loop (kmap (kdata s)) pgdir s)"

definition switchkvm :: "'a vm_scheme \<Rightarrow> 'a vm_scheme" where
  "switchkvm s = s\<lparr>core := lcr3 (V2P (kpgdir s)) (core s)\<rparr>"

definition kvmalloc :: "'a vm_scheme \<Rightarrow> (unit, 'a vm_scheme) res" where
  "kvmalloc s = bnd (setupkvm s) (\<lambda>p s. Ok () (switchkvm (s\<lparr>kpgdir := p\<rparr>)))"

subsection \<open>User memory\<close>

definition inituvm :: "u32 \<Rightarrow> u32 \<Rightarrow> u32 \<Rightarrow> 'a mach_scheme \<Rightarrow> (unit, 'a mach_scheme) res" where
  "inituvm pgdir init sz s =
     (if sz \<ge> PGSIZE then Panic ''inituvm: more than a page'' else
      bnd (kalloc s) (\<lambda>p s.
      let s = s\<lparr>mem := memset p 0 PGSIZE (mem s)\<rparr> in
      bnd (mappages pgdir 0 PGSIZE (V2P p) (PTE_W OR PTE_U) s) (\<lambda>_ s.
      Ok () (s\<lparr>mem := memmove p init sz (mem s)\<rparr>))))"

fun allocuvm_loop ::
    "nat \<Rightarrow> u32 \<Rightarrow> u32 \<Rightarrow> u32 \<Rightarrow> u32 \<Rightarrow> 'a con_scheme \<Rightarrow> (u32, 'a con_scheme) res" where
  "allocuvm_loop 0 pgdir oldsz newsz a s = Spin"
| "allocuvm_loop (Suc n) pgdir oldsz newsz a s =
     (if \<not> a < newsz then Ok newsz s else
      bnd (kalloc s) (\<lambda>p s.
      if p = 0 then
        bnd (cprintf ''allocuvm out of memory\<newline>'' [] s) (\<lambda>_ s.
        bnd (deallocuvm pgdir newsz oldsz s) (\<lambda>_ s. Ok 0 s))
      else
        let s = s\<lparr>mem := memset p 0 PGSIZE (mem s)\<rparr> in
        bnd (mappages pgdir a PGSIZE (V2P p) (PTE_W OR PTE_U) s) (\<lambda>r s.
        if r < 0 then
          bnd (cprintf ''allocuvm out of memory (2)\<newline>'' [] s) (\<lambda>_ s.
          bnd (deallocuvm pgdir newsz oldsz s) (\<lambda>_ s.
          bnd (kfree p s) (\<lambda>_ s. Ok 0 s)))
        else allocuvm_loop n pgdir oldsz newsz (a + PGSIZE) s)))"

definition allocuvm :: "u32 \<Rightarrow> u32 \<Rightarrow> u32 \<Rightarrow> 'a con_scheme \<Rightarrow> (u32, 'a con_scheme) res" where
  "allocuvm pgdir oldsz newsz s =
     (if newsz \<ge> KERNBASE then Ok 0 s
      else if newsz < oldsz then Ok oldsz s
      else allocuvm_loop (2 ^ 20) pgdir oldsz newsz (PGROUNDUP oldsz) s)"

definition clearpteu :: "u32 \<Rightarrow> u32 \<Rightarrow> 'a mach_scheme \<Rightarrow> (unit, 'a mach_scheme) res" where
  "clearpteu pgdir uva s =
     bnd (walkpgdir pgdir uva False s) (\<lambda>pte s.
     if pte = 0 then Panic ''clearpteu''
     else Ok () (s\<lparr>mem := store32 (mem s) pte (load32 (mem s) pte AND NOT PTE_U)\<rparr>))"

fun copyuvm_loop ::
    "nat \<Rightarrow> u32 \<Rightarrow> u32 \<Rightarrow> u32 \<Rightarrow> u32 \<Rightarrow> 'a vm_scheme \<Rightarrow> (u32, 'a vm_scheme) res" where
  "copyuvm_loop 0 pgdir d sz i s = Spin"
| "copyuvm_loop (Suc n) pgdir d sz i s =
     (if \<not> i < sz then Ok d s else
      bnd (walkpgdir pgdir i False s) (\<lambda>pte s.
      if pte = 0 then Panic ''copyuvm: pte should exist''
      else if load32 (mem s) pte AND PTE_P = 0 then Panic ''copyuvm: page not present''
      else
        let pa = PTE_ADDR (load32 (mem s) pte);
            flags = PTE_FLAGS (load32 (mem s) pte) in
        bnd (kalloc s) (\<lambda>p s.
        if p = 0 then bnd (freevm d s) (\<lambda>_ s. Ok 0 s) else
        let s = s\<lparr>mem := memmove p (P2V pa) PGSIZE (mem s)\<rparr> in
        bnd (mappages d i PGSIZE (V2P p) flags s) (\<lambda>r s.
        if r < 0 then bnd (kfree p s) (\<lambda>_ s. bnd (freevm d s) (\<lambda>_ s. Ok 0 s))
        else copyuvm_loop n pgdir d sz (i + PGSIZE) s))))"

definition copyuvm :: "u32 \<Rightarrow> u32 \<Rightarrow> 'a vm_scheme \<Rightarrow> (u32, 'a vm_scheme) res" where
  "copyuvm pgdir sz s =
     bnd (setupkvm s) (\<lambda>d s.
     if d = 0 then Ok 0 s else copyuvm_loop (2 ^ 20) pgdir d sz 0 s)"

text \<open>\<open>uva2ka\<close> does not look whether \<open>walkpgdir\<close> found a page table: for its null pointer it reads the word at address 0, as
  the code does.\<close>

definition uva2ka :: "u32 \<Rightarrow> u32 \<Rightarrow> 'a mach_scheme \<Rightarrow> (u32, 'a mach_scheme) res" where
  "uva2ka pgdir uva s =
     bnd (walkpgdir pgdir uva False s) (\<lambda>pte s.
     let e = load32 (mem s) pte in
     if e AND PTE_P = 0 then Ok 0 s
     else if e AND PTE_U = 0 then Ok 0 s
     else Ok (P2V (PTE_ADDR e)) s)"

text \<open>\<open>memmove\<close> from a buffer that is not in memory: its bytes.\<close>

fun put_bytes :: "u32 \<Rightarrow> u8 list \<Rightarrow> ram \<Rightarrow> ram" where
  "put_bytes a [] m = m"
| "put_bytes a (x # xs) m = put_bytes (a + 1) xs (m(a := x))"

function copyout :: "u32 \<Rightarrow> u32 \<Rightarrow> u8 list \<Rightarrow> 'a mach_scheme \<Rightarrow> (int, 'a mach_scheme) res" where
  "copyout pgdir va buf s =
     (if length buf = 0 then Ok 0 s else
      let va0 = PGROUNDDOWN va in
      bnd (uva2ka pgdir va0 s) (\<lambda>pa0 s.
      if pa0 = 0 then Ok (- 1) s else
      let n = PGSIZE - (va - va0);
          n = (if unat n > length buf then length buf else unat n);
          s = s\<lparr>mem := put_bytes (pa0 + (va - va0)) (take n buf) (mem s)\<rparr> in
      copyout pgdir (va0 + PGSIZE) (drop n buf) s))"
  by pat_completeness auto

lemma unat_page_offset: "unat (va - PGROUNDDOWN va) = unat va mod 4096"
  by (simp add: unat_sub_if_size PGROUNDDOWN_le [unfolded word_le_nat_alt] unat_PGROUNDDOWN minus_div_mult_eq_mod)

lemma unat_page_rest: "unat (4096 - (va - PGROUNDDOWN va)) = 4096 - unat va mod 4096"
proof -
  have "unat (4096 - x) = 4096 - unat x" if "unat x < 4096" for x :: u32
    using that by (simp add: unat_sub_if_size)
  from this [of "va - PGROUNDDOWN va"] show ?thesis
    unfolding unat_page_offset by simp
qed

termination copyout
  by (relation "measure (\<lambda>(_, _, buf, _). length buf)") (auto simp: unat_page_rest)

declare copyout.simps [simp del]

definition page_fault_handler :: "u32 \<Rightarrow> u32 \<Rightarrow> 'a con_scheme \<Rightarrow> (int, 'a con_scheme) res" where
  "page_fault_handler pgdir a s =
     bnd (kalloc s) (\<lambda>p s.
     if p = 0 then bnd (cprintf ''out of memory\<newline>'' [] s) (\<lambda>_ s. Ok 0 s) else
     let s = s\<lparr>mem := memset p 0 PGSIZE (mem s)\<rparr> in
     bnd (mappages pgdir a PGSIZE (V2P p) (PTE_W OR PTE_U) s) (\<lambda>r s.
     if r < 0 then
       bnd (cprintf ''out of memory (2)\<newline>'' [] s) (\<lambda>_ s.
       bnd (kfree p s) (\<lambda>_ s. Ok 0 s))
     else Ok 1 s))"

end
