(* ===== verification/Paging.thy ===== *)
theory Paging
  imports Vm
begin

section \<open>Page tables as functions\<close>

text \<open>
  The lemmas about \<open>walkpgdir\<close> and \<open>mappages\<close>.  \<open>pte m pd va\<close> is the page-table entry for \<open>va\<close> in the
  directory at \<open>pd\<close>, 0 when there is no page table.  \<open>tables m pd\<close> is the set of pages that make up
  the directory, \<open>vm_wf\<close> the invariant that they are legal pages, pairwise different and not free.
\<close>

subsection \<open>The abstraction\<close>

definition pdev :: "ram \<Rightarrow> u32 \<Rightarrow> u32 \<Rightarrow> u32" where
  "pdev m pd va = load32 m (pd + 4 * PDX va)"

definition has_pt :: "ram \<Rightarrow> u32 \<Rightarrow> u32 \<Rightarrow> bool" where
  "has_pt m pd va \<longleftrightarrow> pdev m pd va AND PTE_P \<noteq> 0"

definition ptab :: "ram \<Rightarrow> u32 \<Rightarrow> u32 \<Rightarrow> u32" where
  "ptab m pd va = P2V (PTE_ADDR (pdev m pd va))"

definition pte :: "ram \<Rightarrow> u32 \<Rightarrow> u32 \<Rightarrow> u32" where
  "pte m pd va = (if has_pt m pd va then load32 m (ptab m pd va + 4 * PTX va) else 0)"

definition tables :: "ram \<Rightarrow> u32 \<Rightarrow> u32 set" where
  "tables m pd = insert pd (ptab m pd ` {va. has_pt m pd va})"

definition vm_wf :: "'a mach_scheme \<Rightarrow> u32 \<Rightarrow> u32 list \<Rightarrow> bool" where
  "vm_wf s pd xs \<longleftrightarrow> page_ok s pd \<and> pd \<notin> set xs \<and>
     (\<forall>va. has_pt (mem s) pd va \<longrightarrow> page_ok s (ptab (mem s) pd va) \<and>
        ptab (mem s) pd va \<noteq> pd \<and> ptab (mem s) pd va \<notin> set xs) \<and>
     (\<forall>va va'. has_pt (mem s) pd va \<longrightarrow> has_pt (mem s) pd va' \<longrightarrow>
        ptab (mem s) pd va = ptab (mem s) pd va' \<longrightarrow> PDX va = PDX va')"

lemma vm_wfD:
  assumes "vm_wf s pd xs"
  shows "page_ok s pd" "aligned pd" "pd \<notin> set xs"
    "has_pt (mem s) pd va \<Longrightarrow> page_ok s (ptab (mem s) pd va)"
    "has_pt (mem s) pd va \<Longrightarrow> ptab (mem s) pd va \<noteq> pd"
    "has_pt (mem s) pd va \<Longrightarrow> ptab (mem s) pd va \<notin> set xs"
    "has_pt (mem s) pd va \<Longrightarrow> has_pt (mem s) pd va' \<Longrightarrow> ptab (mem s) pd va = ptab (mem s) pd va' \<Longrightarrow> PDX va = PDX va'"
  using assms page_ok_aligned(1) [of s pd] unfolding vm_wf_def by blast+

lemma vm_wf_tables: "vm_wf s pd xs \<Longrightarrow> tables (mem s) pd \<inter> set xs = {}"
  by (auto simp: tables_def vm_wf_def)

lemma aligned_ptab [simp]: "aligned (ptab m pd va)"
  by (simp add: ptab_def)

text \<open>Two addresses have the same directory and table index when they are on the same page.\<close>

lemma same_page_iff: "PGROUNDDOWN a = PGROUNDDOWN b \<longleftrightarrow> PDX a = PDX b \<and> PTX a = PTX b"
proof -
  have d: "n div 4194304 = n div 4096 div 1024" for n :: nat
    by (simp add: div_mult2_eq [symmetric])
  have q: "x = y \<longleftrightarrow> x div 1024 = y div 1024 \<and> x mod 1024 = y mod 1024" for x y :: nat
    by (metis div_mult_mod_eq)
  have "PGROUNDDOWN a = PGROUNDDOWN b \<longleftrightarrow> unat a div 4096 = unat b div 4096"
    by (auto simp: word_unat_eq_iff unat_PGROUNDDOWN)
  also have "\<dots> \<longleftrightarrow> unat a div 4194304 = unat b div 4194304 \<and> unat a div 4096 mod 1024 = unat b div 4096 mod 1024"
    unfolding d by (rule q)
  also have "\<dots> \<longleftrightarrow> PDX a = PDX b \<and> PTX a = PTX b"
    by (simp add: word_unat_eq_iff unat_PDX unat_PTX)
  finally show ?thesis .
qed

lemma pdev_cong: "PDX a = PDX b \<Longrightarrow> pdev m pd a = pdev m pd b"
  by (simp add: pdev_def)

lemma has_pt_cong: "PDX a = PDX b \<Longrightarrow> has_pt m pd a = has_pt m pd b"
  by (simp add: has_pt_def pdev_def)

lemma ptab_cong: "PDX a = PDX b \<Longrightarrow> ptab m pd a = ptab m pd b"
  by (simp add: ptab_def pdev_def)

lemma pte_same_page: "PGROUNDDOWN a = PGROUNDDOWN b \<Longrightarrow> pte m pd a = pte m pd b"
  by (simp add: pte_def same_page_iff has_pt_def pdev_def ptab_def)

text \<open>Only the pages of the tables matter.\<close>

lemma pdev_frame:
  assumes "aligned pd" and "\<And>b. PGROUNDDOWN b = pd \<Longrightarrow> m' b = m b"
  shows "pdev m' pd va = pdev m pd va"
  unfolding pdev_def using assms by (intro load32_cong al4_index) (simp_all add: PGROUNDDOWN_index PDX_le)

lemma tables_frame:
  assumes "aligned pd" and "\<And>b. PGROUNDDOWN b \<in> tables m pd \<Longrightarrow> m' b = m b"
  shows "pdev m' pd = pdev m pd" "has_pt m' pd = has_pt m pd" "ptab m' pd = ptab m pd"
    "pte m' pd = pte m pd" "tables m' pd = tables m pd"
proof -
  show pd: "pdev m' pd = pdev m pd"
    using pdev_frame [OF assms(1), of m' m] assms(2) by (auto simp: fun_eq_iff tables_def)
  then show h: "has_pt m' pd = has_pt m pd" and p: "ptab m' pd = ptab m pd"
    by (simp_all add: fun_eq_iff has_pt_def ptab_def)
  have "load32 m' (ptab m pd va + 4 * PTX va) = load32 m (ptab m pd va + 4 * PTX va)" if "has_pt m pd va" for va
    using that assms(2)
    by (intro load32_cong al4_index) (simp_all add: PGROUNDDOWN_index PTX_le tables_def)
  then show "pte m' pd = pte m pd"
    by (simp add: fun_eq_iff pte_def h p)
  show "tables m' pd = tables m pd"
    by (simp add: tables_def h p)
qed

lemma vm_wf_cong:
  "has_pt (mem t) pd = has_pt (mem s) pd \<Longrightarrow> ptab (mem t) pd = ptab (mem s) pd \<Longrightarrow> page_ok t = page_ok s \<Longrightarrow>
   vm_wf t pd xs = vm_wf s pd xs"
  by (simp only: vm_wf_def)

lemma vm_wf_frame:
  assumes "vm_wf s pd xs" and "\<And>b. PGROUNDDOWN b \<in> tables (mem s) pd \<Longrightarrow> mem t b = mem s b"
    and "kend t = kend s" and "set ys \<subseteq> set xs"
  shows "vm_wf t pd ys"
proof -
  have al: "aligned pd"
    using assms(1) by (rule vm_wfD)
  have pok: "page_ok t = page_ok s"
    using assms(3) by (simp add: page_ok_def fun_eq_iff)
  have f: "has_pt (mem t) pd = has_pt (mem s) pd" "ptab (mem t) pd = ptab (mem s) pd"
    using tables_frame [OF al, of "mem s" "mem t"] assms(2) by blast+
  show ?thesis
    using assms(1,4) unfolding vm_wf_def f pok by blast
qed

subsection \<open>Storing an entry\<close>

lemma store_pte:
  fixes v :: u32
  assumes wf: "vm_wf s pd xs" and pt: "has_pt (mem s) pd va"
  defines "m' \<equiv> store32 (mem s) (ptab (mem s) pd va + 4 * PTX va) v"
  shows "pdev m' pd = pdev (mem s) pd" and "has_pt m' pd = has_pt (mem s) pd" and "ptab m' pd = ptab (mem s) pd"
    and "pte m' pd va' = (if PGROUNDDOWN va' = PGROUNDDOWN va then v else pte (mem s) pd va')"
    and "PGROUNDDOWN b \<noteq> ptab (mem s) pd va \<Longrightarrow> m' b = mem s b"
    and "tables m' pd = tables (mem s) pd" and "vm_wf (s\<lparr>mem := m'\<rparr>) pd xs"
proof -
  have al: "aligned pd" and a4: "al4 (ptab (mem s) pd a + 4 * PTX a)" for a
    using wf by (auto intro: vm_wfD al4_index)
  have pg: "PGROUNDDOWN (ptab (mem s) pd a + 4 * PTX a) = ptab (mem s) pd a" for a
    by (simp add: PGROUNDDOWN_index PTX_le)
  show f: "m' b = mem s b" if "PGROUNDDOWN b \<noteq> ptab (mem s) pd va" for b
    unfolding m'_def using that by (intro store32_page a4) (simp add: pg)
  show pd: "pdev m' pd = pdev (mem s) pd"
    using vm_wfD(5) [OF wf pt] by (intro ext pdev_frame [OF al] f) auto
  then show h: "has_pt m' pd = has_pt (mem s) pd" and p: "ptab m' pd = ptab (mem s) pd"
    by (simp_all add: fun_eq_iff has_pt_def ptab_def)
  have other: "load32 m' (ptab (mem s) pd va' + 4 * PTX va') = load32 (mem s) (ptab (mem s) pd va' + 4 * PTX va')"
    if "has_pt (mem s) pd va'" "PGROUNDDOWN va' \<noteq> PGROUNDDOWN va"
  proof -
    have "ptab (mem s) pd va + 4 * PTX va \<noteq> ptab (mem s) pd va' + 4 * PTX va'"
    proof (cases "PDX va' = PDX va")
      case True
      then show ?thesis
        using that(2) ptab_cong [OF True] index4_inj [OF PTX_le PTX_le] by (auto simp: same_page_iff)
    next
      case False
      then show ?thesis
        using pg [of va] pg [of va'] vm_wfD(7) [OF wf pt that(1)] by metis
    qed
    then show ?thesis
      unfolding m'_def by (intro load32_store32_other a4)
  qed
  have same: "load32 m' (ptab (mem s) pd va' + 4 * PTX va') = v" if "PGROUNDDOWN va' = PGROUNDDOWN va"
  proof -
    have "ptab (mem s) pd va' + 4 * PTX va' = ptab (mem s) pd va + 4 * PTX va"
      using that ptab_cong [of va' va] by (simp add: same_page_iff)
    then show ?thesis
      by (simp add: m'_def)
  qed
  show "pte m' pd va' = (if PGROUNDDOWN va' = PGROUNDDOWN va then v else pte (mem s) pd va')"
  proof (cases "PGROUNDDOWN va' = PGROUNDDOWN va")
    case True
    then have "has_pt (mem s) pd va'"
      using pt has_pt_cong [of va' va] by (simp add: same_page_iff)
    then show ?thesis
      using True same by (simp add: pte_def h p)
  next
    case False
    then show ?thesis
      using other by (simp add: pte_def h p)
  qed
  show "tables m' pd = tables (mem s) pd"
    by (simp add: tables_def h p)
  show "vm_wf (s\<lparr>mem := m'\<rparr>) pd xs"
    using wf vm_wf_cong [of "s\<lparr>mem := m'\<rparr>" pd s xs] h p by simp
qed

subsection \<open>Finding an entry\<close>

lemma walk_has_pt:
  "has_pt (mem s) pd va \<Longrightarrow> walkpgdir pd va al s = Ok (ptab (mem s) pd va + 4 * PTX va) s"
  by (simp add: walkpgdir_def has_pt_def ptab_def pdev_def)

lemma walk_no_pt: "\<not> has_pt (mem s) pd va \<Longrightarrow> walkpgdir pd va False s = Ok 0 s"
  by (simp add: walkpgdir_def has_pt_def pdev_def)

lemma present_or: "(a OR (7 :: u32)) AND 1 = 1" "(a OR b OR (1 :: u32)) AND 1 = 1"
  by (simp_all add: and_one_eq even_or_iff mod_2_eq_odd)

definition dirs :: "ram \<Rightarrow> u32 \<Rightarrow> u32 set" where
  "dirs m pd = PDX ` {va. has_pt m pd va}"

lemma dirs_iff: "PDX va \<in> dirs m pd \<longleftrightarrow> has_pt m pd va"
  unfolding dirs_def by (metis (mono_tags, lifting) has_pt_cong image_iff mem_Collect_eq)

text \<open>The state after \<open>walkpgdir\<close> has added the page table \<open>x\<close> for \<open>va\<close>.\<close>

definition add_pt :: "u32 \<Rightarrow> u32 \<Rightarrow> u32 \<Rightarrow> 'a mach_scheme \<Rightarrow> 'a mach_scheme" where
  "add_pt pd va x s = s\<lparr>freelist := load32 (mem s) x,
     mem := store32 (memset x 0 4096 (mem s)) (pd + 4 * PDX va) (V2P x OR 7)\<rparr>"

lemma walk_add_pt:
  assumes "\<not> has_pt (mem s) pd va" and "kmem_quiet s" and "free_list s (x # xs)"
  shows "walkpgdir pd va True s = Ok (x + 4 * PTX va) (add_pt pd va x s)"
proof -
  have "x \<noteq> 0"
    using assms(3) page_ok_nonzero by (auto simp: free_list_def)
  then show ?thesis
    using assms(1) kalloc_cons(1) [OF assms(2,3)]
    by (simp add: walkpgdir_def has_pt_def pdev_def Let_def add_pt_def)
qed

lemma add_pt_mem:
  assumes "aligned pd" and "aligned x" and "PGROUNDDOWN b \<noteq> pd" and "PGROUNDDOWN b \<noteq> x"
  shows "mem (add_pt pd va x s) b = mem s b"
  using assms by (simp add: add_pt_def store32_page al4_index PGROUNDDOWN_index PDX_le memset_page)

lemma add_pt_pdev:
  assumes "aligned pd" and "aligned x" and "x \<noteq> pd"
  shows "pdev (mem (add_pt pd va x s)) pd a = (if PDX a = PDX va then V2P x OR 7 else pdev (mem s) pd a)"
proof (cases "PDX a = PDX va")
  case False
  then have "pd + 4 * PDX va \<noteq> pd + 4 * PDX a"
    using index4_inj [OF PDX_le PDX_le, of pd va a] by metis
  then show ?thesis
    using False assms
    by (simp add: pdev_def add_pt_def load32_store32_other al4_index load32_memset_page PGROUNDDOWN_index PDX_le)
qed (simp add: pdev_def add_pt_def)

lemma add_pt_has_pt:
  assumes "aligned pd" and "aligned x" and "x \<noteq> pd"
  shows "has_pt (mem (add_pt pd va x s)) pd a \<longleftrightarrow> PDX a = PDX va \<or> has_pt (mem s) pd a"
    and "ptab (mem (add_pt pd va x s)) pd a = (if PDX a = PDX va then x else ptab (mem s) pd a)"
  using assms PTE_ADDR_or(1) [of "V2P x" 7] unfolding has_pt_def ptab_def
  by (auto simp: add_pt_pdev present_or)

lemma add_pt_pte:
  assumes "aligned pd" and "aligned x" and "x \<noteq> pd" and "\<not> has_pt (mem s) pd va"
    and "\<And>a. has_pt (mem s) pd a \<Longrightarrow> ptab (mem s) pd a \<noteq> x \<and> ptab (mem s) pd a \<noteq> pd"
  shows "pte (mem (add_pt pd va x s)) pd = pte (mem s) pd"
proof
  fix a
  let ?m = "mem (add_pt pd va x s)"
  have pg: "PGROUNDDOWN (x + 4 * PTX a) = x" "al4 (x + 4 * PTX a)"
    using assms(2) by (simp_all add: PGROUNDDOWN_index PTX_le al4_index)
  consider "PDX a = PDX va" | "PDX a \<noteq> PDX va" "has_pt (mem s) pd a" | "PDX a \<noteq> PDX va" "\<not> has_pt (mem s) pd a"
    by blast
  then show "pte ?m pd a = pte (mem s) pd a"
  proof cases
    case 1
    then have "\<not> has_pt (mem s) pd a"
      using assms(4) has_pt_cong by blast
    moreover have "load32 ?m (x + 4 * PTX a) = load32 (memset x 0 4096 (mem s)) (x + 4 * PTX a)"
      using pg assms(1,3) unfolding add_pt_def
      by (simp add: load32_store32_page al4_index PGROUNDDOWN_index PDX_le)
    ultimately show ?thesis
      using 1 pg assms(1-3) by (simp add: pte_def add_pt_has_pt load32_memset_page)
  next
    case 2
    then have "load32 ?m (ptab (mem s) pd a + 4 * PTX a) = load32 (mem s) (ptab (mem s) pd a + 4 * PTX a)"
      using assms(5) [OF 2(2)] assms(1,2)
      by (intro load32_cong al4_index add_pt_mem) (auto simp: PGROUNDDOWN_index PTX_le)
    then show ?thesis
      using 2 assms(1-3) by (simp add: pte_def add_pt_has_pt)
  next
    case 3
    then show ?thesis
      using assms(1-3) by (simp add: pte_def add_pt_has_pt)
  qed
qed

subsection \<open>Extending a directory\<close>

text \<open>
  \<open>grown s pd zs ys t\<close>: on the way from \<open>s\<close> to \<open>t\<close> the free pages \<open>zs\<close> became page tables of \<open>pd\<close>, the
  pages \<open>ys\<close> are still free, and nothing else changed but the tables of \<open>pd\<close>.
\<close>

definition grown :: "'a mach_scheme \<Rightarrow> u32 \<Rightarrow> u32 list \<Rightarrow> u32 list \<Rightarrow> 'a mach_scheme \<Rightarrow> bool" where
  "grown s pd zs ys t \<longleftrightarrow> kmem_rep t ys \<and> vm_wf t pd ys \<and>
     t = s\<lparr>freelist := freelist t, mem := mem t\<rparr> \<and>
     (\<forall>b. PGROUNDDOWN b \<notin> tables (mem s) pd \<union> set zs \<longrightarrow> mem t b = mem s b) \<and>
     tables (mem t) pd = tables (mem s) pd \<union> set zs \<and>
     dirs (mem s) pd \<subseteq> dirs (mem t) pd \<and>
     card (dirs (mem t) pd) = card (dirs (mem s) pd) + length zs"

lemma grown_refl: "kmem_rep s xs \<Longrightarrow> vm_wf s pd xs \<Longrightarrow> grown s pd [] xs s"
  by (simp add: grown_def)

lemma grown_trans:
  assumes "grown s pd zs ys t" and "grown t pd zs' ys' u"
  shows "grown s pd (zs @ zs') ys' u"
proof -
  have t: "t = s\<lparr>freelist := freelist t, mem := mem t\<rparr>" and u: "u = t\<lparr>freelist := freelist u, mem := mem u\<rparr>"
    using assms by (simp_all add: grown_def)
  have "u = s\<lparr>freelist := freelist u, mem := mem u\<rparr>"
    by (subst u, subst t) simp
  then show ?thesis
    using assms unfolding grown_def by (simp add: Un_assoc) blast
qed

lemma grownD:
  assumes "grown s pd zs ys t"
  shows "kmem_rep t ys" "vm_wf t pd ys" "kend t = kend s" "page_ok t = page_ok s"
proof -
  have t: "t = s\<lparr>freelist := freelist t, mem := mem t\<rparr>"
    using assms by (simp add: grown_def)
  show k: "kend t = kend s"
    by (subst t) simp
  then show "page_ok t = page_ok s"
    by (simp add: page_ok_def fun_eq_iff)
qed (use assms in \<open>simp_all add: grown_def\<close>)

lemma add_pt_ext:
  assumes "\<not> has_pt (mem s) pd va" and "kmem_rep s (x # xs)" and wf: "vm_wf s pd (x # xs)"
  shows "grown s pd [x] xs (add_pt pd va x s)" and "pte (mem (add_pt pd va x s)) pd = pte (mem s) pd"
    and "dirs (mem (add_pt pd va x s)) pd = insert (PDX va) (dirs (mem s) pd)"
proof -
  let ?t = "add_pt pd va x s"
  have x: "page_ok s x" "aligned x" "x \<notin> set xs" and q: "kmem_quiet s" and fl: "free_list s (x # xs)"
    using assms(2) page_ok_aligned [of s x] by (auto simp: kmem_rep_def free_list_def)
  have pd: "aligned pd" "x \<noteq> pd" "pd \<notin> set xs"
    using vm_wfD(2,3) [OF wf] by auto
  have sep: "ptab (mem s) pd a \<noteq> x" "ptab (mem s) pd a \<noteq> pd" "ptab (mem s) pd a \<notin> set xs" if "has_pt (mem s) pd a" for a
    using vm_wfD(5,6) [OF wf that] by auto
  note hp = add_pt_has_pt [OF pd(1) x(2) pd(2)]
  have mt: "mem ?t b = mem s b" if "PGROUNDDOWN b \<noteq> pd" "PGROUNDDOWN b \<noteq> x" for b
    using that by (intro add_pt_mem pd x)
  show "pte (mem ?t) pd = pte (mem s) pd"
    using assms(1) sep by (intro add_pt_pte pd x) auto
  show d: "dirs (mem ?t) pd = insert (PDX va) (dirs (mem s) pd)"
    by (auto simp: dirs_def hp)
  have rep: "kmem_rep ?t xs"
  proof -
    have "free_list (s\<lparr>freelist := load32 (mem s) x\<rparr>) xs"
      by (rule kalloc_cons(2) [OF q fl])
    then have "free_list ?t xs"
    proof (rule free_list_frame)
      fix b
      assume "PGROUNDDOWN b \<in> set xs"
      then show "mem ?t b = mem (s\<lparr>freelist := load32 (mem s) x\<rparr>) b"
        using x pd mt [of b] by auto
    qed (simp_all add: add_pt_def)
    then show ?thesis
      using q by (simp add: kmem_rep_def kmem_quiet_def add_pt_def)
  qed
  have pok: "page_ok ?t = page_ok s"
    by (simp add: add_pt_def)
  have twf: "vm_wf ?t pd xs"
    unfolding vm_wf_def pok hp
  proof (intro conjI allI impI)
    fix a
    assume "PDX a = PDX va \<or> has_pt (mem s) pd a"
    then show "page_ok s (if PDX a = PDX va then x else ptab (mem s) pd a)"
      "(if PDX a = PDX va then x else ptab (mem s) pd a) \<noteq> pd"
      "(if PDX a = PDX va then x else ptab (mem s) pd a) \<notin> set xs"
      using vm_wfD(4) [OF wf, of a] x pd sep [of a] by (cases "PDX a = PDX va"; simp)+
  next
    fix a a'
    assume "PDX a = PDX va \<or> has_pt (mem s) pd a" "PDX a' = PDX va \<or> has_pt (mem s) pd a'"
      "(if PDX a = PDX va then x else ptab (mem s) pd a) = (if PDX a' = PDX va then x else ptab (mem s) pd a')"
    then show "PDX a = PDX a'"
      using vm_wfD(7) [OF wf] sep(1) by (metis (full_types))
  qed (use vm_wfD(1) [OF wf] pd in simp_all)
  have tab: "tables (mem ?t) pd = tables (mem s) pd \<union> {x}"
  proof -
    have "PDX a \<noteq> PDX va" if "has_pt (mem s) pd a" for a
      using assms(1) that has_pt_cong by blast
    then have im: "(\<lambda>a. if PDX a = PDX va then x else ptab (mem s) pd a) ` {a. PDX a = PDX va \<or> has_pt (mem s) pd a} =
        insert x (ptab (mem s) pd ` {a. has_pt (mem s) pd a})"
      by (force simp: image_iff)
    have pt: "ptab (mem ?t) pd = (\<lambda>a. if PDX a = PDX va then x else ptab (mem s) pd a)"
      by (rule ext) (rule hp)
    have ht: "has_pt (mem ?t) pd = (\<lambda>a. PDX a = PDX va \<or> has_pt (mem s) pd a)"
      by (rule ext) (rule hp)
    show ?thesis
      unfolding tables_def by (simp only: ht pt im Un_insert_right Un_empty_right insert_commute)
  qed
  have c: "card (dirs (mem ?t) pd) = Suc (card (dirs (mem s) pd))"
    using assms(1) by (simp add: d dirs_iff)
  show "grown s pd [x] xs ?t"
    unfolding grown_def using rep twf mt tab c by (simp add: d) (auto simp: add_pt_def tables_def)
qed

lemma walk_alloc:
  assumes rep: "kmem_rep s xs" and wf: "vm_wf s pd xs"
  obtains (full) "xs = []" "\<not> has_pt (mem s) pd va" "walkpgdir pd va True s = Ok 0 s"
  | (found) zs ys t where "xs = zs @ ys" "grown s pd zs ys t" "has_pt (mem t) pd va"
    "pte (mem t) pd = pte (mem s) pd" "walkpgdir pd va True s = Ok (ptab (mem t) pd va + 4 * PTX va) t"
    "dirs (mem t) pd \<subseteq> insert (PDX va) (dirs (mem s) pd)"
proof (cases "has_pt (mem s) pd va")
  case True
  then show ?thesis
    using found [of "[]" xs s] grown_refl [OF rep wf] walk_has_pt [OF True] by auto
next
  case False
  show ?thesis
  proof (cases xs)
    case Nil
    then have "kalloc s = Ok 0 s"
      using rep by (simp add: kmem_rep_def kalloc_empty)
    then show ?thesis
      using False full Nil by (simp add: walkpgdir_def has_pt_def pdev_def)
  next
    case (Cons x ys)
    note e = add_pt_ext [OF False rep [unfolded Cons] wf [unfolded Cons]]
    have al: "aligned pd" "aligned x" "x \<noteq> pd"
      using wf rep Cons vm_wfD(2,3) [OF wf] page_ok_aligned by (auto simp: kmem_rep_def free_list_def)
    have "walkpgdir pd va True s = Ok (x + 4 * PTX va) (add_pt pd va x s)"
      using rep Cons by (intro walk_add_pt False) (auto simp: kmem_rep_def)
    then show ?thesis
      using found [of "[x]" ys "add_pt pd va x s"] e Cons by (simp add: add_pt_has_pt [OF al])
  qed
qed

lemma store_pte_ext:
  assumes rep: "kmem_rep s xs" and wf: "vm_wf s pd xs" and pt: "has_pt (mem s) pd va"
  shows "grown s pd [] xs (s\<lparr>mem := store32 (mem s) (ptab (mem s) pd va + 4 * PTX va) v\<rparr>)"
    (is "grown _ _ _ _ ?t")
proof -
  note st = store_pte [OF wf pt, where v = v]
  have sep: "ptab (mem s) pd va \<notin> set xs"
    by (rule vm_wfD(6) [OF wf pt])
  have "free_list s xs"
    using rep by (simp add: kmem_rep_def)
  then have "free_list ?t xs"
  proof (rule free_list_frame)
    fix b
    assume "PGROUNDDOWN b \<in> set xs"
    then have "PGROUNDDOWN b \<noteq> ptab (mem s) pd va"
      using sep by auto
    then show "mem ?t b = mem s b"
      using st(5) [where b = b] by simp
  qed simp_all
  then have "kmem_rep ?t xs"
    using rep by (simp add: kmem_rep_def kmem_quiet_def)
  moreover have "mem ?t b = mem s b" if "PGROUNDDOWN b \<notin> tables (mem s) pd" for b
  proof -
    have "PGROUNDDOWN b \<noteq> ptab (mem s) pd va"
      using that pt by (auto simp: tables_def)
    then show ?thesis
      using st(5) [where b = b] by simp
  qed
  ultimately show ?thesis
    unfolding grown_def using st by (simp add: dirs_def)
qed

lemma pte_addr_nonzero:
  assumes "vm_wf s pd xs" and "has_pt (mem s) pd va"
  shows "ptab (mem s) pd va + 4 * PTX va \<noteq> 0"
proof
  assume "ptab (mem s) pd va + 4 * PTX va = 0"
  then have "ptab (mem s) pd va = 0"
    using PGROUNDDOWN_index [of "ptab (mem s) pd va" "PTX va"] PTX_le [of va] by (simp add: PGROUNDDOWN_def)
  then show False
    using page_ok_nonzero vm_wfD(4) [OF assms] by blast
qed

subsection \<open>Mapping a range\<close>

text \<open>The entries \<open>f\<close> after \<open>n\<close> pages from \<open>a\<close> on were mapped to physical memory from \<open>pa\<close> on.\<close>

definition maprange :: "u32 \<Rightarrow> nat \<Rightarrow> u32 \<Rightarrow> u32 \<Rightarrow> (u32 \<Rightarrow> u32) \<Rightarrow> u32 \<Rightarrow> u32" where
  "maprange a n pa perm f va =
     (if unat (PGROUNDDOWN va - a) < 4096 * n then (pa + (PGROUNDDOWN va - a)) OR perm OR PTE_P else f va)"

lemma maprange_0 [simp]: "maprange a 0 pa perm f = f"
  by (simp add: maprange_def fun_eq_iff)

lemma aligned_div: "aligned a \<Longrightarrow> unat a = 4096 * (unat a div 4096)"
  using div_mult_mod_eq [of "unat a" 4096] by (simp add: aligned_unat)

lemma aligned_mult: "aligned a \<longleftrightarrow> (\<exists>k. a = 4096 * k)"
proof
  assume "aligned a"
  then have "unat a = 4096 * (unat a div 4096)"
    by (rule aligned_div)
  then have "a = 4096 * of_nat (unat a div 4096)"
    by (metis of_nat_mult of_nat_numeral of_nat_unat ucast_id)
  then show "\<exists>k. a = 4096 * k" ..
next
  assume "\<exists>k. a = 4096 * k"
  then show "aligned a"
    by (auto simp: aligned_unat unat_word_ariths mod_mod_cancel)
qed

lemma aligned_diff: "aligned a \<Longrightarrow> aligned b \<Longrightarrow> aligned (a - b)"
  unfolding aligned_mult by (metis right_diff_distrib)

lemma page_index_shift:
  assumes "aligned a" and "n < 2 ^ 20"
  shows "unat (PGROUNDDOWN va - (a + 4096)) < 4096 * n \<longleftrightarrow>
    unat (PGROUNDDOWN va - a) < 4096 * Suc n \<and> PGROUNDDOWN va \<noteq> a"
proof -
  define x where "x = PGROUNDDOWN va - a"
  have "aligned x"
    unfolding x_def by (intro aligned_diff) (simp_all add: assms)
  then have x: "unat x = 4096 * (unat x div 4096)"
    by (rule aligned_div)
  have e: "PGROUNDDOWN va - (a + 4096) = x - 4096" "PGROUNDDOWN va = a \<longleftrightarrow> x = 0"
    by (simp_all add: x_def)
  show ?thesis
  proof (cases "x = 0")
    case True
    have "unat (0 - 4096 :: u32) = 4294963200"
      by simp
    then show ?thesis
      using assms(2) True by (simp add: e)
  next
    case False
    then have "1 \<le> unat x div 4096"
      using x by (metis One_nat_def Suc_leI gr0I mult_0_right unat_eq_0)
    then have "4096 \<le> unat x"
      using x by linarith
    then have "unat (x - 4096) = unat x - 4096"
      by (simp add: unat_sub_if_size)
    then show ?thesis
      using False \<open>4096 \<le> unat x\<close> unfolding e x_def [symmetric] by auto
  qed
qed

lemma maprange_Suc:
  assumes "aligned a" and "n < 2 ^ 20"
  shows "maprange (a + 4096) n (pa + 4096) perm (\<lambda>va. if PGROUNDDOWN va = a then pa OR perm OR PTE_P else f va) =
    maprange a (Suc n) pa perm f"
proof
  fix va
  have "pa + 4096 + (PGROUNDDOWN va - (a + 4096)) = pa + (PGROUNDDOWN va - a)"
    by simp
  then show "maprange (a + 4096) n (pa + 4096) perm (\<lambda>va. if PGROUNDDOWN va = a then pa OR perm OR PTE_P else f va) va =
      maprange a (Suc n) pa perm f va"
    unfolding maprange_def page_index_shift [OF assms] by auto
qed

definition pages_of :: "u32 \<Rightarrow> nat \<Rightarrow> u32 set" where
  "pages_of a n = {va. unat (PGROUNDDOWN va - a) < 4096 * n}"

lemma pages_of_Suc:
  assumes "aligned a" and "n < 2 ^ 20"
  shows "pages_of a (Suc n) = {va. PGROUNDDOWN va = a} \<union> pages_of (a + 4096) n"
proof (rule set_eqI)
  fix va
  show "va \<in> pages_of a (Suc n) \<longleftrightarrow> va \<in> {va. PGROUNDDOWN va = a} \<union> pages_of (a + 4096) n"
    unfolding pages_of_def Un_iff mem_Collect_eq page_index_shift [OF assms]
    by (cases "PGROUNDDOWN va = a") simp_all
qed

text \<open>
  \<open>mapped s pd xs a n pa perm r t\<close>: the outcome of mapping \<open>n\<close> pages.  Result 0: all of them are
  mapped.  Result -1: memory ran out, a prefix of them is mapped.
\<close>

definition mapped ::
    "'a mach_scheme \<Rightarrow> u32 \<Rightarrow> u32 list \<Rightarrow> u32 \<Rightarrow> nat \<Rightarrow> u32 \<Rightarrow> u32 \<Rightarrow> int \<Rightarrow> 'a mach_scheme \<Rightarrow> bool" where
  "mapped s pd xs a n pa perm r t \<longleftrightarrow> (\<exists>zs ys k. xs = zs @ ys \<and> grown s pd zs ys t \<and>
     pte (mem t) pd = maprange a k pa perm (pte (mem s) pd) \<and>
     dirs (mem t) pd \<subseteq> dirs (mem s) pd \<union> PDX ` pages_of a n \<and>
     (r = 0 \<and> k = n \<or> r = - 1 \<and> k < n \<and> ys = [] \<and> \<not> PDX ` pages_of a n \<subseteq> dirs (mem t) pd))"

lemma in_pages_of_self: "aligned a \<Longrightarrow> a \<in> pages_of a (Suc n)"
  by (simp add: pages_of_def aligned_iff)

lemma mappages_first:
  assumes rep: "kmem_rep s xs" and wf: "vm_wf s pd xs" and al: "aligned a" and free: "pte (mem s) pd a AND PTE_P = 0"
  obtains (full) "mappages_loop (Suc f) pd a lst pa perm s = Ok (- 1) s" "xs = []" "PDX a \<notin> dirs (mem s) pd"
  | (step) zs ys t where "xs = zs @ ys" "grown s pd zs ys t"
    "pte (mem t) pd = (\<lambda>va. if PGROUNDDOWN va = a then pa OR perm OR PTE_P else pte (mem s) pd va)"
    "dirs (mem t) pd \<subseteq> insert (PDX a) (dirs (mem s) pd)"
    "mappages_loop (Suc f) pd a lst pa perm s =
      (if a = lst then Ok 0 t else mappages_loop f pd (a + 4096) lst (pa + 4096) perm t)"
  using rep wf
proof (cases rule: walk_alloc [where va = a])
  case full
  then show ?thesis
    using that(1) by (simp add: dirs_iff)
next
  case (found zs ys u)
  let ?p = "ptab (mem u) pd a + 4 * PTX a"
  define t where "t = u\<lparr>mem := store32 (mem u) ?p (pa OR perm OR PTE_P)\<rparr>"
  have u: "kmem_rep u ys" "vm_wf u pd ys"
    using grownD [OF found(2)] by simp_all
  note st = store_pte [OF u(2) found(3), where v = "pa OR perm OR PTE_P"]
  have "load32 (mem u) ?p AND PTE_P = 0"
    using free found(3) fun_cong [OF found(4), of a] by (simp add: pte_def)
  then have "mappages_loop (Suc f) pd a lst pa perm s =
      (if a = lst then Ok 0 t else mappages_loop f pd (a + 4096) lst (pa + 4096) perm t)"
    using found(5) pte_addr_nonzero [OF u(2) found(3)] by (simp add: t_def Let_def)
  moreover have "grown s pd zs ys t"
    using grown_trans [OF found(2) store_pte_ext [OF u found(3)]] by (simp add: t_def)
  moreover have "pte (mem t) pd = (\<lambda>va. if PGROUNDDOWN va = a then pa OR perm OR PTE_P else pte (mem s) pd va)"
    using st(4) al found(4) by (simp add: t_def aligned_iff fun_eq_iff)
  moreover have "dirs (mem t) pd \<subseteq> insert (PDX a) (dirs (mem s) pd)"
    using st(2) found(6) by (simp add: t_def dirs_def)
  ultimately show ?thesis
    using found(1) by (intro that(2)) simp_all
qed

lemma mapped_full:
  assumes "kmem_rep s []" and "vm_wf s pd []" and "aligned a" and "PDX a \<notin> dirs (mem s) pd"
  shows "mapped s pd [] a (Suc n) pa perm (- 1) s"
  unfolding mapped_def using grown_refl [OF assms(1,2)] in_pages_of_self [OF assms(3)] assms(4)
  by (intro exI [of _ "[]"] exI [of _ 0]) auto

lemma mapped_step:
  assumes "grown s pd zs ys t" and "mapped t pd ys (a + 4096) n (pa + 4096) perm r u" and "aligned a" and "n < 2 ^ 20"
    and "pte (mem t) pd = (\<lambda>va. if PGROUNDDOWN va = a then pa OR perm OR PTE_P else pte (mem s) pd va)"
    and "dirs (mem t) pd \<subseteq> insert (PDX a) (dirs (mem s) pd)"
  shows "mapped s pd (zs @ ys) a (Suc n) pa perm r u"
proof -
  obtain zs' ys' k where m: "ys = zs' @ ys'" "grown t pd zs' ys' u"
    "pte (mem u) pd = maprange (a + 4096) k (pa + 4096) perm (pte (mem t) pd)"
    "dirs (mem u) pd \<subseteq> dirs (mem t) pd \<union> PDX ` pages_of (a + 4096) n"
    "r = 0 \<and> k = n \<or> r = - 1 \<and> k < n \<and> ys' = [] \<and> \<not> PDX ` pages_of (a + 4096) n \<subseteq> dirs (mem u) pd"
    using assms(2) unfolding mapped_def by blast
  have k: "k < 2 ^ 20"
    using m(5) assms(4) by auto
  have po: "PDX ` pages_of a (Suc n) = insert (PDX a) (PDX ` pages_of (a + 4096) n)"
  proof -
    have a: "PGROUNDDOWN a = a"
      using assms(3) by (simp add: aligned_iff)
    have "PDX va = PDX a" if "PGROUNDDOWN va = a" for va
      using that same_page_iff [of va a] a by simp
    then have "PDX ` {va. PGROUNDDOWN va = a} = {PDX a}"
      using a by blast
    then show ?thesis
      unfolding pages_of_Suc [OF assms(3,4)] image_Un by simp
  qed
  show ?thesis
    unfolding mapped_def
  proof (intro exI conjI)
    show "zs @ ys = (zs @ zs') @ ys'" "grown s pd (zs @ zs') ys' u"
      using m(1) grown_trans [OF assms(1) m(2)] by simp_all
    show "pte (mem u) pd = maprange a (Suc k) pa perm (pte (mem s) pd)"
      unfolding m(3) assms(5) by (rule maprange_Suc [OF assms(3) k])
    show "dirs (mem u) pd \<subseteq> dirs (mem s) pd \<union> PDX ` pages_of a (Suc n)"
      unfolding po using m(4) assms(6) by blast
    show "r = 0 \<and> Suc k = Suc n \<or> r = - 1 \<and> Suc k < Suc n \<and> ys' = [] \<and>
        \<not> PDX ` pages_of a (Suc n) \<subseteq> dirs (mem u) pd"
      unfolding po using m(5) by auto
  qed
qed

lemma mapped_nothing: "grown s pd [] ys s \<Longrightarrow> mapped s pd ys a 0 pa perm 0 s"
  unfolding mapped_def by (intro exI [of _ "[]"] exI [of _ ys] exI [of _ 0]) auto

lemma mappages_loop_ok:
  assumes "kmem_rep s xs" and "vm_wf s pd xs" and "aligned a" and "n < 2 ^ 20" and "n < fuel"
    and "\<And>va. va \<in> pages_of a (Suc n) \<Longrightarrow> pte (mem s) pd va AND PTE_P = 0"
  shows "\<exists>r t. mappages_loop fuel pd a (a + 4096 * of_nat n) pa perm s = Ok r t \<and>
    mapped s pd xs a (Suc n) pa perm r t"
  using assms
proof (induction n arbitrary: s xs a pa fuel)
  case (0 s xs a pa fuel)
  then obtain f where f: "fuel = Suc f"
    by (cases fuel) auto
  have "pte (mem s) pd a AND PTE_P = 0"
    using 0 in_pages_of_self by blast
  with 0(1-3) show ?case
  proof (cases rule: mappages_first [where f = f and lst = a and pa = pa and perm = perm])
    case full
    then show ?thesis
      using mapped_full [of s pd a 0] 0 f by (auto simp del: mappages_loop.simps)
  next
    case (step zs ys t)
    have "mapped t pd ys (a + 4096) 0 (pa + 4096) perm 0 t"
      by (intro mapped_nothing grown_refl grownD [OF step(2)])
    from mapped_step [OF step(2) this 0(3) _ step(3,4)] step(1)
    have "mapped s pd xs a (Suc 0) pa perm 0 t"
      by simp
    then show ?thesis
      using step(5) f by (simp del: mappages_loop.simps)
  qed
next
  case (Suc n s xs a pa fuel)
  then obtain f where f: "fuel = Suc f" "n < f"
    by (cases fuel) auto
  let ?lst = "a + 4096 * of_nat (Suc n)"
  have lst: "?lst = a + 4096 + 4096 * of_nat n" "a \<noteq> ?lst"
  proof -
    have "unat (4096 * of_nat (Suc n) :: u32) = 4096 * Suc n"
      using Suc.prems(4) by (simp add: unat_word_ariths unat_of_nat del: of_nat_Suc)
    then show "a \<noteq> ?lst"
      by (metis add_cancel_right_right mult_eq_0_iff nat.distinct(1) unat_0 zero_neq_numeral)
  qed (simp add: algebra_simps)
  have po: "pages_of a (Suc (Suc n)) = {va. PGROUNDDOWN va = a} \<union> pages_of (a + 4096) (Suc n)"
    using Suc.prems by (intro pages_of_Suc) auto
  have "pte (mem s) pd a AND PTE_P = 0"
    using Suc.prems in_pages_of_self by blast
  with Suc.prems(1-3) show ?case
  proof (cases rule: mappages_first [where f = f and lst = ?lst and pa = pa and perm = perm])
    case full
    then show ?thesis
      using mapped_full [of s pd a "Suc n"] Suc.prems f by (auto simp del: mappages_loop.simps)
  next
    case (step zs ys t)
    have "pte (mem t) pd va AND PTE_P = 0" if "va \<in> pages_of (a + 4096) (Suc n)" for va
    proof -
      have "PGROUNDDOWN va \<noteq> a"
        using that page_index_shift [OF Suc.prems(3,4)] by (simp add: pages_of_def)
      then show ?thesis
        using that Suc.prems(6) po step(3) by simp
    qed
    then obtain r u where u: "mappages_loop f pd (a + 4096) (a + 4096 + 4096 * of_nat n) (pa + 4096) perm t = Ok r u"
      "mapped t pd ys (a + 4096) (Suc n) (pa + 4096) perm r u"
      using Suc.IH [of t ys "a + 4096" f "pa + 4096"] grownD [OF step(2)] Suc.prems(3,4) f(2) by auto
    have "mapped s pd xs a (Suc (Suc n)) pa perm r u"
      using mapped_step [OF step(2) u(2) Suc.prems(3,4) step(3,4)] step(1) by simp
    moreover have "mappages_loop fuel pd a ?lst pa perm s = Ok r u"
      unfolding f(1) step(5) lst(1) [symmetric] using u(1) lst by (simp only: if_False)
    ultimately show ?thesis
      by blast
  qed
qed

lemma mappages_ok:
  assumes "kmem_rep s xs" and "vm_wf s pd xs"
    and n: "n = unat (PGROUNDDOWN (va + sz - 1) - PGROUNDDOWN va) div 4096"
    and "\<And>a. a \<in> pages_of (PGROUNDDOWN va) (Suc n) \<Longrightarrow> pte (mem s) pd a AND PTE_P = 0"
  shows "\<exists>r t. mappages pd va sz pa perm s = Ok r t \<and> mapped s pd xs (PGROUNDDOWN va) (Suc n) pa perm r t"
proof -
  let ?d = "PGROUNDDOWN (va + sz - 1) - PGROUNDDOWN va"
  have "unat ?d = 4096 * n"
    unfolding n by (intro aligned_div aligned_diff aligned_PGROUNDDOWN)
  then have d: "?d = 4096 * of_nat n"
    by (metis of_nat_mult of_nat_numeral of_nat_unat ucast_id)
  have "n < 2 ^ 20"
    using \<open>unat ?d = 4096 * n\<close> unat_u32_less [of ?d] by simp
  moreover have "PGROUNDDOWN (va + sz - 1) = PGROUNDDOWN va + 4096 * of_nat n"
    using d by (simp add: algebra_simps)
  ultimately show ?thesis
    using mappages_loop_ok [OF assms(1,2), of "PGROUNDDOWN va" n "2 ^ 20" pa perm] assms(4)
    by (simp add: mappages_def)
qed

text \<open>A free page per directory entry of the range is enough.\<close>

lemma mapped_enough:
  assumes "mapped s pd xs a n pa perm r t" and "card (PDX ` pages_of a n) \<le> length xs"
  shows "r = 0"
proof (rule ccontr)
  assume "r \<noteq> 0"
  then have m: "grown s pd xs [] t"
    "dirs (mem t) pd \<subseteq> dirs (mem s) pd \<union> PDX ` pages_of a n" "\<not> PDX ` pages_of a n \<subseteq> dirs (mem t) pd"
    using assms(1) unfolding mapped_def by auto
  have "dirs (mem t) pd \<subset> dirs (mem s) pd \<union> PDX ` pages_of a n"
    using m(2,3) by blast
  then have "card (dirs (mem t) pd) < card (dirs (mem s) pd \<union> PDX ` pages_of a n)"
    by (rule psubset_card_mono [OF finite])
  also have "\<dots> \<le> card (dirs (mem s) pd) + card (PDX ` pages_of a n)"
    by (rule card_Un_le)
  finally show False
    using m(1) assms(2) by (simp add: grown_def)
qed

subsection \<open>Mapping one page\<close>

lemma PGROUNDDOWN_last: "aligned va \<Longrightarrow> PGROUNDDOWN (va + 4096 - 1) = va"
proof -
  assume "aligned va"
  moreover have "unat (4095 :: u32) < 4096" "va + 4096 - 1 = va + 4095"
    by simp_all
  ultimately show ?thesis
    using PGROUNDDOWN_add [of va 4095] by (simp only:)
qed

lemma mappages_page:
  assumes "kmem_rep s xs" and "vm_wf s pd xs" and "aligned va" and "pte (mem s) pd va AND PTE_P = 0"
  obtains (full) "mappages pd va 4096 pa perm s = Ok (- 1) s" "xs = []" "PDX va \<notin> dirs (mem s) pd"
  | (ok) zs ys t where "xs = zs @ ys" "grown s pd zs ys t" "mappages pd va 4096 pa perm s = Ok 0 t"
    "pte (mem t) pd = (\<lambda>a. if PGROUNDDOWN a = va then pa OR perm OR PTE_P else pte (mem s) pd a)"
    "dirs (mem t) pd \<subseteq> insert (PDX va) (dirs (mem s) pd)"
proof -
  have e: "mappages pd va 4096 pa perm s = mappages_loop (Suc (2 ^ 20 - 1)) pd va va pa perm s"
    using assms(3) PGROUNDDOWN_last [OF assms(3)] by (simp add: mappages_def aligned_iff del: mappages_loop.simps)
  show ?thesis
    using assms
  proof (cases rule: mappages_first [where f = "2 ^ 20 - 1" and lst = va and pa = pa and perm = perm])
    case full
    then show ?thesis
      unfolding e [symmetric] by (rule that(1))
  next
    case (step zs ys t)
    then have "mappages pd va 4096 pa perm s = Ok 0 t"
      by (simp only: e if_True simp_thms)
    with step(1,2) show ?thesis
      using step(3,4) by (rule that(2))
  qed
qed

lemma mappages_remap:
  assumes "vm_wf s pd xs" and "pte (mem s) pd va AND PTE_P \<noteq> 0"
  shows "mappages pd va sz pa perm s = Panic ''remap''"
proof -
  let ?a = "PGROUNDDOWN va"
  have "pte (mem s) pd ?a AND PTE_P \<noteq> 0"
    using assms(2) pte_same_page [of ?a va] by simp
  then have "has_pt (mem s) pd ?a" "load32 (mem s) (ptab (mem s) pd ?a + 4 * PTX ?a) AND PTE_P \<noteq> 0"
    by (auto simp: pte_def split: if_splits)
  then have "mappages_loop (Suc f) pd ?a l pa perm s = Panic ''remap''" for f l
    using pte_addr_nonzero [OF assms(1)] by (simp add: walk_has_pt)
  from this [of "2 ^ 20 - 1"] show ?thesis
    by (simp add: mappages_def del: mappages_loop.simps)
qed

end
