(* ===== verification/Uvm.thy ===== *)
theory Uvm
  imports Paging
begin

section \<open>User address spaces\<close>

text \<open>
  The lemmas about \<open>page_fault_handler\<close>: how a page leaves the free list and is cleared, what the handler does for a page
  without an entry, for a page that has one, and without memory.
\<close>

subsection \<open>A fresh page\<close>

text \<open>The state after \<open>kalloc\<close> took the page \<open>x\<close> and \<open>memset\<close> cleared it.\<close>

definition take_zero :: "u32 \<Rightarrow> 'a mach_scheme \<Rightarrow> 'a mach_scheme" where
  "take_zero x s = s\<lparr>freelist := load32 (mem s) x, mem := memset x 0 4096 (mem s)\<rparr>"

lemma take_zero_mem: "aligned x \<Longrightarrow> mem (take_zero x s) b = (if PGROUNDDOWN b = x then 0 else mem s b)"
  by (simp add: take_zero_def memset_page)

lemma kmem_rep_Cons:
  assumes "kmem_rep s (x # xs)"
  shows "page_ok s x" "aligned x" "x \<notin> set xs" "x \<noteq> 0" "distinct xs" "kmem_quiet s" "free_list s (x # xs)"
    "kalloc s = Ok x (s\<lparr>freelist := load32 (mem s) x\<rparr>)"
  using assms page_ok_aligned(1) [of s x] page_ok_nonzero [of s x] kalloc_cons(1) [of s x xs]
  by (simp_all add: kmem_rep_def free_list_def)

lemma take_zero_rep:
  assumes "kmem_rep s (x # xs)"
  shows "kmem_rep (take_zero x s) xs"
proof -
  note x = kmem_rep_Cons [OF assms]
  have "free_list (s\<lparr>freelist := load32 (mem s) x\<rparr>) xs"
    by (rule kalloc_cons(2) [OF x(6,7)])
  then have "free_list (take_zero x s) xs"
  proof (rule free_list_frame)
    fix b
    assume "PGROUNDDOWN b \<in> set xs"
    then show "mem (take_zero x s) b = mem (s\<lparr>freelist := load32 (mem s) x\<rparr>) b"
      using x(3) by (auto simp: take_zero_mem [OF x(2)])
  qed (simp_all add: take_zero_def)
  then show ?thesis
    using x(6) by (simp add: kmem_rep_def kmem_quiet_def take_zero_def)
qed

lemma take_zero_wf:
  assumes "kmem_rep s (x # xs)" and "vm_wf s pd (x # xs)"
  shows "vm_wf (take_zero x s) pd xs" and "pte (mem (take_zero x s)) pd = pte (mem s) pd"
    and "dirs (mem (take_zero x s)) pd = dirs (mem s) pd" and "tables (mem (take_zero x s)) pd = tables (mem s) pd"
    and "x \<notin> tables (mem s) pd"
proof -
  note x = kmem_rep_Cons [OF assms(1)]
  show nt: "x \<notin> tables (mem s) pd"
    using vm_wf_tables [OF assms(2)] by auto
  have f: "mem (take_zero x s) b = mem s b" if "PGROUNDDOWN b \<in> tables (mem s) pd" for b
    using that nt by (auto simp: take_zero_mem [OF x(2)])
  note tf = tables_frame [OF vm_wfD(2) [OF assms(2)], of "mem s" "mem (take_zero x s)", OF f]
  show "pte (mem (take_zero x s)) pd = pte (mem s) pd" "tables (mem (take_zero x s)) pd = tables (mem s) pd"
    "dirs (mem (take_zero x s)) pd = dirs (mem s) pd"
    using tf by (simp_all add: dirs_def)
  show "vm_wf (take_zero x s) pd xs"
    by (rule vm_wf_frame [OF assms(2)]) (use f in \<open>auto simp: take_zero_def\<close>)
qed

subsection \<open>The page fault handler\<close>

lemma page_fault_unfold:
  assumes "kmem_rep s (x # xs)"
  shows "page_fault_handler pd va s =
    bnd (mappages pd va 4096 (V2P x) 6 (take_zero x s)) (\<lambda>r s.
      if r < 0 then bnd (cprintf ''out of memory (2)\<newline>'' [] s) (\<lambda>_ s. bnd (kfree x s) (\<lambda>_ s. Ok 0 s))
      else Ok 1 s)"
  using kmem_rep_Cons [OF assms] by (simp add: page_fault_handler_def take_zero_def Let_def)

lemma page_fault_ok:
  assumes rep: "kmem_rep s (x # xs)" and wf: "vm_wf s pd (x # xs)" and al: "aligned va"
    and free: "pte (mem s) pd va AND PTE_P = 0" and room: "xs \<noteq> [] \<or> has_pt (mem s) pd va"
  obtains zs ys t where "page_fault_handler pd va s = Ok 1 t" "xs = zs @ ys" "grown (take_zero x s) pd zs ys t"
    "pte (mem t) pd = (\<lambda>a. if PGROUNDDOWN a = va then V2P x OR 7 else pte (mem s) pd a)"
proof -
  note tz = take_zero_wf [OF rep wf]
  have "pte (mem (take_zero x s)) pd va AND PTE_P = 0"
    using free tz(2) by simp
  with take_zero_rep [OF rep] tz(1) al show ?thesis
  proof (cases rule: mappages_page [where pa = "V2P x" and perm = 6])
    case full
    then show ?thesis
      using room tz(3) by (simp add: dirs_iff)
  next
    case (ok zs ys t)
    have "V2P x OR 6 OR 1 = V2P x OR 7"
      by simp
    then have "pte (mem t) pd = (\<lambda>a. if PGROUNDDOWN a = va then V2P x OR 7 else pte (mem s) pd a)"
      using ok(4) tz(2) by (simp only:)
    with ok(1-3) show ?thesis
      using page_fault_unfold [OF rep] by (intro that) simp_all
  qed
qed

lemma pte_dirs: "pte m pd va \<noteq> 0 \<Longrightarrow> PDX va \<in> dirs m pd"
  by (auto simp: pte_def dirs_iff split: if_splits)

lemma grown_none: "grown s pd [] ys t \<Longrightarrow> dirs (mem t) pd = dirs (mem s) pd"
  using card_subset_eq [of "dirs (mem t) pd" "dirs (mem s) pd"] by (simp add: grown_def)

lemma mappages_page_full:
  assumes "kmem_rep s []" and "vm_wf s pd []" and "aligned va" and "\<not> has_pt (mem s) pd va"
  shows "mappages pd va 4096 pa perm s = Ok (- 1) s"
proof -
  have "pte (mem s) pd va AND PTE_P = 0"
    using assms(4) by (simp add: pte_def)
  with assms(1-3) show ?thesis
  proof (cases rule: mappages_page [where pa = pa and perm = perm])
    case (ok zs ys t)
    have "pte (mem t) pd va AND 1 = 1"
      using ok(4) assms(3) by (simp add: aligned_iff present_or)
    then have "PDX va \<in> dirs (mem t) pd"
      by (intro pte_dirs) auto
    then show ?thesis
      using grown_none [of s pd ys t] ok(1,2) assms(4) dirs_iff [of va "mem s" pd] by auto
  qed
qed

text \<open>Printing does not matter to memory.\<close>

lemma con_same_rep:
  assumes "con_same s t"
  shows "kmem_rep t xs = kmem_rep s xs" "vm_wf t pd xs = vm_wf s pd xs" "page_ok t = page_ok s"
proof -
  note c = con_same_simps [OF assms]
  show p: "page_ok t = page_ok s"
    using c by (simp add: page_ok_def fun_eq_iff)
  show "kmem_rep t xs = kmem_rep s xs"
    using c p by (simp add: kmem_rep_def kmem_quiet_def free_list_def)
  show "vm_wf t pd xs = vm_wf s pd xs"
    using c p by (intro vm_wf_cong) simp_all
qed

text \<open>Giving back the page that \<open>take_zero\<close> took.\<close>

lemma kfree_taken:
  assumes "kmem_rep s (x # xs)" and "vm_wf s pd (x # xs)" and "con_same (take_zero x s) t"
  obtains u where "kfree x t = Ok () u" "kmem_rep u (x # xs)" "vm_wf u pd (x # xs)" "pte (mem u) pd = pte (mem s) pd"
    "con.more u = con.more s" "core u = core s" "\<forall>b. PGROUNDDOWN b \<noteq> x \<longrightarrow> mem u b = mem s b"
proof -
  note x = kmem_rep_Cons [OF assms(1)] and tz = take_zero_wf [OF assms(1,2)]
  note c = con_same_simps [OF assms(3)] and cr = con_same_rep [OF assms(3)]
  define u where "u = t\<lparr>mem := store32 (memset x 1 4096 (mem t)) x (freelist t), freelist := x\<rparr>"
  have rep: "kmem_rep t xs"
    using take_zero_rep [OF assms(1)] cr by simp
  have ok: "page_ok t x"
    using x(1) cr by (simp add: take_zero_def)
  have k: "kfree x t = Ok () u" "kmem_rep u (x # xs)"
    using kfree_ok [of t x] kfree_list [of t xs x] rep ok x(3)
    by (simp_all add: u_def kmem_rep_def kmem_quiet_def)
  have m: "mem u b = mem s b" if "PGROUNDDOWN b \<noteq> x" for b
    using kfree_mem [OF ok that] that c take_zero_mem [OF x(2), of s b] by (simp add: u_def)
  have mt: "mem u b = mem s b" if "PGROUNDDOWN b \<in> tables (mem s) pd" for b
    using m [of b] that tz(5) by metis
  have "kend u = kend s"
    using c by (simp add: u_def take_zero_def)
  with mt have "vm_wf u pd (x # xs)"
    by (intro vm_wf_frame [OF assms(2)]) simp_all
  moreover have "pte (mem u) pd = pte (mem s) pd"
    by (rule tables_frame(4) [OF vm_wfD(2) [OF assms(2)] mt])
  ultimately show ?thesis
    using k c m by (intro that [of u]) (simp_all add: u_def take_zero_def)
qed

lemma page_fault_full:
  assumes rep: "kmem_rep s xs" and wf: "vm_wf s pd xs" and al: "aligned va" and np: "\<not> has_pt (mem s) pd va"
    and room: "length xs \<le> 1" and con: "con_quiet s"
  shows "returns (page_fault_handler pd va s) (\<lambda>r t. r = 0 \<and> kmem_rep t xs \<and> vm_wf t pd xs \<and>
    pte (mem t) pd = pte (mem s) pd \<and> con.more t = con.more s \<and> core t = core s \<and>
    (\<forall>b. PGROUNDDOWN b \<notin> set xs \<longrightarrow> mem t b = mem s b))"
proof (cases xs)
  case Nil
  then have "kalloc s = Ok 0 s"
    using rep by (simp add: kmem_rep_def kalloc_empty)
  moreover obtain t where t: "cprintf ''out of memory\<newline>'' [] s = Ok () t" "con_same s t"
    using con by (rule cprintf_ok)
  ultimately show ?thesis
    using con_same_simps [OF t(2)] con_same_rep [OF t(2)] rep wf by (simp add: page_fault_handler_def)
next
  case (Cons x ys)
  then have x: "xs = [x]"
    using room by simp
  note rep = rep [unfolded x] and wf = wf [unfolded x]
  note tz = take_zero_wf [OF rep wf]
  have "\<not> has_pt (mem (take_zero x s)) pd va"
    using np tz(3) by (simp add: dirs_iff [symmetric])
  then have m: "mappages pd va 4096 (V2P x) 6 (take_zero x s) = Ok (- 1) (take_zero x s)"
    using take_zero_rep [OF rep] tz(1) al by (intro mappages_page_full)
  have "con_quiet (take_zero x s)"
    using con by (simp add: con_quiet_def con_ok_def take_zero_def)
  then obtain t where t: "cprintf ''out of memory (2)\<newline>'' [] (take_zero x s) = Ok () t" "con_same (take_zero x s) t"
    by (rule cprintf_ok)
  from rep wf t(2) obtain u where "kfree x t = Ok () u" "kmem_rep u [x]" "vm_wf u pd [x]"
    "pte (mem u) pd = pte (mem s) pd" "con.more u = con.more s" "core u = core s"
    "\<forall>b. PGROUNDDOWN b \<noteq> x \<longrightarrow> mem u b = mem s b"
    by (rule kfree_taken)
  then show ?thesis
    by (simp add: page_fault_unfold [OF rep] m t(1) x)
qed

lemma load32_zero [simp]: "load32 (\<lambda>_. 0) a = 0"
  by (simp add: load32_def)

lemma load32_store32_if:
  "al4 a \<Longrightarrow> al4 b \<Longrightarrow> load32 (store32 m a v) b = (if b = a then v else load32 m b)"
  by (simp add: load32_store32_other)

text \<open>A machine with an empty page directory at \<open>0x80101000\<close> and two free pages, for the examples.\<close>

definition two_free :: con where
  "two_free = boot_con\<lparr>mem := store32 (\<lambda>_. 0) 0x80102000 0x80103000, freelist := 0x80102000\<rparr>"

lemma two_free_load: "al4 a \<Longrightarrow> load32 (mem two_free) a = (if a = 0x80102000 then 0x80103000 else 0)"
  by (simp add: two_free_def load32_store32_if al4_def)

lemma two_free_rep: "kmem_rep two_free [0x80102000, 0x80103000]"
proof -
  have "al4 0x80102000" "al4 0x80103000"
    by (simp_all add: al4_def)
  then have "chain (mem two_free) 0x80102000 [0x80102000, 0x80103000]"
    by (simp add: two_free_load)
  then show ?thesis
    by (simp add: kmem_rep_def kmem_quiet_def free_list_def two_free_def boot_con_def boot_core_ok
        page_ok_def V2P_def aligned_def)
qed

lemma two_free_no_pt: "\<not> has_pt (mem two_free) 0x80101000 va"
proof -
  have "aligned 0x80101000"
    by (simp add: aligned_def)
  then have "al4 (0x80101000 + 4 * PDX va)" "PGROUNDDOWN (0x80101000 + 4 * PDX va) = 0x80101000"
    by (simp_all add: al4_index PGROUNDDOWN_index PDX_le)
  moreover have "PGROUNDDOWN 0x80102000 = 0x80102000"
    by (simp add: PGROUNDDOWN_def)
  ultimately have "pdev (mem two_free) 0x80101000 va = 0"
    unfolding pdev_def by (subst two_free_load) auto
  then show ?thesis
    by (simp add: has_pt_def)
qed

lemma two_free_wf: "vm_wf two_free 0x80101000 [0x80102000, 0x80103000]"
  unfolding vm_wf_def
  by (simp add: two_free_no_pt) (simp add: two_free_def boot_con_def page_ok_def V2P_def aligned_def)

text \<open>C5: the page fault handler, called for a page without an entry while two pages are free, succeeds:
  the page is mapped, writable for the user, to a page that was free and is now zeroed and no
  longer free; all other entries of the directory and all memory outside the directory's tables
  and the free pages are as before, and the invariants hold again.\<close>

theorem page_fault_maps_fresh_zero_page:
  assumes "kmem_rep s xs" and "vm_wf s pd xs" and "aligned va" and "pte (mem s) pd va AND PTE_P = 0"
    and "2 \<le> length xs"
  shows "returns (page_fault_handler pd va s) (\<lambda>r t. r = 1 \<and> (\<exists>p \<in> set xs. \<exists>ys.
    pte (mem t) pd = (\<lambda>a. if PGROUNDDOWN a = va then V2P p OR PTE_P OR PTE_W OR PTE_U else pte (mem s) pd a) \<and>
    (\<forall>b. PGROUNDDOWN b = p \<longrightarrow> mem t b = 0) \<and> kmem_rep t ys \<and> vm_wf t pd ys \<and> set ys \<subseteq> set xs - {p}) \<and>
    (\<forall>b. PGROUNDDOWN b \<notin> tables (mem s) pd \<union> set xs \<longrightarrow> mem t b = mem s b))"
proof -
  obtain x xs' where xs: "xs = x # xs'" "xs' \<noteq> []"
    using assms(5) by (cases xs; cases "tl xs") auto
  note rep = assms(1) [unfolded xs(1)] and wf = assms(2) [unfolded xs(1)]
  note x = kmem_rep_Cons [OF rep] and tz = take_zero_wf [OF rep wf]
  have room: "xs' \<noteq> [] \<or> has_pt (mem s) pd va"
    using xs(2) by simp
  obtain zs ys t where t: "page_fault_handler pd va s = Ok 1 t" "xs' = zs @ ys"
    "grown (take_zero x s) pd zs ys t"
    "pte (mem t) pd = (\<lambda>a. if PGROUNDDOWN a = va then V2P x OR 7 else pte (mem s) pd a)"
    by (rule page_fault_ok [OF rep wf assms(3,4) room])
  have fr: "mem t b = mem (take_zero x s) b" if "PGROUNDDOWN b \<notin> tables (mem s) pd \<union> set zs" for b
    using t(3) that tz(4) by (auto simp: grown_def)
  have "mem t b = 0" if "PGROUNDDOWN b = x" for b
    using fr [of b] that tz(5) x(3) t(2) by (simp add: take_zero_mem [OF x(2)])
  moreover have "mem t b = mem s b" if "PGROUNDDOWN b \<notin> tables (mem s) pd \<union> set xs" for b
    using fr [of b] that xs t(2) by (simp add: take_zero_mem [OF x(2)])
  ultimately show ?thesis
    using t xs x(3) grownD [OF t(3)] by auto
qed

theorem page_fault_maps_fresh_zero_page_witness:
  "returns (page_fault_handler 0x80101000 0x3000 two_free) (\<lambda>r t. r = 1 \<and>
     (\<exists>p \<in> {0x80102000, 0x80103000}. pte (mem t) 0x80101000 0x3000 = V2P p OR 7))"
proof -
  have "aligned 0x3000" "pte (mem two_free) 0x80101000 0x3000 AND PTE_P = 0"
    "2 \<le> length [0x80102000 :: u32, 0x80103000]"
    by (simp_all add: aligned_def pte_def two_free_no_pt)
  from page_fault_maps_fresh_zero_page [OF two_free_rep two_free_wf this] show ?thesis
    by (rule returns_mono) (auto simp: PGROUNDDOWN_def)
qed

text \<open>C6: called for a page that already has a present entry (a fault on a page the user may not access,
  such as a kernel page or the stack guard page) the page fault handler panics, whatever the
  process is entitled to, as soon as a page is free.\<close>

theorem page_fault_present_panics:
  assumes "kmem_rep s xs" and "vm_wf s pd xs" and "xs \<noteq> []" and "pte (mem s) pd va AND PTE_P \<noteq> 0"
  shows "page_fault_handler pd va s = Panic ''remap''"
proof -
  obtain x ys where xs: "xs = x # ys"
    using assms(3) by (cases xs) auto
  note rep = assms(1) [unfolded xs] and wf = assms(2) [unfolded xs]
  have "mappages pd va 4096 (V2P x) 6 (take_zero x s) = Panic ''remap''"
    using take_zero_wf(1,2) [OF rep wf] assms(4) by (intro mappages_remap) auto
  then show ?thesis
    by (simp add: page_fault_unfold [OF rep])
qed

text \<open>A directory in which the page \<open>0x3000\<close> is mapped: the page table is at \<open>0x80102000\<close>.\<close>

definition one_mapped :: con where
  "one_mapped = boot_con\<lparr>mem := store32 (store32 (\<lambda>_. 0) 0x80101000 0x102007) 0x8010200C 0x104005, freelist := 0x80103000\<rparr>"

lemma one_mapped_load:
  "al4 a \<Longrightarrow> load32 (mem one_mapped) a = (if a = 0x8010200C then 0x104005 else if a = 0x80101000 then 0x102007 else 0)"
  by (simp add: one_mapped_def load32_store32_if al4_def)

lemma one_mapped_pdev: "pdev (mem one_mapped) 0x80101000 va = (if PDX va = 0 then 0x102007 else 0)"
proof -
  have al: "aligned 0x80101000"
    by (simp add: aligned_def)
  then have "al4 (0x80101000 + 4 * PDX va)" "PGROUNDDOWN (0x80101000 + 4 * PDX va) = 0x80101000"
    by (simp_all add: al4_index PGROUNDDOWN_index PDX_le)
  moreover have "PGROUNDDOWN 0x8010200C = 0x80102000"
    by (simp add: PGROUNDDOWN_def)
  moreover have "0x80101000 + 4 * PDX va = 0x80101000 \<longleftrightarrow> PDX va = 0"
    using index4_inj [OF PDX_le, of 0 "0x80101000" va] by simp
  ultimately show ?thesis
    unfolding pdev_def by (subst one_mapped_load) auto
qed

lemma one_mapped_wf: "vm_wf one_mapped 0x80101000 [0x80103000]"
  unfolding vm_wf_def has_pt_def ptab_def one_mapped_pdev
  by (auto simp: P2V_def PTE_ADDR_def page_ok_def one_mapped_def boot_con_def V2P_def aligned_def split: if_splits)

lemma one_mapped_rep: "kmem_rep one_mapped [0x80103000]"
proof -
  have "al4 0x80103000"
    by (simp add: al4_def)
  then have "load32 (mem one_mapped) 0x80103000 = 0"
    by (simp add: one_mapped_load)
  then show ?thesis
    by (simp add: kmem_rep_def kmem_quiet_def free_list_def one_mapped_def boot_con_def boot_core_ok
        page_ok_def V2P_def aligned_def)
qed

theorem page_fault_present_panics_witness: "page_fault_handler 0x80101000 0x3000 one_mapped = Panic ''remap''"
proof (rule page_fault_present_panics [OF one_mapped_rep one_mapped_wf])
  have "al4 0x8010200C"
    by (simp add: al4_def)
  then have "load32 (mem one_mapped) 0x8010200C = 0x104005"
    by (simp add: one_mapped_load)
  then have "pte (mem one_mapped) 0x80101000 0x3000 = 0x104005"
    by (simp add: pte_def has_pt_def ptab_def one_mapped_pdev P2V_def PTE_ADDR_def PDX_def PTX_def)
  then show "pte (mem one_mapped) 0x80101000 0x3000 AND PTE_P \<noteq> 0"
    by simp
qed simp

end
