(* ===== verification/Aspace.thy ===== *)
theory Aspace
  imports Uvm
begin

section \<open>Growing, shrinking and freeing address spaces\<close>

text \<open>
  \<open>as_wf\<close> is the invariant of a process's address space; the lemmas show that \<open>deallocuvm\<close>, \<open>allocuvm\<close>
  and \<open>freevm\<close> return, keep it, and move exactly the right pages between the address space
  and the free list.
\<close>

definition present :: "ram \<Rightarrow> u32 \<Rightarrow> u32 \<Rightarrow> bool" where
  "present m pd va \<longleftrightarrow> pte m pd va AND PTE_P \<noteq> 0"

definition upage :: "ram \<Rightarrow> u32 \<Rightarrow> u32 \<Rightarrow> u32" where
  "upage m pd va = P2V (PTE_ADDR (pte m pd va))"

definition upages :: "ram \<Rightarrow> u32 \<Rightarrow> u32 set" where
  "upages m pd = upage m pd ` {va. va < KERNBASE \<and> present m pd va}"

definition as_wf :: "'a mach_scheme \<Rightarrow> u32 \<Rightarrow> u32 list \<Rightarrow> bool" where
  "as_wf s pd xs \<longleftrightarrow> vm_wf s pd xs \<and> KERNBASE < kend s \<and>
     (\<forall>va < KERNBASE. present (mem s) pd va \<longrightarrow> page_ok s (upage (mem s) pd va) \<and>
        upage (mem s) pd va \<notin> tables (mem s) pd \<and> upage (mem s) pd va \<notin> set xs) \<and>
     (\<forall>va < KERNBASE. \<forall>va' < KERNBASE. present (mem s) pd va \<longrightarrow> present (mem s) pd va' \<longrightarrow>
        upage (mem s) pd va = upage (mem s) pd va' \<longrightarrow> PGROUNDDOWN va = PGROUNDDOWN va')"

lemma as_wfD:
  assumes "as_wf s pd xs"
  shows "vm_wf s pd xs" "KERNBASE < kend s"
    "va < KERNBASE \<Longrightarrow> present (mem s) pd va \<Longrightarrow> page_ok s (upage (mem s) pd va)"
    "va < KERNBASE \<Longrightarrow> present (mem s) pd va \<Longrightarrow> upage (mem s) pd va \<notin> tables (mem s) pd"
    "va < KERNBASE \<Longrightarrow> present (mem s) pd va \<Longrightarrow> upage (mem s) pd va \<notin> set xs"
    "va < KERNBASE \<Longrightarrow> va' < KERNBASE \<Longrightarrow> present (mem s) pd va \<Longrightarrow> present (mem s) pd va' \<Longrightarrow>
      upage (mem s) pd va = upage (mem s) pd va' \<Longrightarrow> PGROUNDDOWN va = PGROUNDDOWN va'"
  using assms unfolding as_wf_def by blast+

lemma present_same_page: "PGROUNDDOWN a = PGROUNDDOWN b \<Longrightarrow> present m pd a = present m pd b"
  by (simp add: present_def pte_same_page [of a b])

lemma upages_iff: "p \<in> upages m pd \<longleftrightarrow> (\<exists>va < KERNBASE. present m pd va \<and> p = upage m pd va)"
  by (auto simp: upages_def)

text \<open>The invariant depends on the entries, the tables and the free list only.\<close>

lemma as_wf_transfer:
  assumes "as_wf s pd xs" and "vm_wf t pd ys" and "kend t = kend s" and "tables (mem t) pd \<subseteq> tables (mem s) pd \<union> N"
    and "\<And>va. va < KERNBASE \<Longrightarrow> present (mem t) pd va \<Longrightarrow> pte (mem t) pd va = pte (mem s) pd va"
    and "\<And>va. va < KERNBASE \<Longrightarrow> present (mem t) pd va \<Longrightarrow> upage (mem s) pd va \<notin> N \<union> set ys"
  shows "as_wf t pd ys"
proof -
  have pok: "page_ok t = page_ok s"
    using assms(3) by (simp add: page_ok_def fun_eq_iff)
  have tr: "present (mem s) pd va" "upage (mem t) pd va = upage (mem s) pd va"
    if "va < KERNBASE" "present (mem t) pd va" for va
    using assms(5) [OF that] that(2) by (simp_all add: present_def upage_def)
  show ?thesis
    unfolding as_wf_def pok assms(3)
  proof (intro conjI allI impI)
    fix va
    assume va: "va < KERNBASE" "present (mem t) pd va"
    note tr = tr [OF va]
    show "page_ok s (upage (mem t) pd va)" "upage (mem t) pd va \<notin> tables (mem t) pd" "upage (mem t) pd va \<notin> set ys"
      using as_wfD(3,4) [OF assms(1) va(1) tr(1)] assms(4) assms(6) [OF va] tr(2) by auto
  next
    fix va va'
    assume "va < KERNBASE" "va' < KERNBASE" "present (mem t) pd va" "present (mem t) pd va'"
      "upage (mem t) pd va = upage (mem t) pd va'"
    then show "PGROUNDDOWN va = PGROUNDDOWN va'"
      using as_wfD(6) [OF assms(1)] tr by metis
  qed (use assms(1,2) as_wfD(2) in auto)
qed

lemma vm_wf_Cons:
  assumes "vm_wf s pd xs" and "p \<notin> tables (mem s) pd"
  shows "vm_wf s pd (p # xs)"
proof -
  show ?thesis
    using assms unfolding vm_wf_def tables_def by (simp only: list.set insert_iff) blast
qed

subsection \<open>Removing a page\<close>

definition unmap :: "u32 \<Rightarrow> u32 \<Rightarrow> 'a mach_scheme \<Rightarrow> 'a mach_scheme" where
  "unmap pd a s = (let p = upage (mem s) pd a in
     s\<lparr>freelist := p,
       mem := store32 (store32 (memset p 1 4096 (mem s)) p (freelist s)) (ptab (mem s) pd a + 4 * PTX a) 0\<rparr>)"

lemma present_has_pt: "present m pd va \<Longrightarrow> has_pt m pd va"
  by (auto simp: present_def pte_def split: if_splits)

lemma unmap_ok:
  assumes wf: "as_wf s pd xs" and rep: "kmem_rep s xs" and a: "a < KERNBASE" "present (mem s) pd a"
  defines "p \<equiv> upage (mem s) pd a" and "t \<equiv> unmap pd a s"
  shows "kfree p s = Ok () (s\<lparr>mem := store32 (memset p 1 4096 (mem s)) p (freelist s), freelist := p\<rparr>)"
    and "kmem_rep t (p # xs)" and "as_wf t pd (p # xs)"
    and "pte (mem t) pd = (\<lambda>va. if PGROUNDDOWN va = PGROUNDDOWN a then 0 else pte (mem s) pd va)"
    and "tables (mem t) pd = tables (mem s) pd" and "has_pt (mem t) pd = has_pt (mem s) pd"
    and "\<And>b. PGROUNDDOWN b \<notin> tables (mem s) pd \<Longrightarrow> PGROUNDDOWN b \<noteq> p \<Longrightarrow> mem t b = mem s b"
proof -
  have p: "page_ok s p" "p \<notin> tables (mem s) pd" "p \<notin> set xs"
    unfolding p_def using as_wfD(3-5) [OF wf a] by auto
  have vwf: "vm_wf s pd xs"
    by (rule as_wfD(1) [OF wf])
  define u where "u = s\<lparr>mem := store32 (memset p 1 4096 (mem s)) p (freelist s), freelist := p\<rparr>"
  show "kfree p s = Ok () (s\<lparr>mem := store32 (memset p 1 4096 (mem s)) p (freelist s), freelist := p\<rparr>)"
    using kfree_ok [of s p] rep p(1) by (simp add: kmem_rep_def)
  have urep: "kmem_rep u (p # xs)"
    using kfree_list [of s xs p] rep p by (simp add: kmem_rep_def kmem_quiet_def u_def)
  have um: "mem u b = mem s b" if "PGROUNDDOWN b \<noteq> p" for b
    using kfree_mem [OF p(1) that] by (simp add: u_def)
  have ut: "mem u b = mem s b" if "PGROUNDDOWN b \<in> tables (mem s) pd" for b
    using um [of b] that p(2) by metis
  note tf = tables_frame [OF vm_wfD(2) [OF vwf] ut]
  have "vm_wf u pd xs"
    by (rule vm_wf_frame [OF vwf ut]) (simp_all add: u_def)
  then have uwf: "vm_wf u pd (p # xs)"
    using p(2) tf by (intro vm_wf_Cons) simp_all
  have hp: "has_pt (mem u) pd a"
    using present_has_pt [OF a(2)] tf by simp
  have t: "t = u\<lparr>mem := store32 (mem u) (ptab (mem u) pd a + 4 * PTX a) 0\<rparr>"
    by (simp add: t_def unmap_def u_def p_def [symmetric] Let_def tf [unfolded u_def, simplified])
  note st = store_pte [OF uwf hp, where v = 0]
  have gr: "grown u pd [] (p # xs) t"
    unfolding t by (rule store_pte_ext [OF urep uwf hp])
  show trep: "kmem_rep t (p # xs)"
    using grownD [OF gr] by simp
  show pt: "pte (mem t) pd = (\<lambda>va. if PGROUNDDOWN va = PGROUNDDOWN a then 0 else pte (mem s) pd va)"
    using st(4) tf by (simp add: t fun_eq_iff)
  show tt: "tables (mem t) pd = tables (mem s) pd" and "has_pt (mem t) pd = has_pt (mem s) pd"
    using st(2,6) tf by (simp_all add: t)
  show "mem t b = mem s b" if "PGROUNDDOWN b \<notin> tables (mem s) pd" "PGROUNDDOWN b \<noteq> p" for b
    using gr um that tf by (simp add: grown_def)
  show "as_wf t pd (p # xs)"
  proof (rule as_wf_transfer [OF wf, where N = "{}"])
    fix va
    assume va: "va < KERNBASE" "present (mem t) pd va"
    then have ne: "PGROUNDDOWN va \<noteq> PGROUNDDOWN a"
      by (auto simp: present_def pt)
    then show e: "pte (mem t) pd va = pte (mem s) pd va"
      by (simp add: pt)
    then have pr: "present (mem s) pd va"
      using va by (simp add: present_def)
    show "upage (mem s) pd va \<notin> {} \<union> set (p # xs)"
      using as_wfD(5) [OF wf va(1) pr] as_wfD(6) [OF wf va(1) a(1) pr a(2)] ne unfolding p_def by auto
  qed (use grownD [OF gr] tt in \<open>simp_all add: u_def\<close>)
qed

subsection \<open>deallocuvm\<close>

text \<open>
  \<open>shrunk s pd R t ys\<close>: the entries of the pages in \<open>R\<close> were removed on the way from \<open>s\<close> to \<open>t\<close>; the pages
  they referred to, \<open>ys\<close>, are now free, and nothing but them and the tables changed.
\<close>

definition shrunk :: "'a mach_scheme \<Rightarrow> u32 \<Rightarrow> u32 set \<Rightarrow> 'a mach_scheme \<Rightarrow> u32 list \<Rightarrow> bool" where
  "shrunk s pd R t ys \<longleftrightarrow> t = s\<lparr>freelist := freelist t, mem := mem t\<rparr> \<and>
     pte (mem t) pd = (\<lambda>va. if va \<in> R \<and> present (mem s) pd va then 0 else pte (mem s) pd va) \<and>
     set ys = upage (mem s) pd ` {va \<in> R. present (mem s) pd va} \<and>
     tables (mem t) pd = tables (mem s) pd \<and> has_pt (mem t) pd = has_pt (mem s) pd \<and>
     (\<forall>b. PGROUNDDOWN b \<notin> tables (mem s) pd \<union> set ys \<longrightarrow> mem t b = mem s b)"

lemma shrunk_none: "\<forall>va \<in> R. \<not> present (mem s) pd va \<Longrightarrow> shrunk s pd R s []"
  by (auto simp: shrunk_def fun_eq_iff)

lemma shrunk_trans:
  assumes s: "shrunk s pd R t ys" and t: "shrunk t pd R' u zs"
  shows "shrunk s pd (R \<union> R') u (zs @ ys)"
proof -
  have pt: "pte (mem t) pd va = (if va \<in> R \<and> present (mem s) pd va then 0 else pte (mem s) pd va)" for va
    using s by (simp add: shrunk_def)
  then have p: "present (mem t) pd va \<longleftrightarrow> va \<notin> R \<and> present (mem s) pd va" for va
    by (auto simp: present_def)
  have "upage (mem t) pd va = upage (mem s) pd va" if "present (mem t) pd va" for va
    using that p pt by (simp add: upage_def)
  then have "upage (mem t) pd ` {va \<in> R'. present (mem t) pd va} =
      upage (mem s) pd ` {va \<in> R'. va \<notin> R \<and> present (mem s) pd va}"
    by (intro image_cong) (auto simp: p)
  then have ys: "set (zs @ ys) = upage (mem s) pd ` {va \<in> R \<union> R'. present (mem s) pd va}"
    using s t by (auto simp: shrunk_def)
  have tu: "t = s\<lparr>freelist := freelist t, mem := mem t\<rparr>" "u = t\<lparr>freelist := freelist u, mem := mem u\<rparr>"
    using s t by (simp_all add: shrunk_def)
  have us: "u = s\<lparr>freelist := freelist u, mem := mem u\<rparr>"
    by (subst tu(2), subst tu(1)) simp
  have pu: "pte (mem u) pd = (\<lambda>va. if va \<in> R \<union> R' \<and> present (mem s) pd va then 0 else pte (mem s) pd va)"
    using s t by (auto simp: shrunk_def p fun_eq_iff)
  have mu: "mem u b = mem s b" if "PGROUNDDOWN b \<notin> tables (mem s) pd \<union> set (zs @ ys)" for b
    using s t that by (simp add: shrunk_def)
  have tb: "tables (mem u) pd = tables (mem s) pd" "has_pt (mem u) pd = has_pt (mem s) pd"
    using s t by (simp_all add: shrunk_def)
  show ?thesis
    unfolding shrunk_def by (intro conjI allI impI us pu ys mu tb)
qed

lemma unmap_shrunk:
  assumes "as_wf s pd xs" and "kmem_rep s xs" and "a < KERNBASE" and "present (mem s) pd a"
  shows "shrunk s pd {va. PGROUNDDOWN va = PGROUNDDOWN a} (unmap pd a s) [upage (mem s) pd a]"
proof -
  note u = unmap_ok [OF assms]
  have sp: "present (mem s) pd va" "upage (mem s) pd va = upage (mem s) pd a" if "PGROUNDDOWN va = PGROUNDDOWN a" for va
    using pte_same_page [OF that] assms(4) by (simp_all add: present_def upage_def)
  have im: "set [upage (mem s) pd a] =
      upage (mem s) pd ` {va \<in> {va. PGROUNDDOWN va = PGROUNDDOWN a}. present (mem s) pd va}"
  proof -
    have "upage (mem s) pd a \<in> upage (mem s) pd ` {va. PGROUNDDOWN va = PGROUNDDOWN a \<and> present (mem s) pd va}"
      using assms(4) by blast
    moreover have "x = upage (mem s) pd a"
      if "x \<in> upage (mem s) pd ` {va. PGROUNDDOWN va = PGROUNDDOWN a \<and> present (mem s) pd va}" for x
      using that sp(2) by blast
    ultimately show ?thesis
      unfolding list.set mem_Collect_eq by blast
  qed
  have pt: "pte (mem (unmap pd a s)) pd = (\<lambda>va. if va \<in> {va. PGROUNDDOWN va = PGROUNDDOWN a} \<and>
      present (mem s) pd va then 0 else pte (mem s) pd va)"
    unfolding u(4) by (rule ext) (use sp(1) in auto)
  have us: "unmap pd a s = s\<lparr>freelist := freelist (unmap pd a s), mem := mem (unmap pd a s)\<rparr>"
    by (simp add: unmap_def Let_def)
  have mu: "mem (unmap pd a s) b = mem s b"
    if "PGROUNDDOWN b \<notin> tables (mem s) pd \<union> set [upage (mem s) pd a]" for b
    using that by (intro u(7)) auto
  show ?thesis
    unfolding shrunk_def by (intro conjI allI impI us pt im mu u(5,6))
qed

text \<open>The pages from \<open>a\<close> on whose first byte is below \<open>sz\<close>.\<close>

definition urange :: "u32 \<Rightarrow> u32 \<Rightarrow> u32 set" where
  "urange a sz = {va. a \<le> PGROUNDDOWN va \<and> PGROUNDDOWN va < sz}"

lemma aligned_step:
  assumes "aligned a" and "aligned b" and "a \<le> b" and "b \<noteq> a"
  shows "unat a + 4096 \<le> unat b"
proof -
  have "unat a < unat b"
    using assms(3,4) by (simp add: word_le_nat_alt word_unat_eq_iff)
  moreover obtain k l where "unat a = 4096 * k" "unat b = 4096 * l"
    using aligned_div [OF assms(1)] aligned_div [OF assms(2)] by blast
  ultimately show ?thesis
    by simp
qed

lemma unat_add_page: "unat a \<le> 0x80000000 \<Longrightarrow> unat (a + 4096 :: u32) = unat a + 4096"
  by (simp add: unat_word_ariths)

lemma urange_step:
  assumes "aligned a" and "a < sz" and "unat a \<le> 0x80000000"
  shows "urange a sz = {va. PGROUNDDOWN va = PGROUNDDOWN a} \<union> urange (a + 4096) sz"
proof (rule set_eqI)
  fix va
  have a: "PGROUNDDOWN a = a"
    using assms(1) by (simp add: aligned_iff)
  have "a \<le> PGROUNDDOWN va \<longleftrightarrow> PGROUNDDOWN va = a \<or> a + 4096 \<le> PGROUNDDOWN va"
    using aligned_step [OF assms(1) aligned_PGROUNDDOWN, of va] unat_add_page [OF assms(3)]
    by (auto simp: word_le_nat_alt)
  then show "va \<in> urange a sz \<longleftrightarrow> va \<in> {va. PGROUNDDOWN va = PGROUNDDOWN a} \<union> urange (a + 4096) sz"
    using assms(2) by (auto simp: urange_def a)
qed

lemma urange_empty: "\<not> a < sz \<Longrightarrow> urange a sz = {}"
  by (auto simp: urange_def)

lemma unat_PDX_step:
  assumes "unat a < 0x80000000"
  shows "unat (PGADDR (PDX a + 1) 0 0) = (unat a div 4194304 + 1) * 4194304"
proof -
  have "unat a div 4194304 < 512"
    using assms by simp
  then have "unat (PDX a + 1) = unat a div 4194304 + 1"
    using unat_PDX [of a] by (simp add: unat_word_ariths)
  moreover have "PGADDR (PDX a + 1) 0 0 = push_bit 22 (PDX a + 1)"
    by (simp add: PGADDR_def)
  moreover have "push_bit 22 (PDX a + 1) = 4194304 * (PDX a + 1)"
    by (simp add: push_bit_eq_mult)
  moreover have "unat (4194304 * x) = 4194304 * unat x" if "unat x \<le> 512" for x :: u32
    using that by (simp add: unat_word_ariths)
  ultimately show ?thesis
    using \<open>unat a div 4194304 < 512\<close> by (simp only:)
qed

lemma no_pt_gap:
  assumes "\<not> has_pt m pd a" and "a \<le> PGROUNDDOWN va" and "unat (PGROUNDDOWN va) < (unat a div 4194304 + 1) * 4194304"
  shows "\<not> present m pd va"
proof -
  have "unat (PGROUNDDOWN va) div 4194304 = unat a div 4194304"
  proof (rule antisym)
    show "unat (PGROUNDDOWN va) div 4194304 \<le> unat a div 4194304"
      using assms(3) less_mult_imp_div_less [of "unat (PGROUNDDOWN va)" "unat a div 4194304 + 1" 4194304] by simp
    show "unat a div 4194304 \<le> unat (PGROUNDDOWN va) div 4194304"
      using assms(2) by (intro div_le_mono) (simp add: word_le_nat_alt)
  qed
  then have "PDX (PGROUNDDOWN va) = PDX a"
    by (simp add: word_unat_eq_iff unat_PDX)
  then have "PDX va = PDX a"
    using same_page_iff [of va "PGROUNDDOWN va"] by simp
  then show ?thesis
    using assms(1) has_pt_cong [of va a m pd] present_has_pt [of m pd va] by auto
qed

lemma urange_gap:
  assumes "\<not> has_pt m pd a" and "unat a < 0x80000000"
  obtains R where "urange a sz = R \<union> urange (PGADDR (PDX a + 1) 0 0) sz" "\<forall>va \<in> R. \<not> present m pd va"
proof -
  let ?b = "PGADDR (PDX a + 1) 0 0"
  have b: "unat ?b = (unat a div 4194304 + 1) * 4194304"
    by (rule unat_PDX_step [OF assms(2)])
  have "unat a < unat ?b"
    unfolding b using dividend_less_div_times [of 4194304 "unat a"] by simp
  then have "urange ?b sz \<subseteq> urange a sz"
    by (auto simp: urange_def word_le_nat_alt)
  moreover have "\<not> present m pd va" if "va \<in> urange a sz - urange ?b sz" for va
    using that by (intro no_pt_gap [OF assms(1)]) (auto simp: urange_def word_le_nat_alt b)
  ultimately show ?thesis
    using that [of "urange a sz - urange ?b sz"] by blast
qed

lemma deallocuvm_loop_ok:
  assumes "as_wf s pd xs" and "kmem_rep s xs" and "aligned a" and "unat oldsz \<le> 0x80000000"
    and "unat oldsz \<le> unat a + 4096 * n"
  shows "\<exists>t ys. deallocuvm_loop (Suc n) pd a oldsz s = Ok () t \<and> shrunk s pd (urange a oldsz) t ys \<and>
    as_wf t pd (ys @ xs) \<and> kmem_rep t (ys @ xs)"
  using assms
proof (induction n arbitrary: s xs a)
  case (0 s xs a)
  then have e: "\<not> a < oldsz"
    by (simp add: word_less_nat_alt)
  then show ?case
    using 0 shrunk_none [of "urange a oldsz" s pd] by (auto simp: urange_empty)
next
  case (Suc n s xs a)
  show ?case
  proof (cases "a < oldsz")
    case False
    then show ?thesis
      using Suc.prems shrunk_none [of "urange a oldsz" s pd] by (auto simp: urange_empty)
  next
    case lt: True
    then have a: "unat a < 0x80000000" "a < KERNBASE" "unat a \<le> 0x80000000"
      using Suc.prems(4) by (simp_all add: word_less_nat_alt)
    note next_page = unat_add_page [OF a(3)]
    have st: "unat oldsz \<le> unat (a + 4096) + 4096 * n" "aligned (a + 4096)"
      using Suc.prems(3,5) next_page by simp_all
    have wf: "vm_wf s pd xs"
      by (rule as_wfD(1) [OF Suc.prems(1)])
    show ?thesis
    proof (cases "has_pt (mem s) pd a")
      case False
      let ?b = "PGADDR (PDX a + 1) 0 0"
      obtain R where R: "urange a oldsz = R \<union> urange ?b oldsz" "\<forall>va \<in> R. \<not> present (mem s) pd va"
        using urange_gap [OF False a(1)] by blast
      have b: "unat ?b = (unat a div 4194304 + 1) * 4194304"
        by (rule unat_PDX_step [OF a(1)])
      have "unat a + 4096 \<le> unat ?b"
      proof (rule aligned_step [OF Suc.prems(3)])
        have "unat ?b mod 4096 = 0"
          by (simp add: b)
        then show "aligned ?b"
          by (simp add: aligned_unat)
        have "unat a < unat ?b"
          unfolding b using dividend_less_div_times [of 4194304 "unat a"] by simp
        then show "a \<le> ?b" "?b \<noteq> a"
          by (auto simp: word_le_nat_alt)
      qed
      moreover have "aligned ?b"
        by (simp add: aligned_unat b)
      ultimately obtain t ys where t: "deallocuvm_loop (Suc n) pd ?b oldsz s = Ok () t"
        "shrunk s pd (urange ?b oldsz) t ys" "as_wf t pd (ys @ xs)" "kmem_rep t (ys @ xs)"
        using Suc.IH [OF Suc.prems(1,2), of ?b] Suc.prems(4,5) by auto
      have "shrunk s pd (urange a oldsz) t (ys @ [])"
        unfolding R(1) by (rule shrunk_trans [OF shrunk_none [OF R(2)] t(2)])
      then show ?thesis
        using t lt walk_no_pt [OF False] by (auto simp del: deallocuvm_loop.simps simp: deallocuvm_loop.simps(2) [of "Suc n"])
    next
      case pt: True
      let ?e = "load32 (mem s) (ptab (mem s) pd a + 4 * PTX a)"
      have e: "?e = pte (mem s) pd a"
        using pt by (simp add: pte_def)
      note nz = pte_addr_nonzero [OF wf pt] and ur = urange_step [OF Suc.prems(3) lt a(3)]
      show ?thesis
      proof (cases "present (mem s) pd a")
        case False
        have np: "\<forall>va \<in> {va. PGROUNDDOWN va = PGROUNDDOWN a}. \<not> present (mem s) pd va"
          using False present_same_page by blast
        obtain t ys where t: "deallocuvm_loop (Suc n) pd (a + 4096) oldsz s = Ok () t"
          "shrunk s pd (urange (a + 4096) oldsz) t ys" "as_wf t pd (ys @ xs)" "kmem_rep t (ys @ xs)"
          using Suc.IH [OF Suc.prems(1,2) st(2) Suc.prems(4) st(1)] by blast
        have "deallocuvm_loop (Suc (Suc n)) pd a oldsz s = deallocuvm_loop (Suc n) pd (a + 4096) oldsz s"
          using False lt nz e by (subst deallocuvm_loop.simps(2)) (simp add: walk_has_pt [OF pt] present_def del: deallocuvm_loop.simps)
        moreover have "shrunk s pd (urange a oldsz) t (ys @ [])"
          unfolding ur by (rule shrunk_trans [OF shrunk_none [OF np] t(2)])
        ultimately show ?thesis
          using t by (auto simp del: deallocuvm_loop.simps)
      next
        case True
        note um = unmap_ok [OF Suc.prems(1,2) a(2) True]
        let ?p = "upage (mem s) pd a"
        have "KERNBASE < ?p"
          using as_wfD(2) [OF Suc.prems(1)] as_wfD(3) [OF Suc.prems(1) a(2) True] less_le_trans
          by (auto simp: page_ok_def)
        then have pa: "PTE_ADDR ?e \<noteq> 0" "P2V (PTE_ADDR ?e) = ?p"
          unfolding e by (auto simp: upage_def P2V_def)
        obtain t ys where t: "deallocuvm_loop (Suc n) pd (a + 4096) oldsz (unmap pd a s) = Ok () t"
          "shrunk (unmap pd a s) pd (urange (a + 4096) oldsz) t ys" "as_wf t pd (ys @ ?p # xs)" "kmem_rep t (ys @ ?p # xs)"
          using Suc.IH [OF um(3,2) st(2) Suc.prems(4) st(1)] by blast
        have "deallocuvm_loop (Suc (Suc n)) pd a oldsz s = deallocuvm_loop (Suc n) pd (a + 4096) oldsz (unmap pd a s)"
          using True lt nz e pa um(1)
          by (subst deallocuvm_loop.simps(2))
            (simp add: walk_has_pt [OF pt] present_def unmap_def Let_def del: deallocuvm_loop.simps)
        moreover have "shrunk s pd (urange a oldsz) t (ys @ [?p])"
          unfolding ur by (rule shrunk_trans [OF unmap_shrunk [OF Suc.prems(1,2) a(2) True] t(2)])
        ultimately show ?thesis
          using t by (intro exI [of _ t] exI [of _ "ys @ [?p]"]) (simp del: deallocuvm_loop.simps)
      qed
    qed
  qed
qed

lemma deallocuvm_ok:
  assumes "as_wf s pd xs" and "kmem_rep s xs" and "oldsz \<le> KERNBASE" and "newsz < oldsz"
  obtains t ys where "deallocuvm pd oldsz newsz s = Ok newsz t" "shrunk s pd (urange (PGROUNDUP newsz) oldsz) t ys"
    "as_wf t pd (ys @ xs)" "kmem_rep t (ys @ xs)"
proof -
  have "unat oldsz \<le> 0x80000000"
    using assms(3) by (simp add: word_le_nat_alt)
  moreover have "unat oldsz \<le> unat (PGROUNDUP newsz) + 4096 * (2 ^ 20 - 1)"
    using calculation by simp
  ultimately obtain t ys where "deallocuvm_loop (Suc (2 ^ 20 - 1)) pd (PGROUNDUP newsz) oldsz s = Ok () t"
    "shrunk s pd (urange (PGROUNDUP newsz) oldsz) t ys" "as_wf t pd (ys @ xs)" "kmem_rep t (ys @ xs)"
    using deallocuvm_loop_ok [OF assms(1,2) aligned_PGROUNDUP] by blast
  moreover from this(1) have "deallocuvm pd oldsz newsz s = Ok newsz t"
    using leD [of oldsz newsz] assms(4) by (auto simp: deallocuvm_def simp del: deallocuvm_loop.simps)
  ultimately show ?thesis
    using that [of t ys] by blast
qed

text \<open>C25: shrinking an address space: \<open>deallocuvm(pgdir, oldsz, newsz)\<close> with \<open>newsz < oldsz\<close> at most \<open>KERNBASE\<close>
  always returns \<open>newsz\<close>; it removes exactly the entries of the pages from \<open>PGROUNDUP(newsz)\<close> up to
  \<open>oldsz\<close>, puts exactly the pages these entries referred to on the free list, keeps every other
  entry, and keeps the invariant of the address space and of the allocator.\<close>

theorem deallocuvm_frees_range:
  assumes "as_wf s pd xs" and "kmem_rep s xs" and "oldsz \<le> KERNBASE" and "newsz < oldsz"
  shows "returns (deallocuvm pd oldsz newsz s) (\<lambda>r t. r = newsz \<and> (\<exists>ys.
    set ys = upage (mem s) pd ` {va \<in> urange (PGROUNDUP newsz) oldsz. present (mem s) pd va} \<and>
    kmem_rep t (ys @ xs) \<and> as_wf t pd (ys @ xs) \<and>
    (\<forall>va. pte (mem t) pd va =
      (if va \<in> urange (PGROUNDUP newsz) oldsz \<and> present (mem s) pd va then 0 else pte (mem s) pd va)) \<and>
    (\<forall>b. PGROUNDDOWN b \<notin> tables (mem s) pd \<union> set ys \<longrightarrow> mem t b = mem s b)))"
proof -
  obtain t ys where t: "deallocuvm pd oldsz newsz s = Ok newsz t" "shrunk s pd (urange (PGROUNDUP newsz) oldsz) t ys"
    "as_wf t pd (ys @ xs)" "kmem_rep t (ys @ xs)"
    using assms by (rule deallocuvm_ok)
  then show ?thesis
    unfolding shrunk_def by (simp only: t(1) returns_simps) blast
qed

text \<open>The directory of \<open>one_mapped\<close> maps the page \<open>0x3000\<close> to the page \<open>0x80104000\<close>.\<close>

lemma one_mapped_pte: "pte (mem one_mapped) 0x80101000 va = (if PGROUNDDOWN va = 0x3000 then 0x104005 else 0)"
proof -
  have "PDX 0x3000 = 0" "PTX 0x3000 = 3" "PGROUNDDOWN 0x3000 = 0x3000"
    by (simp_all add: PDX_def PTX_def PGROUNDDOWN_def)
  then have pg: "PGROUNDDOWN va = 0x3000 \<longleftrightarrow> PDX va = 0 \<and> PTX va = 3"
    using same_page_iff [of va "0x3000"] by simp
  have "aligned 0x80102000"
    by (simp add: aligned_def)
  then have al: "al4 (0x80102000 + 4 * PTX va)" and "PGROUNDDOWN (0x80102000 + 4 * PTX va) = 0x80102000"
    by (simp_all add: al4_index PGROUNDDOWN_index PTX_le)
  moreover have "PGROUNDDOWN 0x80101000 = 0x80101000"
    by (simp add: PGROUNDDOWN_def)
  moreover have "(0x80102000 :: u32) \<noteq> 0x80101000"
    by simp
  ultimately have ne: "0x80102000 + 4 * PTX va \<noteq> 0x80101000"
    by metis
  have "0x80102000 + 4 * PTX va = 0x8010200C \<longleftrightarrow> PTX va = 3"
    using index4_inj [OF PTX_le, of 3 "0x80102000" va] by simp
  then have "load32 (mem one_mapped) (0x80102000 + 4 * PTX va) = (if PTX va = 3 then 0x104005 else 0)"
    by (simp only: one_mapped_load [OF al] ne if_False)
  moreover have "ptab (mem one_mapped) 0x80101000 va = 0x80102000" "has_pt (mem one_mapped) 0x80101000 va" if "PDX va = 0"
    using that by (simp_all add: ptab_def has_pt_def one_mapped_pdev P2V_def PTE_ADDR_def)
  moreover have "\<not> has_pt (mem one_mapped) 0x80101000 va" if "PDX va \<noteq> 0"
    using that by (simp add: has_pt_def one_mapped_pdev)
  ultimately show ?thesis
    by (cases "PDX va = 0") (simp_all add: pte_def pg)
qed

lemma one_mapped_as_wf: "as_wf one_mapped 0x80101000 [0x80103000]"
proof -
  have pr: "present (mem one_mapped) 0x80101000 va \<longleftrightarrow> PGROUNDDOWN va = 0x3000" for va
    by (simp add: present_def one_mapped_pte)
  have up: "upage (mem one_mapped) 0x80101000 va = 0x80104000" if "PGROUNDDOWN va = 0x3000" for va
    using that by (simp add: upage_def one_mapped_pte P2V_def PTE_ADDR_def)
  have "tables (mem one_mapped) 0x80101000 \<subseteq> {0x80101000, 0x80102000}"
    by (auto simp: tables_def has_pt_def ptab_def one_mapped_pdev P2V_def PTE_ADDR_def split: if_splits)
  then have "0x80104000 \<notin> tables (mem one_mapped) 0x80101000"
    by auto
  then show ?thesis
    unfolding as_wf_def pr using one_mapped_wf
    by (auto simp: up) (simp_all add: one_mapped_def boot_con_def page_ok_def V2P_def aligned_def)
qed

theorem deallocuvm_frees_range_witness:
  "returns (deallocuvm 0x80101000 0x4000 0x1000 one_mapped) (\<lambda>r t. r = 0x1000 \<and>
     pte (mem t) 0x80101000 0x3000 = 0 \<and> (\<exists>ys. 0x80104000 \<in> set ys \<and> kmem_rep t (ys @ [0x80103000])))"
proof -
  have in_r: "0x3000 \<in> urange (PGROUNDUP 0x1000) 0x4000"
    by (simp add: urange_def PGROUNDUP_def PGROUNDDOWN_def)
  have pr: "present (mem one_mapped) 0x80101000 0x3000" "upage (mem one_mapped) 0x80101000 0x3000 = 0x80104000"
    by (simp_all add: present_def upage_def one_mapped_pte PGROUNDDOWN_def P2V_def PTE_ADDR_def)
  have "(0x4000 :: u32) \<le> KERNBASE" "(0x1000 :: u32) < 0x4000"
    by simp_all
  from deallocuvm_frees_range [OF one_mapped_as_wf one_mapped_rep this] show ?thesis
    by (rule returns_mono) (use in_r pr in force)
qed

end
