(* ===== verification/Proc.thy ===== *)
theory Proc
  imports Aspace
begin

section \<open>Processes and scheduling: proc.c and proc.h\<close>

text \<open>
  The record \<open>kproc\<close> adds the process table, \<open>nextpid\<close> and \<open>initproc\<close>.  A pointer to a process is its
  index in the table, \<open>None\<close> for the null pointer.  The trap frame and the saved context of a
  process, which the C code keeps on the process's kernel stack, are held by value; \<open>kintena\<close> is the
  local variable \<open>intena\<close> of \<open>sched()\<close> on that stack.  A code address in a context is \<open>K_forkret\<close>,
  \<open>K_trapret\<close> or a place in kernel code behind a call of \<open>swtch\<close>.  \<open>null_proc\<close> is what the bytes at
  address 0 look like when they are read as a \<open>struct proc\<close>, for code that follows a null pointer.
  Pids are C ints: \<open>cint\<close> is the wrap-around of \<open>nextpid++\<close> at \<open>2\<^sup>31\<close>.

  \<open>swtch\<close> in \<open>sched()\<close> is the outcome \<open>Switch\<close>: the calling thread stops there.  What it does when
  it runs again is a definition of its own (\<open>sched_resume\<close>, \<open>sleep_resume\<close>, \<open>yield_resume\<close>).
  The operations that use files and inodes (\<open>fork\<close>, \<open>exit\<close>, \<open>userinit\<close>, \<open>forkret\<close>) are in the theory of the
  process life cycle.
\<close>

datatype procstate = UNUSED | EMBRYO | SLEEPING | RUNNABLE | RUNNING | ZOMBIE

datatype chan =
    Ch_proc "nat option" | Ch_ticks | Ch_buf nat | Ch_slock lockid | Ch_log
  | Ch_nread addr | Ch_nwrite addr | Ch_input

datatype kcode = K_forkret | K_trapret | K_kernel

record trapframe =
  t_edi :: u32
  t_esi :: u32
  t_ebp :: u32
  t_oesp :: u32
  t_ebx :: u32
  t_edx :: u32
  t_ecx :: u32
  t_eax :: u32
  t_gs :: u16
  t_fs :: u16
  t_es :: u16
  t_ds :: u16
  trapno :: u32
  t_err :: u32
  t_eip :: u32
  t_cs :: u16
  t_eflags :: u32
  t_esp :: u32
  t_ss :: u16

record ctxt =
  c_edi :: u32
  c_esi :: u32
  c_ebx :: u32
  c_ebp :: u32
  c_eip :: kcode

record proc =
  sz :: u32
  pgdir :: u32
  kstack :: u32
  pstate :: procstate
  pid :: int
  parent :: "nat option"
  tf :: trapframe
  pcontext :: ctxt
  ctx_ret :: kcode
  pchan :: "chan option"
  killed :: bool
  ofile :: "nat option list"
  cwd :: "nat option"
  pname :: "u8 list"
  kintena :: bool

record kproc = vm +
  procs :: "proc list"
  nextpid :: int
  initproc :: "nat option"
  null_proc :: proc

abbreviation (input) NPROC :: nat where "NPROC \<equiv> 64"
abbreviation (input) NOFILE :: nat where "NOFILE \<equiv> 16"

definition upd_proc :: "nat \<Rightarrow> (proc \<Rightarrow> proc) \<Rightarrow> 'a kproc_scheme \<Rightarrow> 'a kproc_scheme" where
  "upd_proc i f s = s\<lparr>procs := (procs s)[i := f (procs s ! i)]\<rparr>"

definition procat :: "nat option \<Rightarrow> 'a kproc_scheme \<Rightarrow> proc" where
  "procat p s = (case p of None \<Rightarrow> null_proc s | Some i \<Rightarrow> procs s ! i)"

definition pinit :: "'a kproc_scheme \<Rightarrow> 'a kproc_scheme" where
  "pinit s = s\<lparr>core := initlock L_ptable (core s)\<rparr>"

definition cur :: "'a kproc_scheme \<Rightarrow> (nat option, 'a kproc_scheme) res" where
  "cur s = on_core myproc s"

subsection \<open>Creating a process\<close>

definition cint :: "int \<Rightarrow> int" where
  "cint n = sint (word_of_int n :: u32)"

lemma cint_id [simp]: "- (2 ^ 31) \<le> n \<Longrightarrow> n < 2 ^ 31 \<Longrightarrow> cint n = n"
  by (simp add: cint_def signed_of_int signed_take_bit_int_eq_self)

definition zero_ctxt :: ctxt where
  "zero_ctxt = \<lparr>c_edi = 0, c_esi = 0, c_ebx = 0, c_ebp = 0, c_eip = K_kernel\<rparr>"

definition allocproc :: "'a kproc_scheme \<Rightarrow> (nat option, 'a kproc_scheme) res" where
  "allocproc s =
     bnd (on_core (acquire L_ptable) s) (\<lambda>_ s.
     case find_idx (\<lambda>p. pstate p = UNUSED) (procs s) of
       None \<Rightarrow> bnd (on_core (release L_ptable) s) (\<lambda>_ s. Ok None s)
     | Some p \<Rightarrow>
         let s = upd_proc p (\<lambda>q. q\<lparr>pstate := EMBRYO, pid := nextpid s\<rparr>) s;
             s = s\<lparr>nextpid := cint (nextpid s + 1)\<rparr> in
         bnd (on_core (release L_ptable) s) (\<lambda>_ s.
         bnd (kalloc s) (\<lambda>k s.
         let s = upd_proc p (\<lambda>q. q\<lparr>kstack := k\<rparr>) s in
         if k = 0 then Ok None (upd_proc p (\<lambda>q. q\<lparr>pstate := UNUSED\<rparr>) s)
         else Ok (Some p) (upd_proc p (\<lambda>q. q\<lparr>ctx_ret := K_trapret, pcontext := zero_ctxt\<lparr>c_eip := K_forkret\<rparr>\<rparr>) s))))"

subsection \<open>Address space of the current process\<close>

definition switchuvm :: "nat option \<Rightarrow> 'a kproc_scheme \<Rightarrow> (unit, 'a kproc_scheme) res" where
  "switchuvm p s =
     (case p of None \<Rightarrow> Panic ''switchuvm: no process'' | Some i \<Rightarrow>
      if kstack (procs s ! i) = 0 then Panic ''switchuvm: no kstack''
      else if pgdir (procs s ! i) = 0 then Panic ''switchuvm: no pgdir''
      else
        bnd (on_core pushcli s) (\<lambda>_ s.
        bnd (on_core mycpu s) (\<lambda>c s.
        let tss = (SEG16 STS_T32A (ts_addr s c) 103 0)\<lparr>sd_s := 0\<rparr>;
            t = \<lparr>esp0 = kstack (procs s ! i) + KSTACKSIZE, ss0 = 16, iomb = 0xFFFF\<rparr>;
            s = s\<lparr>core := upd_cpu c (\<lambda>cp. cp\<lparr>gdt := (gdt cp)[SEG_TSS := tss], ts := t\<rparr>) (core s)\<rparr>;
            s = s\<lparr>core := lcr3 (V2P (pgdir (procs s ! i))) (core s)\<rparr> in
        on_core popcli s)))"

definition growproc :: "int \<Rightarrow> 'a kproc_scheme \<Rightarrow> (int, 'a kproc_scheme) res" where
  "growproc n s =
     bnd (cur s) (\<lambda>p s.
     let curproc = the p;
         sz0 = sz (procs s ! curproc);
         pd = pgdir (procs s ! curproc) in
     bnd (if n > 0 then allocuvm pd sz0 (sz0 + word_of_int n) s
          else if n < 0 then deallocuvm pd sz0 (sz0 + word_of_int n) s
          else Ok sz0 s) (\<lambda>sz1 s.
     if n \<noteq> 0 \<and> sz1 = 0 then Ok (- 1) s
     else
       let s = upd_proc curproc (\<lambda>q. q\<lparr>sz := sz1\<rparr>) s in
       bnd (switchuvm p s) (\<lambda>_ s. Ok 0 s)))"

subsection \<open>Giving up the processor\<close>

definition sched :: "'a kproc_scheme \<Rightarrow> ('r, 'a kproc_scheme) res" where
  "sched s =
     bnd (cur s) (\<lambda>p s.
     bnd (on_core (holding L_ptable) s) (\<lambda>h s.
     if \<not> h then Panic ''sched ptable.lock'' else
     bnd (on_core mycpu s) (\<lambda>c s.
     if ncli (cpus (core s) ! c) \<noteq> 1 then Panic ''sched locks''
     else if pstate (procat p s) = RUNNING then Panic ''sched running''
     else if readeflags (core s) then Panic ''sched interruptible''
     else Switch (upd_proc (the p) (\<lambda>q. q\<lparr>kintena := intena (cpus (core s) ! c), pcontext := (pcontext q)\<lparr>c_eip := K_kernel\<rparr>\<rparr>) s))))"

definition sched_resume :: "'a kproc_scheme \<Rightarrow> (unit, 'a kproc_scheme) res" where
  "sched_resume s =
     bnd (on_core mycpu s) (\<lambda>c s.
     let p = the (cproc (cpus (core s) ! c)) in
     Ok () (s\<lparr>core := upd_cpu c (\<lambda>cp. cp\<lparr>intena := kintena (procs s ! p)\<rparr>) (core s)\<rparr>))"

definition yield :: "'a kproc_scheme \<Rightarrow> (unit, 'a kproc_scheme) res" where
  "yield s =
     bnd (on_core (acquire L_ptable) s) (\<lambda>_ s.
     bnd (cur s) (\<lambda>p s.
     sched (upd_proc (the p) (\<lambda>q. q\<lparr>pstate := RUNNABLE\<rparr>) s)))"

definition yield_resume :: "'a kproc_scheme \<Rightarrow> (unit, 'a kproc_scheme) res" where
  "yield_resume s = bnd (sched_resume s) (\<lambda>_ s. on_core (release L_ptable) s)"

definition sleep :: "chan \<Rightarrow> lockid \<Rightarrow> 'a kproc_scheme \<Rightarrow> ('r, 'a kproc_scheme) res" where
  "sleep ch lk s =
     bnd (cur s) (\<lambda>p s.
     case p of None \<Rightarrow> Panic ''sleep'' | Some i \<Rightarrow>
     bnd (if lk \<noteq> L_ptable then
            bnd (on_core (acquire L_ptable) s) (\<lambda>_ s. on_core (release lk) s)
          else Ok () s) (\<lambda>_ s.
     sched (upd_proc i (\<lambda>q. q\<lparr>pchan := Some ch, pstate := SLEEPING\<rparr>) s)))"

definition sleep_resume :: "lockid \<Rightarrow> 'a kproc_scheme \<Rightarrow> (unit, 'a kproc_scheme) res" where
  "sleep_resume lk s =
     bnd (sched_resume s) (\<lambda>_ s.
     bnd (on_core mycpu s) (\<lambda>c s.
     let s = upd_proc (the (cproc (cpus (core s) ! c))) (\<lambda>q. q\<lparr>pchan := None\<rparr>) s in
     if lk \<noteq> L_ptable then
       bnd (on_core (release L_ptable) s) (\<lambda>_ s. on_core (acquire lk) s)
     else Ok () s))"

definition wake1 :: "chan \<Rightarrow> proc \<Rightarrow> proc" where
  "wake1 ch p = (if pstate p = SLEEPING \<and> pchan p = Some ch then p\<lparr>pstate := RUNNABLE\<rparr> else p)"

definition wakeup1 :: "chan \<Rightarrow> 'a kproc_scheme \<Rightarrow> 'a kproc_scheme" where
  "wakeup1 ch s = s\<lparr>procs := map (wake1 ch) (procs s)\<rparr>"

definition wakeup :: "chan \<Rightarrow> 'a kproc_scheme \<Rightarrow> (unit, 'a kproc_scheme) res" where
  "wakeup ch s =
     bnd (on_core (acquire L_ptable) s) (\<lambda>_ s.
     let s = wakeup1 ch s in
     on_core (release L_ptable) s)"

definition kill :: "int \<Rightarrow> 'a kproc_scheme \<Rightarrow> (int, 'a kproc_scheme) res" where
  "kill n s =
     bnd (on_core (acquire L_ptable) s) (\<lambda>_ s.
     case find_idx (\<lambda>p. pid p = n) (procs s) of
       Some i \<Rightarrow>
         let s = upd_proc i (\<lambda>p. p\<lparr>killed := True\<rparr>) s;
             s = upd_proc i (\<lambda>p. if pstate p = SLEEPING then p\<lparr>pstate := RUNNABLE\<rparr> else p) s in
         bnd (on_core (release L_ptable) s) (\<lambda>_ s. Ok 0 s)
     | None \<Rightarrow> bnd (on_core (release L_ptable) s) (\<lambda>_ s. Ok (- 1) s))"

subsection \<open>The scheduler of a processor\<close>

text \<open>
  The body of the scheduler's loop for the slot \<open>p\<close>: \<open>Ok True\<close> when it switched to the process, which
  then continues on this processor with the process table locked; \<open>scheduler_back\<close> is what the
  scheduler does when the process has switched back.
\<close>

definition scheduler_slot :: "nat \<Rightarrow> 'a kproc_scheme \<Rightarrow> (bool, 'a kproc_scheme) res" where
  "scheduler_slot p s =
     (if pstate (procs s ! p) \<noteq> RUNNABLE then Ok False s else
      bnd (on_core mycpu s) (\<lambda>c s.
      let s = s\<lparr>core := upd_cpu c (\<lambda>cp. cp\<lparr>cproc := Some p\<rparr>) (core s)\<rparr> in
      bnd (switchuvm (Some p) s) (\<lambda>_ s.
      Ok True (upd_proc p (\<lambda>q. q\<lparr>pstate := RUNNING\<rparr>) s))))"

definition scheduler_back :: "'a kproc_scheme \<Rightarrow> (unit, 'a kproc_scheme) res" where
  "scheduler_back s =
     (let s = switchkvm s in
      bnd (on_core mycpu s) (\<lambda>c s.
      Ok () (s\<lparr>core := upd_cpu c (\<lambda>cp. cp\<lparr>cproc := None\<rparr>) (core s)\<rparr>)))"

subsection \<open>The end of a process\<close>

text \<open>The last part of \<open>exit()\<close>, from the point where it locks the process table.\<close>

definition reparent :: "nat option \<Rightarrow> 'a kproc_scheme \<Rightarrow> 'a kproc_scheme" where
  "reparent cp s =
     foldl (\<lambda>s i.
       if parent (procs s ! i) = cp then
         let s = upd_proc i (\<lambda>q. q\<lparr>parent := initproc s\<rparr>) s in
         if pstate (procs s ! i) = ZOMBIE then wakeup1 (Ch_proc (initproc s)) s else s
       else s) s [0..<length (procs s)]"

definition exit_tail :: "nat option \<Rightarrow> 'a kproc_scheme \<Rightarrow> ('r, 'a kproc_scheme) res" where
  "exit_tail cp s =
     bnd (on_core (acquire L_ptable) s) (\<lambda>_ s.
     let s = wakeup1 (Ch_proc (parent (procat cp s))) s;
         s = reparent cp s;
         s = upd_proc (the cp) (\<lambda>q. q\<lparr>pstate := ZOMBIE\<rparr>) s in
     sched s)"

text \<open>The scan of \<open>wait()\<close>: \<open>Inl pid\<close> when a zombie was found and reaped, else whether there are children.\<close>

fun wait_scan :: "nat list \<Rightarrow> nat option \<Rightarrow> bool \<Rightarrow> 'a kproc_scheme \<Rightarrow> (int + bool, 'a kproc_scheme) res" where
  "wait_scan [] cp havekids s = Ok (Inr havekids) s"
| "wait_scan (p # ps) cp havekids s =
     (if parent (procs s ! p) \<noteq> cp then wait_scan ps cp havekids s
      else if pstate (procs s ! p) = ZOMBIE then
        let n = pid (procs s ! p) in
        bnd (kfree (kstack (procs s ! p)) s) (\<lambda>_ s.
        let s = upd_proc p (\<lambda>q. q\<lparr>kstack := 0\<rparr>) s in
        bnd (freevm (pgdir (procs s ! p)) s) (\<lambda>_ s.
        let s = upd_proc p (\<lambda>q. q\<lparr>pid := 0, parent := None, pname := (pname q)[0 := 0],
                                killed := False, pstate := UNUSED\<rparr>) s in
        bnd (on_core (release L_ptable) s) (\<lambda>_ s. Ok (Inl n) s)))
      else wait_scan ps cp True s)"

definition wait_round :: "nat option \<Rightarrow> 'a kproc_scheme \<Rightarrow> (int, 'a kproc_scheme) res" where
  "wait_round cp s =
     bnd (wait_scan [0..<length (procs s)] cp False s) (\<lambda>r s.
     case r of Inl n \<Rightarrow> Ok n s
     | Inr havekids \<Rightarrow>
         if \<not> havekids \<or> killed (procat cp s) then bnd (on_core (release L_ptable) s) (\<lambda>_ s. Ok (- 1) s)
         else sleep (Ch_proc cp) L_ptable s)"

definition wait :: "'a kproc_scheme \<Rightarrow> (int, 'a kproc_scheme) res" where
  "wait s =
     bnd (cur s) (\<lambda>cp s.
     bnd (on_core (acquire L_ptable) s) (\<lambda>_ s. wait_round cp s))"

definition wait_resume :: "nat option \<Rightarrow> 'a kproc_scheme \<Rightarrow> (int, 'a kproc_scheme) res" where
  "wait_resume cp s = bnd (sleep_resume L_ptable s) (\<lambda>_ s. wait_round cp s)"

subsection \<open>Listing and counting\<close>

definition state_name :: "procstate \<Rightarrow> string" where
  "state_name st = (case st of UNUSED \<Rightarrow> ''unused'' | EMBRYO \<Rightarrow> ''embryo'' | SLEEPING \<Rightarrow> ''sleep ''
     | RUNNABLE \<Rightarrow> ''runble'' | RUNNING \<Rightarrow> ''run   '' | ZOMBIE \<Rightarrow> ''zombie'')"

text \<open>\<open>pcs p\<close> is the call chain that \<open>getcallerpcs\<close> finds on the stack of a sleeping process.\<close>

fun procdump_pcs :: "u32 list \<Rightarrow> 'a con_scheme \<Rightarrow> (unit, 'a con_scheme) res" where
  "procdump_pcs [] s = Ok () s"
| "procdump_pcs (pc # pcs) s =
     (if pc = 0 then Ok () s else bnd (cprintf '' %p'' [KInt pc] s) (\<lambda>_ s. procdump_pcs pcs s))"

fun procdump_loop :: "(proc \<Rightarrow> u32 list) \<Rightarrow> proc list \<Rightarrow> 'a con_scheme \<Rightarrow> (unit, 'a con_scheme) res" where
  "procdump_loop pcs [] s = Ok () s"
| "procdump_loop pcs (p # ps) s =
     (if pstate p = UNUSED then procdump_loop pcs ps s else
      bnd (cprintf ''%d %s %s'' [KInt (word_of_int (pid p)),
             KStr (Some (map of_char (state_name (pstate p)))), KStr (Some (pname p))] s) (\<lambda>_ s.
      bnd (if pstate p = SLEEPING then procdump_pcs (take 10 (pcs p)) s else Ok () s) (\<lambda>_ s.
      bnd (cprintf ''\<newline>'' [] s) (\<lambda>_ s.
      procdump_loop pcs ps s))))"

definition procdump :: "(proc \<Rightarrow> u32 list) \<Rightarrow> 'a kproc_scheme \<Rightarrow> (unit, 'a kproc_scheme) res" where
  "procdump pcs s = procdump_loop pcs (procs s) s"

fun getNumProc_loop :: "proc list \<Rightarrow> int \<Rightarrow> int" where
  "getNumProc_loop [] N = N"
| "getNumProc_loop (p # ps) N = getNumProc_loop ps (if pstate p \<noteq> UNUSED then N + 1 else N)"

definition getNumProc :: "'a kproc_scheme \<Rightarrow> int" where
  "getNumProc s = getNumProc_loop (procs s) 0"

fun showAncestry_loop :: "nat \<Rightarrow> nat option \<Rightarrow> 'a kproc_scheme \<Rightarrow> (unit, 'a kproc_scheme) res" where
  "showAncestry_loop 0 p s = Ok () s"
| "showAncestry_loop (Suc n) p s =
     (if \<not> pid (procat p s) \<ge> 1 then Ok () s else
      bnd (cprintf ''PID = %d\<newline>'' [KInt (word_of_int (pid (procat p s)))] s) (\<lambda>_ s.
      showAncestry_loop n (parent (procat p s)) s))"

definition showAncestry :: "'a kproc_scheme \<Rightarrow> (unit, 'a kproc_scheme) res" where
  "showAncestry s = bnd (cur s) (\<lambda>p s. showAncestry_loop 10 p s)"

subsection \<open>Lazily mapped memory\<close>

text \<open>The second \<open>walkpgdir\<close> of the repository, in \<open>proc.c\<close>: it returns an entry only if it is present.\<close>

definition walkpgdir_p :: "u32 \<Rightarrow> u32 \<Rightarrow> ram \<Rightarrow> u32" where
  "walkpgdir_p pd va m =
     (let pde = pd + 4 * PDX va in
      if load32 m pde AND PTE_P \<noteq> 0 then
        let pgtab = P2V (PTE_ADDR (load32 m pde)) in
        if load32 m (pgtab + 4 * PTX va) AND PTE_P \<noteq> 0 then pgtab + 4 * PTX va else 0
      else 0)"

definition numvp :: "'a kproc_scheme \<Rightarrow> (u32, 'a kproc_scheme) res" where
  "numvp s =
     bnd (cur s) (\<lambda>p s.
     let z = sz (procat p s) in
     Ok (if z mod PGSIZE = 0 then z div PGSIZE else z div PGSIZE + 1) s)"

fun numpp_loop :: "nat \<Rightarrow> u32 \<Rightarrow> u32 \<Rightarrow> u32 \<Rightarrow> int \<Rightarrow> ram \<Rightarrow> int option" where
  "numpp_loop 0 pd z i num_pp m = None"
| "numpp_loop (Suc n) pd z i num_pp m =
     (if \<not> i < z then Some num_pp
      else numpp_loop n pd z (i + PGSIZE) (if walkpgdir_p pd i m \<noteq> 0 then num_pp + 1 else num_pp) m)"

definition numpp :: "'a kproc_scheme \<Rightarrow> (int, 'a kproc_scheme) res" where
  "numpp s =
     bnd (cur s) (\<lambda>p s.
     case numpp_loop (2 ^ 20 + 1) (pgdir (procat p s)) (sz (procat p s)) 0 0 (mem s) of
       Some n \<Rightarrow> Ok n s
     | None \<Rightarrow> Spin)"

definition mmap :: "int \<Rightarrow> 'a kproc_scheme \<Rightarrow> (int, 'a kproc_scheme) res" where
  "mmap n s =
     bnd (cur s) (\<lambda>p s.
     let addr = sint (sz (procat p s));
         s = upd_proc (the p) (\<lambda>q. q\<lparr>sz := sz q + word_of_int n\<rparr>) s in
     Ok addr s)"

subsection \<open>Closed forms\<close>

definition pt_quiet :: "'a kproc_scheme \<Rightarrow> bool" where
  "pt_quiet s \<longleftrightarrow> cpu_ok (core s) \<and> lock_free L_ptable (core s)"

text \<open>The process that runs on this processor.\<close>

definition me_proc :: "'a kproc_scheme \<Rightarrow> nat option" where
  "me_proc s = cproc (mc (core s))"

lemma cur_ok [quiet_simps]: "cpu_ok (core s) \<Longrightarrow> cur s = Ok (me_proc s) s"
  by (simp add: cur_def on_core_def myproc_ok me_proc_def)

lemma wakeup_ok [quiet_simps]: "pt_quiet s \<Longrightarrow> wakeup ch s = Ok () (wakeup1 ch s)"
  by (simp add: wakeup_def pt_quiet_def quiet_simps wakeup1_def Let_def)

lemma kill_ok:
  "pt_quiet s \<Longrightarrow> kill n s = (case find_idx (\<lambda>p. pid p = n) (procs s) of
     None \<Rightarrow> Ok (- 1) s
   | Some i \<Rightarrow> Ok 0 (upd_proc i (\<lambda>p. p\<lparr>killed := True, pstate := (if pstate p = SLEEPING then RUNNABLE else pstate p)\<rparr>) s))"
  by (cases "find_idx (\<lambda>p. pid p = n) (procs s)")
     (auto simp: kill_def pt_quiet_def quiet_simps upd_proc_def Let_def dest: find_idx_Some [THEN iffD1])

lemma me_enter: "cpu_ok c \<Longrightarrow> mc (enter lk c) = (mc c)\<lparr>ncli := ncli (mc c) + 1\<rparr>"
  by (auto elim!: cpu_okE simp: enter_def mc_push)

lemma lock_held_enter: "cpu_ok c \<Longrightarrow> holding lk (enter lk c) = Ok True (enter lk c)"
  using cpu_ok_enter [of c lk] by (simp add: holding_ok held_def)

lemma mycpu_enter: "cpu_ok c \<Longrightarrow> mycpu (enter lk c) = Ok (the (me c)) (enter lk c)"
  by (auto elim!: cpu_okE simp: mycpu_eq enter_def)

lemma readeflags_enter [simp]: "\<not> readeflags (enter lk c)"
  by (simp add: enter_def)

end
