(* ===== verification/Sched.thy ===== *)
theory Sched
  imports Proc
begin

section \<open>Scheduling: which process runs on which processor\<close>

text \<open>
  The operations of \<open>proc.c\<close> as steps of the whole machine, and the invariant of the process table:
  the processes in state RUNNING are those that some processor has as its current process, and no
  process is current on two processors.  Every critical section of the process table is one step,
  which is what \<open>ptable.lock\<close> provides; a step in which a process gives up its processor includes what
  \<open>scheduler()\<close> does right after \<open>swtch\<close> returns.  The step \<open>fill\<close> stands for the assignments by which
  \<open>fork\<close> and \<open>userinit\<close> complete a new process and make it runnable, or give it up.
\<close>

named_theorems frame_rules \<open>what the operations leave alone\<close>

subsection \<open>What the operations below the process table leave alone\<close>

definition same_run :: "core \<Rightarrow> core \<Rightarrow> bool" where
  "same_run c d \<longleftrightarrow> map cproc (cpus d) = map cproc (cpus c) \<and> me d = me c"

lemma same_run_refl [simp]: "same_run c c"
  by (simp add: same_run_def)

lemma same_run_trans: "same_run c d \<Longrightarrow> same_run d e \<Longrightarrow> same_run c e"
  by (simp add: same_run_def)

lemma same_run_locks [simp]: "same_run c (d\<lparr>locks := l\<rparr>) = same_run c d"
  by (simp add: same_run_def)

lemma same_run_cr3 [simp]: "same_run c (lcr3 v d) = same_run c d"
  by (simp add: same_run_def lcr3_def)

lemma same_run_flags: "same_run c (cli d) = same_run c d" "same_run c (sti d) = same_run c d"
  by (simp_all add: same_run_def cli_def sti_def)

lemma me_upd_cpu [simp]: "(\<And>x. apicid (f x) = apicid x) \<Longrightarrow> me (upd_cpu i f c) = me c"
  by (rule me_cong) (simp_all add: upd_cpu_def map_upd_same)

lemma same_run_upd_cpu:
  "(\<And>x. apicid (f x) = apicid x) \<Longrightarrow> (\<And>x. cproc (f x) = cproc x) \<Longrightarrow>
   same_run c (upd_cpu i f d) = same_run c d"
  by (simp add: same_run_def) (simp add: upd_cpu_def map_upd_same)

lemma me_sti [simp]: "me (sti c) = me c"
  by (rule me_cong) (simp_all add: sti_def)

lemma mycpu_Ok: "mycpu c = Ok i d \<longleftrightarrow> \<not> readeflags c \<and> d = c \<and> me c = Some i"
  by (auto simp: mycpu_eq split: if_splits option.splits)

lemma pushcli_frame:
  assumes "pushcli c = Ok x d"
  shows "same_run c d"
proof -
  from assms obtain i e where "d = upd_cpu i (\<lambda>c. c\<lparr>ncli := ncli c + 1\<rparr>) e"
    and "e = cli c \<or> e = upd_cpu i (\<lambda>x. x\<lparr>intena := readeflags c\<rparr>) (cli c)"
    by (cases "mycpu (cli c)") (auto simp: pushcli_def Let_def mycpu_Ok)
  then show ?thesis
    by (auto simp: same_run_upd_cpu same_run_flags)
qed

lemma popcli_frame:
  assumes "popcli c = Ok x d"
  shows "same_run c d"
proof -
  from assms obtain i e where "d = e \<or> d = sti e" and "e = upd_cpu i (\<lambda>c. c\<lparr>ncli := ncli c - 1\<rparr>) c"
    by (cases "mycpu c") (auto simp: popcli_def Let_def split: if_splits dest: mycpu_Ok [THEN iffD1])
  then show ?thesis
    by (auto simp: same_run_upd_cpu same_run_flags)
qed

lemma same_run_proc:
  assumes "same_run c d" and "me c = Some i"
  shows "cproc (cpus d ! i) = cproc (cpus c ! i)"
proof -
  have "map cproc (cpus d) ! i = map cproc (cpus c) ! i" and "me d = Some i"
    using assms by (simp_all add: same_run_def)
  then show ?thesis
    using me_bound [OF assms(2)] me_bound [of d i] by simp
qed

lemma same_run_mc: "same_run c d \<Longrightarrow> me c \<noteq> None \<Longrightarrow> cproc (mc d) = cproc (mc c)"
  using same_run_proc [of c d "the (me c)"] by (auto simp: mc_def same_run_def)

lemma myproc_frame:
  assumes "myproc c = Ok p d"
  shows "same_run c d" and "me c \<noteq> None" and "p = cproc (mc c)"
proof -
  from assms obtain i e where e: "pushcli c = Ok () e" "me e = Some i" "p = cproc (cpus e ! i)" "popcli e = Ok () d"
    by (auto simp: myproc_def Let_def elim!: bnd_OkE dest!: mycpu_Ok [THEN iffD1])
  note run = pushcli_frame [OF e(1)]
  have me: "me c = Some i"
    using run e(2) by (simp add: same_run_def)
  show "same_run c d" "me c \<noteq> None" "p = cproc (mc c)"
    using run popcli_frame [OF e(4)] me same_run_proc [OF run me] e(3)
    by (auto intro: same_run_trans simp: mc_def)
qed

lemma holding_frame: "holding lk c = Ok h d \<Longrightarrow> same_run c d"
  by (auto simp: holding_def Let_def elim!: bnd_OkE dest!: mycpu_Ok [THEN iffD1] pushcli_frame popcli_frame
      intro: same_run_trans)

lemma acquire_frame: "acquire lk c = Ok x d \<Longrightarrow> same_run c d"
  by (auto simp: acquire_def Let_def elim!: bnd_OkE split: if_splits
      dest!: mycpu_Ok [THEN iffD1] pushcli_frame holding_frame)
     (simp add: same_run_def)

lemma release_frame:
  assumes "release lk c = Ok x d"
  shows "same_run c d"
proof -
  from assms obtain h e where e: "holding lk c = Ok h e"
    and p: "popcli (e\<lparr>locks := (locks e)(lk := (locks e lk)\<lparr>lkcpu := None, locked := False\<rparr>)\<rparr>) = Ok x d"
    by (auto simp: release_def Let_def bnd_eq_Ok split: if_splits)
  show ?thesis
    using holding_frame [OF e] popcli_frame [OF p]
    by (auto simp: same_run_def)
qed

lemma no_switch [simp]:
  "mycpu c \<noteq> Switch d" "pushcli c \<noteq> Switch d" "popcli c \<noteq> Switch d" "myproc c \<noteq> Switch d"
  "holding lk c \<noteq> Switch d" "acquire lk c \<noteq> Switch d" "release lk c \<noteq> Switch d"
proof -
  show m: "mycpu c \<noteq> Switch d" for c d
    by (simp add: mycpu_eq split: option.splits)
  show p: "pushcli c \<noteq> Switch d" for c d
    by (auto simp: pushcli_def Let_def bnd_def m split: res.splits)
  show q: "popcli c \<noteq> Switch d" for c d
    by (auto simp: popcli_def Let_def bnd_def m split: res.splits)
  show "myproc c \<noteq> Switch d"
    by (auto simp: myproc_def Let_def bnd_def m p q split: res.splits)
  show h: "holding lk c \<noteq> Switch d" for c d
    by (auto simp: holding_def Let_def bnd_def m p q split: res.splits)
  show "acquire lk c \<noteq> Switch d"
    by (auto simp: acquire_def Let_def bnd_def m p q h split: res.splits)
  show "release lk c \<noteq> Switch d"
    by (auto simp: release_def Let_def bnd_def m p q h split: res.splits)
qed


text \<open>The same for the machine: an operation below the process table keeps everything that later records
  add, and who runs where.\<close>

definition mframe :: "'a mach_scheme \<Rightarrow> 'a mach_scheme \<Rightarrow> bool" where
  "mframe s t \<longleftrightarrow>
     t\<lparr>core := core s, mem := mem s, freelist := freelist s\<rparr> = s \<and> same_run (core s) (core t)"

lemma mframe_coreI: "same_run (core s) c \<Longrightarrow> mframe s (s\<lparr>core := c\<rparr>)"
  by (simp add: mframe_def)

lemma mframe_refl [simp]: "mframe s s"
  by (simp add: mframe_def)

lemma mframe_trans:
  assumes "mframe s t" and "mframe t u"
  shows "mframe s u"
proof -
  have s: "t\<lparr>core := core s, mem := mem s, freelist := freelist s\<rparr> = s"
    and t: "u\<lparr>core := core t, mem := mem t, freelist := freelist t\<rparr> = t"
    and "same_run (core s) (core u)"
    using assms same_run_trans unfolding mframe_def by blast+
  moreover have "u\<lparr>core := core s, mem := mem s, freelist := freelist s\<rparr> = s"
    by (subst (4) s [symmetric], subst t [symmetric]) simp
  ultimately show ?thesis
    by (simp add: mframe_def)
qed

lemma mframe_upd [simp]:
  "mframe s (t\<lparr>mem := m\<rparr>) = mframe s t" "mframe s (t\<lparr>freelist := f\<rparr>) = mframe s t"
  by (simp_all add: mframe_def)

lemma mframe_on_core:
  assumes "on_core f s = Ok x t" and "\<And>x d. f (core s) = Ok x d \<Longrightarrow> same_run (core s) d"
  shows "mframe s t"
  using assms by (auto simp: on_core_def intro!: mframe_coreI split: res.splits)

lemma mframe_lock:
  "on_core (acquire lk) s = Ok x t \<Longrightarrow> mframe s t" "on_core (release lk) s = Ok x t \<Longrightarrow> mframe s t"
  "on_core pushcli s = Ok x t \<Longrightarrow> mframe s t" "on_core popcli s = Ok x t \<Longrightarrow> mframe s t"
  "on_core (holding lk) s = Ok h t \<Longrightarrow> mframe s t"
  by (blast intro: mframe_on_core acquire_frame release_frame pushcli_frame popcli_frame holding_frame)+

lemma on_core_Ok: "on_core f s = Ok x t \<longleftrightarrow> (\<exists>c. f (core s) = Ok x c \<and> t = s\<lparr>core := c\<rparr>)"
  by (auto simp: on_core_def split: res.splits)

lemma on_core_Switch: "on_core f s = Switch t \<longleftrightarrow> (\<exists>c. f (core s) = Switch c \<and> t = s\<lparr>core := c\<rparr>)"
  by (auto simp: on_core_def split: res.splits)

lemma bnd_eq_Switch: "bnd m f = Switch t \<longleftrightarrow> m = Switch t \<or> (\<exists>x s. m = Ok x s \<and> f x s = Switch t)"
  by (cases m) auto

lemma no_switch_more [simp]:
  "on_core mycpu s \<noteq> Switch t" "on_core (acquire lk) s \<noteq> Switch t"
  "on_core (release lk) s \<noteq> Switch t" "on_core (holding lk) s \<noteq> Switch t"
  "on_core pushcli s \<noteq> Switch t" "on_core popcli s \<noteq> Switch t"
  by (simp_all add: on_core_Switch)

lemma cur_no_switch [simp]: "cur s \<noteq> Switch t"
  by (simp add: cur_def on_core_Switch)

text \<open>\<open>keeps m s\<close>: the call \<open>m\<close> does not give up the processor, and if it returns, it has changed nothing above.\<close>

definition keeps :: "('r, 'a mach_scheme) res \<Rightarrow> 'a mach_scheme \<Rightarrow> bool" where
  "keeps m s \<longleftrightarrow> (\<forall>x t. m = Ok x t \<longrightarrow> mframe s t) \<and> (\<forall>t. m \<noteq> Switch t)"

lemma keepsD: "keeps m s \<Longrightarrow> m = Ok x t \<Longrightarrow> mframe s t"
  by (simp add: keeps_def)

lemma keeps_simps [simp]:
  "keeps (Ok x t) s = mframe s t" "keeps (Panic e) s" "\<not> keeps (Switch u) s" "keeps Spin s"
  by (simp_all add: keeps_def)

lemma keeps_bnd [frame_rules]:
  "keeps m s \<Longrightarrow> (\<And>x t. m = Ok x t \<Longrightarrow> mframe s t \<Longrightarrow> keeps (f x t) t) \<Longrightarrow> keeps (bnd m f) s"
  by (fastforce simp: keeps_def bnd_eq_Ok bnd_eq_Switch elim: mframe_trans)

lemma keeps_from: "keeps m u \<Longrightarrow> mframe s u \<Longrightarrow> keeps m s"
  by (auto simp: keeps_def elim: mframe_trans)

lemma keeps_if [frame_rules]: "(b \<Longrightarrow> keeps m s) \<Longrightarrow> (\<not> b \<Longrightarrow> keeps n s) \<Longrightarrow> keeps (if b then m else n) s"
  by simp

lemma keeps_lock [frame_rules]:
  "mframe s u \<Longrightarrow> keeps (on_core (acquire lk) u) s" "mframe s u \<Longrightarrow> keeps (on_core (release lk) u) s"
  by (auto simp: keeps_def dest: mframe_lock intro: mframe_trans)

lemma keeps_kfree [frame_rules]: "mframe s u \<Longrightarrow> keeps (kfree v u) s"
  by (rule keeps_from [of _ u]) (auto simp: kfree_def Let_def intro!: frame_rules)

lemma keeps_kalloc [frame_rules]: "mframe s u \<Longrightarrow> keeps (kalloc u) s"
  by (rule keeps_from [of _ u]) (auto simp: kalloc_def Let_def intro!: frame_rules)

lemma keeps_walkpgdir [frame_rules]: "mframe s u \<Longrightarrow> keeps (walkpgdir pd va al u) s"
  by (rule keeps_from [of _ u]) (auto simp: walkpgdir_def Let_def intro!: frame_rules)

lemma keeps_deallocuvm_loop: "keeps (deallocuvm_loop n pd a e s) s"
proof (induction n arbitrary: a s)
  case (Suc n)
  have "mframe s t \<Longrightarrow> keeps (deallocuvm_loop n pd a e t) s" for a and s t :: "'a mach_scheme"
    by (rule keeps_from [OF Suc])
  then show ?case
    by (auto simp: Let_def intro!: frame_rules)
qed simp

lemma keeps_freevm_loop: "keeps (freevm_loop n pd s) s"
proof (induction n arbitrary: s)
  case (Suc n)
  have "mframe s t \<Longrightarrow> keeps (freevm_loop n pd t) s" for s t :: "'a mach_scheme"
    by (rule keeps_from [OF Suc])
  then show ?case
    by (auto simp: Let_def intro!: frame_rules)
qed simp

lemma keeps_freevm [frame_rules]: "mframe s u \<Longrightarrow> keeps (freevm pd u) s"
  by (rule keeps_from [of _ u])
     (auto simp: freevm_def deallocuvm_def Let_def intro!: frame_rules keeps_from [OF keeps_deallocuvm_loop] keeps_from [OF keeps_freevm_loop]
       simp del: deallocuvm_loop.simps freevm_loop.simps)

subsection \<open>The steps of the machine\<close>

inductive sched_step :: "kproc \<Rightarrow> kproc \<Rightarrow> bool" where
  other: "j < ncpu (core s) \<Longrightarrow> sched_step s (s\<lparr>core := (core s)\<lparr>lapicid := uint (apicid (cpus (core s) ! j))\<rparr>\<rparr>)"
| lock: "on_core (acquire lk) s = Ok () t \<Longrightarrow> sched_step s t"
| unlock: "on_core (release lk) s = Ok () t \<Longrightarrow> sched_step s t"
| pick: "me_proc s = None \<Longrightarrow> p < length (procs s) \<Longrightarrow> scheduler_slot p s = Ok True t \<Longrightarrow> sched_step s t"
| resume: "sched_resume s = Ok () t \<Longrightarrow> sched_step s t"
| wake: "wakeup ch s = Ok () t \<Longrightarrow> sched_step s t"
| kill: "kill n s = Ok r t \<Longrightarrow> sched_step s t"
| create: "allocproc s = Ok r t \<Longrightarrow> sched_step s t"
| fill: "pstate (procs s ! p) = EMBRYO \<Longrightarrow> pstate q \<noteq> RUNNING \<Longrightarrow> sched_step s (upd_proc p (\<lambda>_. q) s)"
| yield: "me_proc s = Some p \<Longrightarrow> yield s = Switch u \<Longrightarrow> scheduler_back u = Ok () t \<Longrightarrow> sched_step s t"
| sleep: "(sleep ch lk s :: (unit, kproc) res) = Switch u \<Longrightarrow> scheduler_back u = Ok () t \<Longrightarrow> sched_step s t"
| exit: "me_proc s = Some p \<Longrightarrow> (exit_tail (Some p) s :: (unit, kproc) res) = Switch u \<Longrightarrow>
    scheduler_back u = Ok () t \<Longrightarrow> sched_step s t"
| wait: "me_proc s = Some p \<Longrightarrow> wait s = Ok r t \<Longrightarrow> sched_step s t"
| wait_sleep: "me_proc s = Some p \<Longrightarrow> wait s = Switch u \<Longrightarrow> scheduler_back u = Ok () t \<Longrightarrow> sched_step s t"

text \<open>At boot no process runs.\<close>

definition sched_init :: "kproc \<Rightarrow> bool" where
  "sched_init s \<longleftrightarrow> (\<forall>p \<in> set (procs s). pstate p = UNUSED) \<and> (\<forall>c \<in> set (cpus (core s)). cproc c = None)"

text \<open>The invariant, on the list of states and the list of current processes.\<close>

definition run_inv :: "procstate list \<Rightarrow> nat option list \<Rightarrow> bool" where
  "run_inv sts rs \<longleftrightarrow>
     (\<forall>i < length sts. sts ! i = RUNNING \<longleftrightarrow> Some i \<in> set rs) \<and>
     (\<forall>i. Some i \<in> set rs \<longrightarrow> i < length sts) \<and>
     (\<forall>a < length rs. \<forall>b < length rs. \<forall>p. rs ! a = Some p \<and> rs ! b = Some p \<longrightarrow> a = b)"

definition sched_inv :: "'a kproc_scheme \<Rightarrow> bool" where
  "sched_inv s \<longleftrightarrow> run_inv (map pstate (procs s)) (map cproc (cpus (core s)))"

lemma in_set_update:
  "c < length rs \<Longrightarrow> y \<in> set (rs[c := x]) \<longleftrightarrow> y = x \<or> (\<exists>a < length rs. a \<noteq> c \<and> rs ! a = y)"
  by (auto simp: in_set_conv_nth nth_list_update)

lemma run_inv_start:
  assumes "run_inv sts rs" and "p < length sts" and "sts ! p \<noteq> RUNNING" and "c < length rs" and "rs ! c = None"
  shows "run_inv (sts[p := RUNNING]) (rs[c := Some p])"
proof -
  have new: "Some p \<notin> set rs"
    using assms by (auto simp: run_inv_def)
  have "Some i \<in> set (rs[c := Some p]) \<longleftrightarrow> i = p \<or> Some i \<in> set rs" for i
    unfolding in_set_update [OF assms(4)] in_set_conv_nth [of _ rs] using assms(5) by auto
  moreover have "rs ! a \<noteq> Some p" if "a < length rs" for a
    using new that by (metis nth_mem)
  ultimately show ?thesis
    using assms new by (auto simp: run_inv_def nth_list_update)
qed

lemma run_inv_stop:
  assumes "run_inv sts rs" and "c < length rs" and "rs ! c = Some p" and "st \<noteq> RUNNING"
  shows "run_inv (sts[p := st]) (rs[c := None])"
proof -
  have uniq: "rs ! a = Some p \<longleftrightarrow> a = c" if "a < length rs" for a
    using assms that by (auto simp: run_inv_def)
  then have "Some i \<in> set (rs[c := None]) \<longleftrightarrow> Some i \<in> set rs \<and> i \<noteq> p" for i
    unfolding in_set_update [OF assms(2)] in_set_conv_nth [of _ rs] using assms(3) by auto
  moreover have "p < length sts"
    using assms(1,2,3) nth_mem [of c rs] by (auto simp: run_inv_def)
  ultimately show ?thesis
    using assms uniq by (auto simp: run_inv_def nth_list_update)
qed

lemma run_inv_same:
  assumes "run_inv sts rs" and "length sts' = length sts"
    and "\<And>i. i < length sts \<Longrightarrow> sts' ! i = RUNNING \<longleftrightarrow> sts ! i = RUNNING"
  shows "run_inv sts' rs"
  using assms by (simp add: run_inv_def)


text \<open>What a step sees of a state: the process table and who runs where.\<close>

lemma mframe_procs: "mframe s t \<Longrightarrow> procs t = procs s"
  unfolding mframe_def by (drule conjunct1, drule arg_cong [of _ _ procs]) simp

lemma mframe_run: "mframe s t \<Longrightarrow> same_run (core s) (core t)"
  by (auto simp: mframe_def)

lemma mframe_inv: "mframe s t \<Longrightarrow> sched_inv t = sched_inv s"
  using mframe_procs [of s t] mframe_run [of s t] by (simp add: sched_inv_def same_run_def)

lemma mframe_me: "mframe s t \<Longrightarrow> me (core t) = me (core s)"
  using mframe_run [of s t] by (simp add: same_run_def)

lemma mframe_me_proc: "mframe s t \<Longrightarrow> me (core s) \<noteq> None \<Longrightarrow> me_proc t = me_proc s"
  using mframe_run [of s t] by (simp add: me_proc_def same_run_mc)

lemma sched_inv_procs:
  assumes "sched_inv s" and "cpus (core t) = cpus (core s)"
    and "length (procs t) = length (procs s)"
    and "\<And>i. i < length (procs s) \<Longrightarrow> pstate (procs t ! i) = RUNNING \<longleftrightarrow> pstate (procs s ! i) = RUNNING"
  shows "sched_inv t"
  using assms unfolding sched_inv_def by (auto intro: run_inv_same)

lemma sched_inv_upd:
  assumes "sched_inv s" and "i < length (procs s) \<Longrightarrow> pstate (f (procs s ! i)) = RUNNING \<longleftrightarrow> pstate (procs s ! i) = RUNNING"
  shows "sched_inv (upd_proc i f s)"
  by (cases "i < length (procs s)", rule sched_inv_procs [OF assms(1)])
     (use assms in \<open>auto simp: upd_proc_def nth_list_update list_update_beyond\<close>)

lemma sched_inv_wakeup1: "sched_inv s \<Longrightarrow> sched_inv (wakeup1 ch s)"
  by (erule sched_inv_procs) (auto simp: wakeup1_def wake1_def)

lemma upd_proc_simps [simp]:
  "core (upd_proc i f s) = core s" "length (procs (upd_proc i f s)) = length (procs s)"
  "me_proc (upd_proc i f s) = me_proc s"
  by (simp_all add: upd_proc_def me_proc_def)

lemma wakeup1_simps [simp]:
  "core (wakeup1 ch s) = core s" "length (procs (wakeup1 ch s)) = length (procs s)"
  by (simp_all add: wakeup1_def)


lemma cur_Ok:
  assumes "cur s = Ok p t"
  shows "mframe s t" and "me (core s) \<noteq> None" and "p = me_proc s"
  using assms myproc_frame by (auto simp: cur_def on_core_Ok me_proc_def intro!: mframe_coreI)

lemma mycpu_core: "on_core mycpu s = Ok c t \<Longrightarrow> t = s \<and> me (core s) = Some c"
  by (auto simp: on_core_Ok mycpu_Ok)

lemma sched_Switch:
  assumes "(sched s :: ('r, 'a kproc_scheme) res) = Switch u"
  obtains v b where "mframe s v" and "me (core s) \<noteq> None"
    and "u = upd_proc (the (me_proc s)) (\<lambda>q. q\<lparr>kintena := b, pcontext := (pcontext q)\<lparr>c_eip := K_kernel\<rparr>\<rparr>) v"
proof -
  from assms obtain p s1 h v c where cur: "cur s = Ok p s1" and "on_core (holding L_ptable) s1 = Ok h v"
    and "on_core mycpu v = Ok c v"
    and u: "u = upd_proc (the p) (\<lambda>q. q\<lparr>kintena := intena (cpus (core v) ! c), pcontext := (pcontext q)\<lparr>c_eip := K_kernel\<rparr>\<rparr>) v"
    by (auto simp: sched_def bnd_eq_Switch split: if_splits dest: mycpu_core)
  then have "mframe s1 v"
    by (blast dest: mframe_lock)
  then show ?thesis
    using that [of v] cur_Ok [OF cur] u by (blast intro: mframe_trans)
qed

lemma scheduler_back_Ok:
  assumes "scheduler_back u = Ok () t"
  obtains c where "me (core u) = Some c" and "procs t = procs u"
    and "map cproc (cpus (core t)) = (map cproc (cpus (core u)))[c := None]"
  using assms that
  by (auto simp: scheduler_back_def switchkvm_def lcr3_def upd_cpu_def bnd_eq_Ok map_update dest!: mycpu_core)

lemma map_pstate_upd: "map pstate (procs (upd_proc i f s)) = (map pstate (procs s))[i := pstate (f (procs s ! i))]"
  by (simp add: upd_proc_def map_update)

lemma map_upd_id: "(map f xs)[i := f (xs ! i)] = map f xs"
  by (simp flip: map_update)

text \<open>The current process gives up the processor.\<close>

lemma give_up:
  assumes inv: "sched_inv s" and me: "me_proc s = Some p" and st: "pstate (f (procs s ! p)) \<noteq> RUNNING"
    and sw: "(sched (upd_proc p f s) :: ('r, 'a kproc_scheme) res) = Switch u"
    and bk: "scheduler_back u = Ok () t"
  shows "sched_inv t"
proof -
  from sw obtain v b where v: "mframe (upd_proc p f s) v" and c: "me (core s) \<noteq> None"
    and u: "u = upd_proc p (\<lambda>q. q\<lparr>kintena := b, pcontext := (pcontext q)\<lparr>c_eip := K_kernel\<rparr>\<rparr>) v"
    by (rule sched_Switch) (auto simp: me)
  from bk obtain c where c: "me (core u) = Some c" "procs t = procs u"
    "map cproc (cpus (core t)) = (map cproc (cpus (core u)))[c := None]"
    by (rule scheduler_back_Ok)
  have run: "map cproc (cpus (core u)) = map cproc (cpus (core s))" and me_c: "me (core s) = Some c"
    using mframe_run [OF v] c(1) u by (auto simp: same_run_def)
  have "map pstate (procs u) = map pstate (procs v)"
    by (simp add: u map_pstate_upd map_upd_id)
  then have sts: "map pstate (procs t) = (map pstate (procs s))[p := pstate (f (procs s ! p))]"
    by (simp add: c(2) mframe_procs [OF v] map_pstate_upd)
  have "c < length (cpus (core s))" and "cproc (cpus (core s) ! c) = Some p"
    using me me_bound [OF me_c] me_c by (auto simp: me_proc_def mc_def)
  then show ?thesis
    unfolding sched_inv_def sts c(3) run
    by (intro run_inv_stop st inv [unfolded sched_inv_def]) auto
qed

lemmas lock_inv = mframe_lock(1,2) [THEN mframe_inv]

lemma inv_wakeup: "sched_inv s \<Longrightarrow> wakeup ch s = Ok () t \<Longrightarrow> sched_inv t"
  by (auto simp: wakeup_def Let_def elim!: bnd_OkE dest!: lock_inv intro!: sched_inv_wakeup1)

lemma upd_proc_nth: "i < length (procs s) \<Longrightarrow> procs (upd_proc i f s) ! i = f (procs s ! i)"
  by (simp add: upd_proc_def)

lemma inv_kill: "sched_inv s \<Longrightarrow> kill n s = Ok r t \<Longrightarrow> sched_inv t"
  by (auto simp: kill_def Let_def elim!: bnd_OkE dest!: lock_inv split: option.splits if_splits
      simp: upd_proc_nth intro!: sched_inv_upd)

lemma inv_nextpid [simp]: "sched_inv (s\<lparr>nextpid := n\<rparr>) = sched_inv s"
  by (simp add: sched_inv_def)

lemma inv_allocproc:
  assumes inv: "sched_inv s" and alloc: "allocproc s = Ok r t"
  shows "sched_inv t"
proof -
  from alloc obtain s1 where l: "on_core (acquire L_ptable) s = Ok () s1"
    by (auto simp: allocproc_def elim!: bnd_OkE)
  note s1 = lock_inv(1) [OF l]
  show ?thesis
  proof (cases "find_idx (\<lambda>p. pstate p = UNUSED) (procs s1)")
    case None
    then show ?thesis
      using alloc inv s1 by (auto simp: allocproc_def l elim!: bnd_OkE dest!: lock_inv)
  next
    case (Some p)
    then have p: "p < length (procs s1)" "pstate (procs s1 ! p) = UNUSED"
      by (auto simp: find_idx_Some)
    let ?s2 = "(upd_proc p (\<lambda>q. q\<lparr>pstate := EMBRYO, pid := nextpid s1\<rparr>) s1)\<lparr>nextpid := cint (nextpid s1 + 1)\<rparr>"
    from alloc obtain s3 k s4 where rel: "on_core (release L_ptable) ?s2 = Ok () s3" and ka: "kalloc s3 = Ok k s4"
      and t: "t = (if k = 0 then upd_proc p (\<lambda>q. q\<lparr>pstate := UNUSED\<rparr>) (upd_proc p (\<lambda>q. q\<lparr>kstack := k\<rparr>) s4)
        else upd_proc p (\<lambda>q. q\<lparr>ctx_ret := K_trapret, pcontext := zero_ctxt\<lparr>c_eip := K_forkret\<rparr>\<rparr>)
          (upd_proc p (\<lambda>q. q\<lparr>kstack := k\<rparr>) s4))"
      by (auto simp: allocproc_def l Some Let_def upd_proc_def elim!: bnd_OkE split: if_splits)
    have f: "mframe ?s2 s4"
      using mframe_lock(2) [OF rel] keepsD [OF keeps_kalloc [OF mframe_refl] ka] by (rule mframe_trans)
    have "sched_inv ?s2"
      using p inv s1 by (simp add: sched_inv_upd)
    then have "sched_inv s4"
      using mframe_inv [OF f] by simp
    moreover have "pstate (procs s4 ! p) = EMBRYO"
      using p by (simp add: mframe_procs [OF f] upd_proc_def)
    ultimately show ?thesis
      unfolding t using p by (auto simp: upd_proc_nth mframe_procs [OF f] intro!: sched_inv_upd)
  qed
qed

lemma switchuvm_frame:
  assumes "switchuvm p s = Ok x t"
  shows "mframe s t"
proof -
  from assms obtain i s1 c f v where "on_core pushcli s = Ok () s1"
    and "on_core popcli (s1\<lparr>core := lcr3 v (upd_cpu c (\<lambda>cp. cp\<lparr>gdt := (gdt cp)[SEG_TSS := f], ts := i\<rparr>) (core s1))\<rparr>) = Ok x t"
    by (auto simp: switchuvm_def Let_def split: option.splits if_splits elim!: bnd_OkE dest!: mycpu_core)
  then have "mframe s s1" and "mframe (s1\<lparr>core := lcr3 v (upd_cpu c (\<lambda>cp. cp\<lparr>gdt := (gdt cp)[SEG_TSS := f], ts := i\<rparr>) (core s1))\<rparr>) t"
    by (auto dest: mframe_lock)
  moreover have "mframe s1 (s1\<lparr>core := lcr3 v (upd_cpu c (\<lambda>cp. cp\<lparr>gdt := (gdt cp)[SEG_TSS := f], ts := i\<rparr>) (core s1))\<rparr>)"
    by (rule mframe_coreI) (simp add: same_run_upd_cpu)
  ultimately show ?thesis
    by (blast intro: mframe_trans)
qed

lemma inv_pick:
  assumes inv: "sched_inv s" and idle: "me_proc s = None" and p: "p < length (procs s)"
    and slot: "scheduler_slot p s = Ok True t"
  shows "sched_inv t"
proof -
  from slot obtain c s1 where st: "pstate (procs s ! p) = RUNNABLE" and c: "me (core s) = Some c"
    and sw: "switchuvm (Some p) (s\<lparr>core := upd_cpu c (\<lambda>cp. cp\<lparr>cproc := Some p\<rparr>) (core s)\<rparr>) = Ok () s1"
    and t: "t = upd_proc p (\<lambda>q. q\<lparr>pstate := RUNNING\<rparr>) s1"
    by (auto simp: scheduler_slot_def Let_def split: if_splits elim!: bnd_OkE dest!: mycpu_core)
  note f = switchuvm_frame [OF sw]
  have "map cproc (cpus (core t)) = (map cproc (cpus (core s)))[c := Some p]"
    using mframe_run [OF f] by (simp add: t same_run_def upd_cpu_def map_update)
  moreover have "map pstate (procs t) = (map pstate (procs s))[p := RUNNING]"
    using mframe_procs [OF f] by (simp add: t map_pstate_upd)
  moreover have "c < length (cpus (core s))" and "cproc (cpus (core s) ! c) = None"
    using idle me_bound [OF c] c by (auto simp: me_proc_def mc_def)
  ultimately show ?thesis
    using inv p st by (simp add: sched_inv_def run_inv_start)
qed

lemma inv_resume: "sched_inv s \<Longrightarrow> sched_resume s = Ok () t \<Longrightarrow> sched_inv t"
  by (auto simp: sched_resume_def Let_def sched_inv_def upd_cpu_def map_upd_same elim!: bnd_OkE dest!: mycpu_core)

lemma inv_yield:
  assumes inv: "sched_inv s" and me: "me_proc s = Some p" and y: "yield s = Switch u" and bk: "scheduler_back u = Ok () t"
  shows "sched_inv t"
proof -
  from y obtain s1 q s2 where l: "on_core (acquire L_ptable) s = Ok () s1" and q: "cur s1 = Ok q s2"
    and sw: "(sched (upd_proc (the q) (\<lambda>q. q\<lparr>pstate := RUNNABLE\<rparr>) s2) :: (unit, _) res) = Switch u"
    by (auto simp: yield_def bnd_eq_Switch)
  have f: "mframe s s2"
    using mframe_lock(1) [OF l] cur_Ok(1) [OF q] by (rule mframe_trans)
  have "me (core s) \<noteq> None"
    using cur_Ok(2) [OF q] mframe_me [OF mframe_lock(1) [OF l]] by simp
  then have "q = Some p" and me2: "me_proc s2 = Some p"
    using me cur_Ok(3) [OF q] mframe_me_proc [OF f] mframe_me_proc [OF mframe_lock(1) [OF l]] by simp_all
  then show ?thesis
    using sw by (intro give_up [OF _ me2 _ _ bk]) (simp_all add: inv mframe_inv [OF f])
qed

lemma inv_sleep:
  fixes s :: "'a kproc_scheme"
  assumes inv: "sched_inv s" and z: "(sleep ch lk s :: ('r, 'a kproc_scheme) res) = Switch u"
    and bk: "scheduler_back u = Ok () t"
  shows "sched_inv t"
proof -
  from z obtain p s1 s2 where p: "cur s = Ok (Some p) s1"
    and l: "(if lk \<noteq> L_ptable then bnd (on_core (acquire L_ptable) s1) (\<lambda>_ s. on_core (release lk) s) else Ok () s1) = Ok () s2"
    and sw: "(sched (upd_proc p (\<lambda>q. q\<lparr>pchan := Some ch, pstate := SLEEPING\<rparr>) s2) :: ('r, _) res) = Switch u"
    by (auto simp: sleep_def bnd_eq_Switch split: option.splits if_splits)
  have "mframe s1 s2"
    using l by (auto split: if_splits elim!: bnd_OkE dest!: mframe_lock intro: mframe_trans)
  then have f: "mframe s s2"
    using cur_Ok(1) [OF p] by (blast intro: mframe_trans)
  then have me2: "me_proc s2 = Some p"
    using cur_Ok(2,3) [OF p] by (simp add: mframe_me_proc)
  show ?thesis
    by (intro give_up [OF _ me2 _ sw bk]) (simp_all add: inv mframe_inv [OF f])
qed

lemma reparent_inv:
  assumes "sched_inv s"
  shows "sched_inv (reparent cp s) \<and> core (reparent cp s) = core s"
proof -
  have "sched_inv (foldl (\<lambda>s i. if parent (procs s ! i) = cp then
         let s = upd_proc i (\<lambda>q. q\<lparr>parent := initproc s\<rparr>) s in
         if pstate (procs s ! i) = ZOMBIE then wakeup1 (Ch_proc (initproc s)) s else s
       else s) s is) \<and> core (foldl (\<lambda>s i. if parent (procs s ! i) = cp then
         let s = upd_proc i (\<lambda>q. q\<lparr>parent := initproc s\<rparr>) s in
         if pstate (procs s ! i) = ZOMBIE then wakeup1 (Ch_proc (initproc s)) s else s
       else s) s is) = core s" for "is"
    by (induction "is" rule: rev_induct) (auto simp: assms Let_def intro!: sched_inv_upd sched_inv_wakeup1)
  then show ?thesis
    unfolding reparent_def by blast
qed

lemma inv_exit:
  fixes s :: "'a kproc_scheme"
  assumes inv: "sched_inv s" and me: "me_proc s = Some p"
    and x: "(exit_tail (Some p) s :: ('r, 'a kproc_scheme) res) = Switch u" and bk: "scheduler_back u = Ok () t"
  shows "sched_inv t"
proof -
  from x obtain s1 ch where l: "on_core (acquire L_ptable) s = Ok () s1"
    and sw: "(sched (upd_proc p (\<lambda>q. q\<lparr>pstate := ZOMBIE\<rparr>) (reparent (Some p) (wakeup1 ch s1))) :: ('r, _) res) = Switch u"
    by (auto simp: exit_tail_def Let_def bnd_eq_Switch)
  let ?s2 = "reparent (Some p) (wakeup1 ch s1)"
  have s2: "sched_inv ?s2" "core ?s2 = core s1"
    using reparent_inv [of "wakeup1 ch s1" "Some p"] inv lock_inv(1) [OF l] by (simp_all add: sched_inv_wakeup1)
  have "me (core s1) \<noteq> None"
    using sw by (rule sched_Switch) (simp add: s2)
  then have "me_proc s1 = Some p"
    using me mframe_me_proc [OF mframe_lock(1) [OF l]] mframe_me [OF mframe_lock(1) [OF l]] by simp
  then have "me_proc ?s2 = Some p"
    by (simp add: me_proc_def s2)
  then show ?thesis
    by (intro give_up [OF s2(1) _ _ sw bk]) simp_all
qed

lemma wait_scan_no_switch: "wait_scan ps cp hk s \<noteq> Switch t"
proof (induction ps arbitrary: hk s)
  case (Cons p ps)
  have "kfree v s \<noteq> Switch t" "freevm pd s \<noteq> Switch t" for v pd and s t :: "'a kproc_scheme"
    using keeps_kfree [OF mframe_refl, of v s] keeps_freevm [OF mframe_refl, of pd s] unfolding keeps_def by blast+
  with Cons show ?case
    by (auto simp: Let_def bnd_eq_Switch)
qed simp

lemma wait_scan_inv:
  "sched_inv s \<Longrightarrow> wait_scan ps cp hk s = Ok r t \<Longrightarrow> sched_inv t \<and> (\<forall>b. r = Inr b \<longrightarrow> t = s)"
proof (induction ps arbitrary: hk s)
  case (Cons p ps)
  show ?case
  proof (cases "parent (procs s ! p) = cp \<and> pstate (procs s ! p) = ZOMBIE")
    case False
    then show ?thesis
      using Cons by (auto split: if_splits)
  next
    case True
    then obtain s1 s2 where k: "kfree (kstack (procs s ! p)) s = Ok () s1"
      and fv: "freevm (pgdir (procs (upd_proc p (\<lambda>q. q\<lparr>kstack := 0\<rparr>) s1) ! p)) (upd_proc p (\<lambda>q. q\<lparr>kstack := 0\<rparr>) s1) = Ok () s2"
      and rel: "on_core (release L_ptable) (upd_proc p (\<lambda>q. q\<lparr>pid := 0, parent := None, pname := (pname q)[0 := 0],
                                killed := False, pstate := UNUSED\<rparr>) s2) = Ok () t" and r: "\<exists>n. r = Inl n"
      using Cons.prems(2) by (auto simp: Let_def elim!: bnd_OkE)
    note f1 = keepsD [OF keeps_kfree [OF mframe_refl] k] and f2 = keepsD [OF keeps_freevm [OF mframe_refl] fv]
    have i2: "sched_inv s2"
      using Cons.prems(1) by (simp add: mframe_inv [OF f2] mframe_inv [OF f1] sched_inv_upd)
    have "pstate (procs s2 ! p) \<noteq> RUNNING" if "p < length (procs s2)"
      using that True by (simp add: mframe_procs [OF f2] mframe_procs [OF f1] upd_proc_nth)
    then have "sched_inv (upd_proc p (\<lambda>q. q\<lparr>pid := 0, parent := None, pname := (pname q)[0 := 0],
                                killed := False, pstate := UNUSED\<rparr>) s2)"
      using i2 by (intro sched_inv_upd) simp_all
    then show ?thesis
      using r lock_inv(2) [OF rel] by auto
  qed
qed simp

lemma wait_start:
  assumes "wait s = m" and "(\<exists>r t. m = Ok r t) \<or> (\<exists>u. m = Switch u)"
  obtains cp s1 where "mframe s s1" and "wait_round cp s1 = m"
proof -
  from assms obtain cp s0 s1 where "cur s = Ok cp s0" "on_core (acquire L_ptable) s0 = Ok () s1" "wait_round cp s1 = m"
    by (auto simp: wait_def bnd_eq_Switch elim!: bnd_OkE)
  then show ?thesis
    using that [of s1 cp] by (blast dest: cur_Ok mframe_lock intro: mframe_trans)
qed

lemma inv_wait:
  assumes inv: "sched_inv s" and w: "wait s = Ok r t"
  shows "sched_inv t"
proof -
  from w obtain cp s1 where f: "mframe s s1" and rd: "wait_round cp s1 = Ok r t"
    by (rule wait_start) auto
  from rd obtain x s2 where sc: "wait_scan [0..<length (procs s1)] cp False s1 = Ok x s2"
    and c: "(case x of Inl n \<Rightarrow> Ok n s2 | Inr havekids \<Rightarrow>
         if \<not> havekids \<or> killed (procat cp s2) then bnd (on_core (release L_ptable) s2) (\<lambda>_ s. Ok (- 1) s)
         else sleep (Ch_proc cp) L_ptable s2) = Ok r t"
    unfolding wait_round_def by (rule bnd_OkE)
  have "sched_inv s2"
    using wait_scan_inv [OF _ sc] inv mframe_inv [OF f] by simp
  moreover have "(sleep ch lk s2 :: (int, 'a kproc_scheme) res) \<noteq> Ok r t" for ch lk
    by (auto simp: sleep_def sched_def split: option.splits if_splits elim!: bnd_OkE)
  ultimately show ?thesis
    using c by (auto split: sum.splits if_splits elim!: bnd_OkE dest!: lock_inv)
qed

lemma inv_wait_sleep:
  assumes inv: "sched_inv s" and w: "wait s = Switch u" and bk: "scheduler_back u = Ok () t"
  shows "sched_inv t"
proof -
  from w obtain cp s1 where f: "mframe s s1" and rd: "wait_round cp s1 = Switch u"
    by (rule wait_start) auto
  from rd obtain x s2 where sc: "wait_scan [0..<length (procs s1)] cp False s1 = Ok x s2"
    and c: "(case x of Inl n \<Rightarrow> Ok n s2 | Inr havekids \<Rightarrow>
         if \<not> havekids \<or> killed (procat cp s2) then bnd (on_core (release L_ptable) s2) (\<lambda>_ s. Ok (- 1) s)
         else sleep (Ch_proc cp) L_ptable s2) = Switch u"
    unfolding wait_round_def bnd_eq_Switch using wait_scan_no_switch by blast
  have z: "(sleep (Ch_proc cp) L_ptable s2 :: (int, _) res) = Switch u"
    using c by (cases x) (auto simp: bnd_eq_Switch split: if_splits)
  have "sched_inv s2"
    using wait_scan_inv [OF _ sc] inv mframe_inv [OF f] by simp
  then show ?thesis
    by (rule inv_sleep [OF _ z bk])
qed

subsection \<open>The invariant of the process table\<close>

lemma sched_inv_init: "sched_init s \<Longrightarrow> sched_inv s"
  by (auto simp: sched_init_def sched_inv_def run_inv_def)

lemma sched_inv_step:
  assumes "sched_step s t" and inv: "sched_inv s"
  shows "sched_inv t"
  using assms(1)
proof cases
  case (other j)
  then show ?thesis using inv by (simp add: sched_inv_def)
next
  case (lock lk)
  then show ?thesis using inv by (simp add: lock_inv(1))
next
  case (unlock lk)
  then show ?thesis using inv by (simp add: lock_inv(2))
next
  case (fill p q)
  then show ?thesis using inv by (simp add: sched_inv_upd)
qed (blast intro: inv inv_pick inv_resume inv_wakeup inv_kill inv_allocproc inv_yield inv_sleep inv_exit inv_wait inv_wait_sleep)+

interpretation ptable_inv: inductive_invariant sched_init sched_step sched_inv
  by unfold_locales (auto intro: sched_inv_init sched_inv_step)


text \<open>A machine with two processors, one free page and an empty process table, and its first process
  on the first processor.\<close>

definition zero_tf :: trapframe where
  "zero_tf = \<lparr>t_edi = 0, t_esi = 0, t_ebp = 0, t_oesp = 0, t_ebx = 0, t_edx = 0, t_ecx = 0, t_eax = 0, t_gs = 0,
     t_fs = 0, t_es = 0, t_ds = 0, trapno = 0, t_err = 0, t_eip = 0, t_cs = 0, t_eflags = 0, t_esp = 0, t_ss = 0\<rparr>"

definition zero_proc :: proc where
  "zero_proc = \<lparr>sz = 0, pgdir = 0, kstack = 0, pstate = UNUSED, pid = 0, parent = None, tf = zero_tf,
     pcontext = zero_ctxt, ctx_ret = K_kernel, pchan = None, killed = False, ofile = replicate NOFILE None,
     cwd = None, pname = replicate 16 0, kintena = False\<rparr>"

definition boot_kproc :: kproc where
  "boot_kproc = \<lparr>core = boot_core, mem = \<lambda>_. 0, kend = 0x80100800, use_lock = True, freelist = 0x80101000,
     uart = True, uartout = [], cga_pos = 0, crt = \<lambda>_. 0, cons_locking = True, panicked = False,
     kpgdir = 0x80102000, kdata = 0x80108000, ts_addr = \<lambda>_. 0,
     procs = zero_proc # replicate 63 zero_proc, nextpid = 1, initproc = None, null_proc = zero_proc\<rparr>"

definition first_proc :: proc where
  "first_proc = zero_proc\<lparr>pgdir := 0x80103000, kstack := 0x80101000, pid := 1, pstate := RUNNABLE\<rparr>"

lemma boot_allocproc:
  "\<exists>t. allocproc boot_kproc = Ok (Some 0) t \<and> core t = boot_core \<and> pstate (procs t ! 0) = EMBRYO \<and> 0 < length (procs t)"
  by (simp add: allocproc_def boot_kproc_def quiet_simps boot_core_ok upd_proc_def zero_proc_def Let_def kmem_quiet_def)

lemma cr3_flags [simp]: "readeflags (lcr3 v c) = readeflags c" "readeflags (upd_cpu i f c) = readeflags c"
  by (simp_all add: readeflags_def lcr3_def upd_cpu_def)

lemma switchuvm_ok:
  assumes "cpu_ok (core s)" and "kstack (procs s ! i) \<noteq> 0" and "pgdir (procs s ! i) \<noteq> 0"
  shows "\<exists>t. switchuvm (Some i) s = Ok () t \<and> mframe s t \<and> cr3 (core t) (lapicid (core s)) = V2P (pgdir (procs s ! i))"
proof -
  from assms(1) obtain c where c: "me (core s) = Some c" "c < length (cpus (core s))" "0 \<le> ncli (mc (core s))"
    by (auto elim: cpu_okE)
  define f :: "cpu \<Rightarrow> cpu" where "f = (\<lambda>cp. cp\<lparr>gdt := (gdt cp)[SEG_TSS := (SEG16 STS_T32A (ts_addr s c) 103 0)\<lparr>sd_s := 0\<rparr>],
      ts := \<lparr>esp0 = kstack (procs s ! i) + KSTACKSIZE, ss0 = 16, iomb = 0xFFFF\<rparr>\<rparr>)"
  define d where "d = lcr3 (V2P (pgdir (procs s ! i))) (upd_cpu c f (push (core s)))"
  have f: "apicid (f x) = apicid x" "ncli (f x) = ncli x" for x
    by (simp_all add: f_def)
  have me: "me d = Some c"
    using c by (simp add: d_def lcr3_def f)
  then have "ncli (mc d) = ncli (mc (core s)) + 1"
    using c mc_push [OF c(1)] by (simp add: mc_def d_def lcr3_def upd_cpu_def push_def cli_def f)
  then have "popcli d = Ok () (pop d)"
    using c by (intro popcli_ok [OF me]) (simp_all add: d_def)
  then have "switchuvm (Some i) s = Ok () (s\<lparr>core := pop d\<rparr>)"
    using assms c by (simp add: switchuvm_def on_core_def pushcli_ok mycpu_push Let_def d_def f_def)
  moreover from this have "mframe s (s\<lparr>core := pop d\<rparr>)"
    by (rule switchuvm_frame)
  moreover have "cr3 (pop d) (lapicid (core s)) = V2P (pgdir (procs s ! i))"
    by (simp add: pop_def d_def lcr3_def upd_cpu_def push_def cli_def)
  ultimately show ?thesis
    by auto
qed

lemma upd_cproc_nth [simp]:
  "ncli (cpus (upd_cpu i (\<lambda>cp. cp\<lparr>cproc := p\<rparr>) c) ! j) = ncli (cpus c ! j)"
  "intena (cpus (upd_cpu i (\<lambda>cp. cp\<lparr>cproc := p\<rparr>) c) ! j) = intena (cpus c ! j)"
  by (cases "i < length (cpus c)"; cases "i = j"; simp add: upd_cpu_def list_update_beyond)+

lemma cpu_ok_cproc [simp]: "cpu_ok (upd_cpu i (\<lambda>cp. cp\<lparr>cproc := p\<rparr>) c) = cpu_ok c"
  by (simp add: cpu_ok_def mc_def)

lemma boot_slot:
  assumes "core s = boot_core" and "0 < length (procs s)" and "procs s ! 0 = first_proc"
  shows "\<exists>t. scheduler_slot 0 s = Ok True t \<and> pstate (procs t ! 0) = RUNNING \<and> length (procs t) = length (procs s)"
proof -
  let ?s = "s\<lparr>core := upd_cpu 0 (\<lambda>cp. cp\<lparr>cproc := Some 0\<rparr>) boot_core\<rparr>"
  obtain t where t: "switchuvm (Some 0) ?s = Ok () t" "mframe ?s t"
    using switchuvm_ok [of ?s 0] assms by (auto simp: boot_core_ok first_proc_def zero_proc_def)
  have "\<not> readeflags boot_core"
    by (simp add: boot_core_def readeflags_def)
  then have "scheduler_slot 0 s = Ok True (upd_proc 0 (\<lambda>q. q\<lparr>pstate := RUNNING\<rparr>) t)"
    using assms t(1) by (simp add: scheduler_slot_def first_proc_def on_core_def mycpu_eq boot_core_ok)
  then show ?thesis
    using mframe_procs [OF t(2)] assms(2) by (simp add: upd_proc_nth)
qed

lemma boot_core_idle: "cproc (mc boot_core) = None"
  unfolding mc_def boot_core_ok by (simp add: boot_core_def boot_cpu_def)

lemma boot_kproc_init: "sched_init boot_kproc"
  by (auto simp: sched_init_def boot_kproc_def zero_proc_def boot_core_def boot_cpu_def)

lemma boot_runs: "\<exists>t. reaches sched_init sched_step t \<and> 0 < length (procs t) \<and> pstate (procs t ! 0) = RUNNING"
proof -
  obtain t where t: "allocproc boot_kproc = Ok (Some 0) t" "core t = boot_core" "pstate (procs t ! 0) = EMBRYO" "0 < length (procs t)"
    using boot_allocproc by blast
  let ?u = "upd_proc 0 (\<lambda>_. first_proc) t"
  obtain v where v: "scheduler_slot 0 ?u = Ok True v" "pstate (procs v ! 0) = RUNNING" "length (procs v) = length (procs ?u)"
    using boot_slot [of ?u] t by (auto simp: upd_proc_nth)
  have "reaches sched_init sched_step ?u"
  proof (rule reaches_step)
    show "reaches sched_init sched_step t"
      by (rule reaches_step, rule reaches_init, rule boot_kproc_init, rule sched_step.create, rule t(1))
    show "sched_step t ?u"
      by (rule sched_step.fill [OF t(3)]) (simp add: first_proc_def)
  qed
  moreover have "sched_step ?u v"
    using t v(1) by (intro sched_step.pick [of _ 0]) (simp_all add: me_proc_def boot_core_idle)
  ultimately have "reaches sched_init sched_step v"
    by (rule reaches_step)
  then show ?thesis
    using v t by auto
qed

text \<open>C4: in every interleaving of the scheduler, \<open>yield\<close>, \<open>sleep\<close>, \<open>wakeup\<close>, \<open>kill\<close>, process creation, \<open>exit\<close> and
  \<open>wait\<close> on all processors, a process is in state RUNNING exactly when it is the current process of some
  processor, and then of one only.\<close>

theorem running_on_one_processor:
  assumes "reaches sched_init sched_step s" and "i < length (procs s)"
  shows "pstate (procs s ! i) = RUNNING \<longleftrightarrow> (\<exists>!c. c < length (cpus (core s)) \<and> cproc (cpus (core s) ! c) = Some i)"
proof -
  have "sched_inv s"
    using assms(1) by (rule ptable_inv.reachable_inv)
  then have "pstate (procs s ! i) = RUNNING \<longleftrightarrow> Some i \<in> set (map cproc (cpus (core s)))"
    and "\<forall>a < length (cpus (core s)). \<forall>b < length (cpus (core s)).
      cproc (cpus (core s) ! a) = Some i \<and> cproc (cpus (core s) ! b) = Some i \<longrightarrow> a = b"
    using assms(2) unfolding sched_inv_def run_inv_def by simp_all
  moreover have "Some i \<in> set (map cproc (cpus (core s))) \<longleftrightarrow> (\<exists>c < length (cpus (core s)). cproc (cpus (core s) ! c) = Some i)"
    unfolding in_set_conv_nth by auto
  ultimately show ?thesis
    by blast
qed

theorem running_on_one_processor_witness:
  "\<exists>s. reaches sched_init sched_step s \<and> (\<exists>!c. c < length (cpus (core s)) \<and> cproc (cpus (core s) ! c) = Some 0)"
proof -
  obtain t where "reaches sched_init sched_step t" "0 < length (procs t)" "pstate (procs t ! 0) = RUNNING"
    using boot_runs by blast
  then show ?thesis
    using running_on_one_processor [of t 0] by blast
qed

end
