(* ===== verification/Sleeplock.thy ===== *)
theory Sleeplock
  imports Sched
begin

section \<open>Sleep locks: sleeplock.c\<close>

text \<open>
  A sleep lock is a flag and the pid of its holder, guarded by a spin lock; \<open>slocks\<close> holds those of the
  buffers (\<open>L_buf\<close>) and inodes (\<open>L_inode\<close>), named by the spin lock that guards them.  A caller that finds
  the lock taken sleeps; \<open>acquiresleep_resume\<close> is what it does when it runs again.

  The second part fixes the setting in which the file system is verified below: one process executes
  a system call, no spin lock is held and no other process sleeps (\<open>calm\<close>).  There the operations
  have closed forms.
\<close>

record sleeplock =
  sl_locked :: bool
  sl_pid :: int

record kslock = kproc +
  slocks :: "lockid \<Rightarrow> sleeplock"

definition initsleeplock :: "lockid \<Rightarrow> 'a kslock_scheme \<Rightarrow> 'a kslock_scheme" where
  "initsleeplock lk s =
     s\<lparr>core := initlock lk (core s), slocks := (slocks s)(lk := \<lparr>sl_locked = False, sl_pid = 0\<rparr>)\<rparr>"

definition acquiresleep_loop :: "lockid \<Rightarrow> 'a kslock_scheme \<Rightarrow> (unit, 'a kslock_scheme) res" where
  "acquiresleep_loop lk s =
     (if sl_locked (slocks s lk) then sleep (Ch_slock lk) lk s
      else
        let s = s\<lparr>slocks := (slocks s)(lk := (slocks s lk)\<lparr>sl_locked := True\<rparr>)\<rparr> in
        bnd (cur s) (\<lambda>p s.
        let s = s\<lparr>slocks := (slocks s)(lk := (slocks s lk)\<lparr>sl_pid := pid (procat p s)\<rparr>)\<rparr> in
        on_core (release lk) s))"

definition acquiresleep :: "lockid \<Rightarrow> 'a kslock_scheme \<Rightarrow> (unit, 'a kslock_scheme) res" where
  "acquiresleep lk s = bnd (on_core (acquire lk) s) (\<lambda>_ s. acquiresleep_loop lk s)"

definition acquiresleep_resume :: "lockid \<Rightarrow> 'a kslock_scheme \<Rightarrow> (unit, 'a kslock_scheme) res" where
  "acquiresleep_resume lk s = bnd (sleep_resume lk s) (\<lambda>_ s. acquiresleep_loop lk s)"

definition releasesleep :: "lockid \<Rightarrow> 'a kslock_scheme \<Rightarrow> (unit, 'a kslock_scheme) res" where
  "releasesleep lk s =
     bnd (on_core (acquire lk) s) (\<lambda>_ s.
     let s = s\<lparr>slocks := (slocks s)(lk := (slocks s lk)\<lparr>sl_locked := False\<rparr>)\<rparr>;
         s = s\<lparr>slocks := (slocks s)(lk := (slocks s lk)\<lparr>sl_pid := 0\<rparr>)\<rparr> in
     bnd (wakeup (Ch_slock lk) s) (\<lambda>_ s.
     on_core (release lk) s))"

definition holdingsleep :: "lockid \<Rightarrow> 'a kslock_scheme \<Rightarrow> (bool, 'a kslock_scheme) res" where
  "holdingsleep lk s =
     bnd (on_core (acquire lk) s) (\<lambda>_ s.
     bnd (if sl_locked (slocks s lk) then bnd (cur s) (\<lambda>p s. Ok (sl_pid (slocks s lk) = pid (procat p s)) s)
          else Ok False s) (\<lambda>r s.
     bnd (on_core (release lk) s) (\<lambda>_ s. Ok r s)))"

subsection \<open>One process at work\<close>

definition calm :: "'a kproc_scheme \<Rightarrow> bool" where
  "calm s \<longleftrightarrow> cpu_ok (core s) \<and> (\<forall>lk. lock_free lk (core s)) \<and>
     (\<forall>p \<in> set (procs s). pstate p \<noteq> SLEEPING) \<and>
     (case me_proc s of None \<Rightarrow> False | Some i \<Rightarrow> i < length (procs s))"

definition mypid :: "'a kproc_scheme \<Rightarrow> int" where
  "mypid s = pid (procat (me_proc s) s)"

lemma calm_upd [simp]:
  "calm (s\<lparr>slocks := l\<rparr>) = calm s" "mypid (s\<lparr>slocks := l\<rparr>) = mypid s" "me_proc (s\<lparr>slocks := l\<rparr>) = me_proc s"
  "calm (t\<lparr>mem := m\<rparr>) = calm t" "mypid (t\<lparr>mem := m\<rparr>) = mypid t" "me_proc (t\<lparr>mem := m\<rparr>) = me_proc t"
  by (simp_all add: calm_def me_proc_def mypid_def procat_def split: option.splits)

lemma calm_locks: "calm s \<Longrightarrow> cpu_ok (core s)" "calm s \<Longrightarrow> lock_free lk (core s)"
  by (simp_all add: calm_def)

lemma wakeup_still:
  assumes "pt_quiet s" and "\<forall>p \<in> set (procs s). pstate p \<noteq> SLEEPING"
  shows "wakeup ch s = Ok () s"
proof -
  have "map (wake1 ch) (procs s) = procs s"
    using assms(2) by (intro map_idI) (simp add: wake1_def)
  then show ?thesis
    by (simp add: wakeup_ok assms(1) wakeup1_def)
qed

lemma wakeup_calm:
  assumes "calm s" and "lk \<noteq> L_ptable" and "core t = enter lk (core s)" and "procs t = procs s"
  shows "wakeup ch t = Ok () t"
  using assms by (intro wakeup_still) (simp_all add: pt_quiet_def calm_def cpu_ok_enter)

definition held_by :: "int \<Rightarrow> sleeplock" where
  "held_by n = \<lparr>sl_locked = True, sl_pid = n\<rparr>"

definition free_slock :: sleeplock where
  "free_slock = \<lparr>sl_locked = False, sl_pid = 0\<rparr>"

lemma procat_upd [simp]:
  "procat p (s\<lparr>slocks := l\<rparr>) = procat p s" "procat p (t\<lparr>core := c\<rparr>) = procat p t"
  by (simp_all add: procat_def split: option.splits)

lemma slock_eq:
  "(l :: sleeplock)\<lparr>sl_locked := True, sl_pid := n\<rparr> = held_by n"
  "(l :: sleeplock)\<lparr>sl_locked := False, sl_pid := 0\<rparr> = free_slock"
  by (simp_all add: held_by_def free_slock_def)

lemma acquiresleep_ok:
  assumes "calm s" and "\<not> sl_locked (slocks s lk)"
  shows "acquiresleep lk s = Ok () (s\<lparr>slocks := (slocks s)(lk := held_by (mypid s))\<rparr>)"
proof -
  have "cpu_ok (core s)" "lock_free lk (core s)"
    using assms(1) by (auto dest: calm_locks)
  moreover have "cproc (mc (enter lk (core s))) = cproc (mc (core s))"
    using calculation(1) by (rule cproc_enter)
  ultimately show ?thesis
    using assms(2)
    by (simp add: acquiresleep_def acquiresleep_loop_def quiet_simps cpu_ok_enter Let_def me_proc_def mypid_def slock_eq)
qed

lemma holdingsleep_ok:
  assumes "calm s"
  shows "holdingsleep lk s = Ok (sl_locked (slocks s lk) \<and> sl_pid (slocks s lk) = mypid s) s"
proof -
  have "cpu_ok (core s)" "lock_free lk (core s)"
    using assms(1) by (auto dest: calm_locks)
  moreover have "cproc (mc (enter lk (core s))) = cproc (mc (core s))"
    using calculation(1) by (rule cproc_enter)
  ultimately show ?thesis
    by (simp add: holdingsleep_def quiet_simps cpu_ok_enter me_proc_def mypid_def)
qed

lemma releasesleep_ok:
  assumes "calm s" and "lk \<noteq> L_ptable"
  shows "releasesleep lk s = Ok () (s\<lparr>slocks := (slocks s)(lk := free_slock)\<rparr>)"
proof -
  have "cpu_ok (core s)" "lock_free lk (core s)"
    using assms(1) by (auto dest: calm_locks)
  moreover have "wakeup ch (s\<lparr>core := enter lk (core s), slocks := l\<rparr>) = Ok () (s\<lparr>core := enter lk (core s), slocks := l\<rparr>)" for ch l
    by (rule wakeup_calm [OF assms]) simp_all
  ultimately show ?thesis
    by (simp add: releasesleep_def quiet_simps Let_def slock_eq)
qed

subsection \<open>Going to sleep\<close>

lemma push_locks: "push (s\<lparr>locks := l\<rparr>) = (push s)\<lparr>locks := l\<rparr>"
  by (simp add: push_def cli_def)

lemma held_other: "held lk c \<Longrightarrow> lk \<noteq> lk' \<Longrightarrow> held lk (enter lk' c)"
  by (simp add: held_def)

lemma release_inner:
  assumes "cpu_ok c" and "lock_free lk c" and "lk \<noteq> lk'"
  shows "release lk (enter lk' (enter lk c)) = Ok () (enter lk' c)"
proof -
  have ok: "cpu_ok (enter lk c)"
    using assms(1) by (rule cpu_ok_enter)
  have "leave lk (enter lk' (enter lk c)) = enter lk' c"
    using assms pop_push [of "push c"] cpu_ok_push [of c]
    by (simp add: leave_def enter_def push_locks pop_locks lock_free_def fun_upd_idem fun_upd_twist)
  then show ?thesis
    using release_ok [OF cpu_ok_enter(1) [OF ok], of lk lk'] cpu_ok_enter(2) [OF ok, of lk'] assms(3)
    by (simp add: held_other)
qed

text \<open>
  \<open>sleep\<close> on a channel, by a thread that holds the lock \<open>lk\<close> and no other one: the process is marked as
  sleeping on the channel, \<open>lk\<close> is released and the process table is locked when the thread stops.
\<close>

definition asleep :: "chan \<Rightarrow> bool \<Rightarrow> proc \<Rightarrow> proc" where
  "asleep ch ie q = q\<lparr>pchan := Some ch, pstate := SLEEPING, kintena := ie, pcontext := (pcontext q)\<lparr>c_eip := K_kernel\<rparr>\<rparr>"

lemma sleep_ok:
  fixes s :: "'a kproc_scheme"
  assumes c: "core s = enter lk c" "cpu_ok c" "ncli (mc c) = 0"
    and l: "lock_free lk c" "lock_free L_ptable c" "lk \<noteq> L_ptable"
    and i: "me_proc s = Some i" "i < length (procs s)"
  shows "sleep ch lk s = Switch (upd_proc i (asleep ch (intena (mc c))) (s\<lparr>core := enter L_ptable c\<rparr>))"
proof -
  note ok = cpu_ok_enter(1) [OF c(2)]
  have me: "me_proc t = Some i" if "core t = enter L_ptable c" for t :: "'a kproc_scheme"
    using i(1) that c by (simp add: me_proc_def cproc_enter)
  have mc: "ncli (cpus (enter L_ptable c) ! the (me c)) = 1" "intena (cpus (enter L_ptable c) ! the (me c)) = intena (mc c)"
    using me_enter [OF c(2), of L_ptable] c(3) by (auto simp: mc_def [of "enter _ _"])
  show ?thesis
    using i(2) mc l
    by (simp add: sleep_def sched_def quiet_simps c ok i(1) cur_ok me on_core_def acquire_ok release_inner
        lock_held_enter mycpu_enter upd_proc_def asleep_def procat_def)
qed

end
