(* ===== verification/Bio.thy ===== *)
theory Bio
  imports Sleeplock
begin

section \<open>Buffer cache and memory disk: bio.c and memide.c\<close>

text \<open>
  The record \<open>kbio\<close> adds the disk as an array of blocks and the buffer cache.  The list through
  \<open>prev\<close>/\<open>next\<close> is \<open>mru\<close>, the indexes of the buffers from \<open>head.next\<close> on, most recently used first.
  The two bits of \<open>flags\<close> are \<open>b_valid\<close> and \<open>b_dirty\<close>.  \<open>dwrites\<close> records the disk writes in the order
  in which they happen; the program does not read it, crash safety is stated over it.
\<close>

abbreviation (input) BSIZE :: nat where "BSIZE \<equiv> 512"
abbreviation (input) NBUF :: nat where "NBUF \<equiv> 30"

record buf =
  b_valid :: bool
  b_dirty :: bool
  b_dev :: u32
  blockno :: u32
  refcnt :: u32
  bdata :: "u8 list"

record kbio = kslock +
  disk :: "u8 list list"
  dwrites :: "(nat \<times> u8 list) list"
  bufs :: "buf list"
  mru :: "nat list"

definition upd_buf :: "nat \<Rightarrow> (buf \<Rightarrow> buf) \<Rightarrow> 'a kbio_scheme \<Rightarrow> 'a kbio_scheme" where
  "upd_buf i f s = s\<lparr>bufs := (bufs s)[i := f (bufs s ! i)]\<rparr>"

subsection \<open>The disk in memory\<close>

definition ideinit :: "u8 list \<Rightarrow> 'a kbio_scheme \<Rightarrow> 'a kbio_scheme" where
  "ideinit img s = s\<lparr>disk := map (\<lambda>i. slice (i * BSIZE) BSIZE img) [0..<length img div BSIZE]\<rparr>"

definition ideintr :: "'a kbio_scheme \<Rightarrow> 'a kbio_scheme" where
  "ideintr s = s"

definition iderw :: "nat \<Rightarrow> 'a kbio_scheme \<Rightarrow> (unit, 'a kbio_scheme) res" where
  "iderw b s =
     bnd (holdingsleep (L_buf b) s) (\<lambda>h s.
     if \<not> h then Panic ''iderw: buf not locked''
     else if b_valid (bufs s ! b) \<and> \<not> b_dirty (bufs s ! b) then Panic ''iderw: nothing to do''
     else if b_dev (bufs s ! b) \<noteq> 1 then Panic ''iderw: request not for disk 1''
     else if unat (blockno (bufs s ! b)) \<ge> length (disk s) then Panic ''iderw: block out of range''
     else
       let p = unat (blockno (bufs s ! b));
           s = (if b_dirty (bufs s ! b) then
                  let s = upd_buf b (\<lambda>x. x\<lparr>b_dirty := False\<rparr>) s in
                  s\<lparr>disk := (disk s)[p := bdata (bufs s ! b)], dwrites := dwrites s @ [(p, bdata (bufs s ! b))]\<rparr>
                else upd_buf b (\<lambda>x. x\<lparr>bdata := disk s ! p\<rparr>) s) in
       Ok () (upd_buf b (\<lambda>x. x\<lparr>b_valid := True\<rparr>) s))"

subsection \<open>The cache\<close>

definition binit :: "'a kbio_scheme \<Rightarrow> 'a kbio_scheme" where
  "binit s =
     (let s = s\<lparr>core := initlock L_bcache (core s)\<rparr>;
          s = s\<lparr>mru := []\<rparr> in
      foldl (\<lambda>s b. let s = initsleeplock (L_buf b) s in s\<lparr>mru := b # mru s\<rparr>) s [0..<NBUF])"

definition bget :: "u32 \<Rightarrow> u32 \<Rightarrow> 'a kbio_scheme \<Rightarrow> (nat, 'a kbio_scheme) res" where
  "bget dv bno s =
     bnd (on_core (acquire L_bcache) s) (\<lambda>_ s.
     case find (\<lambda>b. b_dev (bufs s ! b) = dv \<and> blockno (bufs s ! b) = bno) (mru s) of
       Some b \<Rightarrow>
         let s = upd_buf b (\<lambda>x. x\<lparr>refcnt := refcnt x + 1\<rparr>) s in
         bnd (on_core (release L_bcache) s) (\<lambda>_ s.
         bnd (acquiresleep (L_buf b) s) (\<lambda>_ s. Ok b s))
     | None \<Rightarrow>
         (case find (\<lambda>b. refcnt (bufs s ! b) = 0 \<and> \<not> b_dirty (bufs s ! b)) (rev (mru s)) of
            Some b \<Rightarrow>
              let s = upd_buf b (\<lambda>x. x\<lparr>b_dev := dv, blockno := bno, b_valid := False, b_dirty := False, refcnt := 1\<rparr>) s in
              bnd (on_core (release L_bcache) s) (\<lambda>_ s.
              bnd (acquiresleep (L_buf b) s) (\<lambda>_ s. Ok b s))
          | None \<Rightarrow> Panic ''bget: no buffers''))"

definition bread :: "u32 \<Rightarrow> u32 \<Rightarrow> 'a kbio_scheme \<Rightarrow> (nat, 'a kbio_scheme) res" where
  "bread dv bno s =
     bnd (bget dv bno s) (\<lambda>b s.
     bnd (if \<not> b_valid (bufs s ! b) then iderw b s else Ok () s) (\<lambda>_ s.
     Ok b s))"

definition bwrite :: "nat \<Rightarrow> 'a kbio_scheme \<Rightarrow> (unit, 'a kbio_scheme) res" where
  "bwrite b s =
     bnd (holdingsleep (L_buf b) s) (\<lambda>h s.
     if \<not> h then Panic ''bwrite'' else
     let s = upd_buf b (\<lambda>x. x\<lparr>b_dirty := True\<rparr>) s in
     iderw b s)"

definition brelse :: "nat \<Rightarrow> 'a kbio_scheme \<Rightarrow> (unit, 'a kbio_scheme) res" where
  "brelse b s =
     bnd (holdingsleep (L_buf b) s) (\<lambda>h s.
     if \<not> h then Panic ''brelse'' else
     bnd (releasesleep (L_buf b) s) (\<lambda>_ s.
     bnd (on_core (acquire L_bcache) s) (\<lambda>_ s.
     let s = upd_buf b (\<lambda>x. x\<lparr>refcnt := refcnt x - 1\<rparr>) s;
         s = (if refcnt (bufs s ! b) = 0 then s\<lparr>mru := b # remove1 b (mru s)\<rparr> else s) in
     on_core (release L_bcache) s)))"

subsection \<open>A cache in order\<close>

text \<open>
  \<open>bc s H\<close>: the cache is in order and the process holds the buffers \<open>H\<close>.  Every block has at most one
  buffer; a buffer that nobody holds and that is not dirty agrees with the disk.  \<open>view s b\<close> is what
  the kernel sees as the contents of block \<open>b\<close>: the cached copy, else the block on disk.
\<close>

definition buf_ok :: "'a kbio_scheme \<Rightarrow> nat set \<Rightarrow> nat \<Rightarrow> bool" where
  "buf_ok s H i \<longleftrightarrow> (let x = bufs s ! i in length (bdata x) = BSIZE \<and>
     (b_dev x = 0 \<and> \<not> b_valid x \<and> \<not> b_dirty x \<and> i \<notin> H \<or>
      b_dev x = 1 \<and> b_valid x \<and> unat (blockno x) < length (disk s)) \<and>
     (if i \<in> H then refcnt x = 1 \<and> slocks s (L_buf i) = held_by (mypid s)
      else refcnt x = 0 \<and> slocks s (L_buf i) = free_slock \<and>
        (b_dev x = 1 \<and> \<not> b_dirty x \<longrightarrow> bdata x = disk s ! unat (blockno x))))"

definition bc :: "'a kbio_scheme \<Rightarrow> nat set \<Rightarrow> bool" where
  "bc s H \<longleftrightarrow> calm s \<and> distinct (mru s) \<and> set (mru s) = {..<length (bufs s)} \<and> H \<subseteq> {..<length (bufs s)} \<and>
     (\<forall>x \<in> set (disk s). length x = BSIZE) \<and> (\<forall>i < length (bufs s). buf_ok s H i) \<and>
     (\<forall>i < length (bufs s). \<forall>j < length (bufs s). b_dev (bufs s ! i) = 1 \<and> b_dev (bufs s ! j) = 1 \<and>
        blockno (bufs s ! i) = blockno (bufs s ! j) \<longrightarrow> i = j)"

definition cached :: "'a kbio_scheme \<Rightarrow> u32 \<Rightarrow> nat \<Rightarrow> bool" where
  "cached s b i \<longleftrightarrow> i < length (bufs s) \<and> b_dev (bufs s ! i) = 1 \<and> blockno (bufs s ! i) = b"

definition view :: "'a kbio_scheme \<Rightarrow> u32 \<Rightarrow> u8 list" where
  "view s b = (case find_idx (\<lambda>x. b_dev x = 1 \<and> blockno x = b) (bufs s) of
     Some i \<Rightarrow> bdata (bufs s ! i) | None \<Rightarrow> disk s ! unat b)"

text \<open>The blocks that are pinned in the cache because they are dirty, and the buffers that cannot be
  recycled.\<close>

definition pinned :: "'a kbio_scheme \<Rightarrow> u32 set" where
  "pinned s = {blockno (bufs s ! i) |i. i < length (bufs s) \<and> b_dirty (bufs s ! i)}"

definition busy :: "'a kbio_scheme \<Rightarrow> nat set \<Rightarrow> nat set" where
  "busy s H = {i. i < length (bufs s) \<and> (i \<in> H \<or> b_dirty (bufs s ! i))}"

definition bframe :: "'a kbio_scheme \<Rightarrow> 'a kbio_scheme \<Rightarrow> bool" where
  "bframe s t \<longleftrightarrow> t\<lparr>slocks := slocks s, disk := disk s, dwrites := dwrites s, bufs := bufs s, mru := mru s\<rparr> = s \<and>
     length (bufs t) = length (bufs s)"

lemma bframe_refl [simp]: "bframe s s"
  by (simp add: bframe_def)

lemma bframe_trans:
  assumes "bframe s t" and "bframe t u"
  shows "bframe s u"
proof -
  have s: "t\<lparr>slocks := slocks s, disk := disk s, dwrites := dwrites s, bufs := bufs s, mru := mru s\<rparr> = s"
    and t: "u\<lparr>slocks := slocks t, disk := disk t, dwrites := dwrites t, bufs := bufs t, mru := mru t\<rparr> = t"
    and "length (bufs u) = length (bufs s)"
    using assms unfolding bframe_def by simp_all
  moreover have "u\<lparr>slocks := slocks s, disk := disk s, dwrites := dwrites s, bufs := bufs s, mru := mru s\<rparr> = s"
    by (subst (6) s [symmetric], subst t [symmetric]) simp
  ultimately show ?thesis
    by (simp add: bframe_def)
qed

lemma bframe_field:
  assumes "bframe s t" and "\<And>x l d w b m. f (x\<lparr>slocks := l, disk := d, dwrites := w, bufs := b, mru := m\<rparr>) = f x"
  shows "f t = f s"
  using assms unfolding bframe_def by metis

lemma bframe_calm:
  assumes "bframe s t"
  shows "calm t = calm s" and "mypid t = mypid s"
proof -
  have "core t = core s" "procs t = procs s" "null_proc t = null_proc s"
    by (rule bframe_field [OF assms, of core] bframe_field [OF assms, of procs] bframe_field [OF assms, of null_proc], simp)+
  then show "calm t = calm s" and "mypid t = mypid s"
    by (simp_all add: calm_def me_proc_def mypid_def procat_def split: option.splits)
qed

lemma cached_unique: "bc s H \<Longrightarrow> cached s b i \<Longrightarrow> cached s b j \<Longrightarrow> i = j"
  by (auto simp: bc_def cached_def)

lemma view_cached: "bc s H \<Longrightarrow> cached s b i \<Longrightarrow> view s b = bdata (bufs s ! i)"
proof -
  assume bc: "bc s H" and c: "cached s b i"
  then obtain j where "find_idx (\<lambda>x. b_dev x = 1 \<and> blockno x = b) (bufs s) = Some j"
    by (cases "find_idx (\<lambda>x. b_dev x = 1 \<and> blockno x = b) (bufs s)") (auto simp: find_idx_None cached_def)
  moreover from this have "cached s b j"
    by (simp add: find_idx_Some cached_def)
  ultimately show ?thesis
    using cached_unique [OF bc c] by (simp add: view_def)
qed

lemma view_uncached: "(\<And>i. \<not> cached s b i) \<Longrightarrow> view s b = disk s ! unat b"
  by (cases "find_idx (\<lambda>x. b_dev x = 1 \<and> blockno x = b) (bufs s)")
     (auto simp: view_def find_idx_Some cached_def)


subsection \<open>Reading and releasing a block\<close>

lemma calm_bufs [simp]:
  "calm (s\<lparr>bufs := x\<rparr>) = calm s" "mypid (s\<lparr>bufs := x\<rparr>) = mypid s" "me_proc (s\<lparr>bufs := x\<rparr>) = me_proc s"
  "calm (s\<lparr>mru := m\<rparr>) = calm s" "mypid (s\<lparr>mru := m\<rparr>) = mypid s" "calm (s\<lparr>disk := d\<rparr>) = calm s"
  "mypid (s\<lparr>disk := d\<rparr>) = mypid s" "calm (s\<lparr>dwrites := w\<rparr>) = calm s" "mypid (s\<lparr>dwrites := w\<rparr>) = mypid s"
  by (simp_all add: calm_def me_proc_def mypid_def procat_def split: option.splits)

lemma find_exists:
  assumes "i \<in> set xs" and "P i"
  obtains j where "find P xs = Some j" and "j \<in> set xs" and "P j"
proof (cases "find P xs")
  case None
  then show ?thesis
    using assms by (auto simp: find_None_iff)
next
  case (Some j)
  then show ?thesis
    using that [of j] by (auto simp: find_Some_iff)
qed

lemma find_unique:
  assumes "i \<in> set xs" and "P i" and "\<And>j. j \<in> set xs \<Longrightarrow> P j \<Longrightarrow> j = i"
  shows "find P xs = Some i"
proof -
  obtain j where "find P xs = Some j" "j \<in> set xs" "P j"
    using assms(1,2) by (rule find_exists)
  then show ?thesis
    using assms(3) by simp
qed

lemma bcD:
  assumes "bc s H"
  shows "calm s" and "distinct (mru s)" and "set (mru s) = {..<length (bufs s)}" and "H \<subseteq> {..<length (bufs s)}"
    and "\<forall>i < length (bufs s). buf_ok s H i"
  using assms by (auto simp: bc_def)

lemma bget_hit:
  assumes bc: "bc s H" and c: "cached s b i" and i: "i \<notin> H"
  shows "bget 1 b s = Ok i (s\<lparr>bufs := (bufs s)[i := (bufs s ! i)\<lparr>refcnt := 1\<rparr>],
    slocks := (slocks s)(L_buf i := held_by (mypid s))\<rparr>)"
proof -
  have f: "find (\<lambda>j. b_dev (bufs s ! j) = 1 \<and> blockno (bufs s ! j) = b) (mru s) = Some i"
  proof (rule find_unique)
    show "i \<in> set (mru s)" "b_dev (bufs s ! i) = 1 \<and> blockno (bufs s ! i) = b"
      using c bcD(3) [OF bc] by (auto simp: cached_def)
    show "j = i" if "j \<in> set (mru s)" "b_dev (bufs s ! j) = 1 \<and> blockno (bufs s ! j) = b" for j
      using that c bcD(3) [OF bc] by (intro cached_unique [OF bc, of b]) (auto simp: cached_def)
  qed
  have "refcnt (bufs s ! i) = 0" "slocks s (L_buf i) = free_slock"
    using bcD(5) [OF bc] c i by (auto simp: cached_def buf_ok_def Let_def)
  then show ?thesis
    using f bcD(1) [OF bc]
    by (simp add: bget_def quiet_simps calm_locks upd_buf_def acquiresleep_ok free_slock_def Let_def)
qed

lemma bget_miss:
  assumes bc: "bc s H" and c: "\<And>i. \<not> cached s b i" and room: "busy s H \<noteq> {..<length (bufs s)}"
  obtains i where "i < length (bufs s)" and "i \<notin> H" and "\<not> b_dirty (bufs s ! i)"
    and "bget 1 b s = Ok i (s\<lparr>bufs := (bufs s)[i := (bufs s ! i)\<lparr>b_dev := 1, blockno := b, b_valid := False,
      b_dirty := False, refcnt := 1\<rparr>], slocks := (slocks s)(L_buf i := held_by (mypid s))\<rparr>)"
proof -
  have n: "find (\<lambda>j. b_dev (bufs s ! j) = 1 \<and> blockno (bufs s ! j) = b) (mru s) = None"
    using c bcD(3) [OF bc] by (auto simp: find_None_iff cached_def)
  obtain k where k: "k < length (bufs s)" "k \<notin> H" "\<not> b_dirty (bufs s ! k)"
    using room by (auto simp: busy_def)
  then have "refcnt (bufs s ! k) = 0 \<and> \<not> b_dirty (bufs s ! k)" and "k \<in> set (rev (mru s))"
    using bcD(3,5) [OF bc] by (auto simp: buf_ok_def Let_def)
  from find_exists [where P = "\<lambda>j. refcnt (bufs s ! j) = 0 \<and> \<not> b_dirty (bufs s ! j)", OF this(2,1)]
  obtain i where i: "find (\<lambda>j. refcnt (bufs s ! j) = 0 \<and> \<not> b_dirty (bufs s ! j)) (rev (mru s)) = Some i"
    "i \<in> set (rev (mru s))" "refcnt (bufs s ! i) = 0 \<and> \<not> b_dirty (bufs s ! i)" .
  then have l: "i < length (bufs s)"
    using bcD(3) [OF bc] by auto
  then have h: "i \<notin> H" "slocks s (L_buf i) = free_slock"
    using bcD(5) [OF bc] i(3) by (auto simp: buf_ok_def Let_def split: if_splits)
  show ?thesis
    using n i h bcD(1) [OF bc]
    by (intro that [OF l h(1)])
       (simp_all add: bget_def quiet_simps calm_locks upd_buf_def acquiresleep_ok free_slock_def Let_def)
qed


text \<open>The state in which the process has taken buffer \<open>i\<close>, now \<open>x\<close>.\<close>

definition take_buf :: "nat \<Rightarrow> buf \<Rightarrow> 'a kbio_scheme \<Rightarrow> 'a kbio_scheme" where
  "take_buf i x s = s\<lparr>slocks := (slocks s)(L_buf i := held_by (mypid s)), bufs := (bufs s)[i := x]\<rparr>"

lemma bufs_slocks: "s\<lparr>bufs := b, slocks := l\<rparr> = s\<lparr>slocks := l, bufs := b\<rparr>"
  by (cases s) simp

lemma take_buf_simps [simp]:
  "bufs (take_buf i x s) = (bufs s)[i := x]" "disk (take_buf i x s) = disk s" "mru (take_buf i x s) = mru s"
  "dwrites (take_buf i x s) = dwrites s" "calm (take_buf i x s) = calm s" "mypid (take_buf i x s) = mypid s"
  "slocks (take_buf i x s) = (slocks s)(L_buf i := held_by (mypid s))" "bframe s (take_buf i x s)"
  by (simp_all add: take_buf_def bframe_def)

lemma bread_step:
  assumes bc: "bc s H" and b: "unat b < length (disk s)" and free: "\<And>i. i \<in> H \<Longrightarrow> \<not> cached s b i"
    and room: "(\<exists>i. cached s b i) \<or> busy s H \<noteq> {..<length (bufs s)}"
  obtains i x where "bread 1 b s = Ok i (take_buf i x s)" and "i < length (bufs s)" and "i \<notin> H"
    and "b_dev x = 1" "blockno x = b" "b_valid x" "refcnt x = 1" "bdata x = view s b" "b_dirty x = b_dirty (bufs s ! i)"
    and "cached s b i \<or> (\<forall>j. \<not> cached s b j) \<and> \<not> b_dirty (bufs s ! i)"
proof (cases "\<exists>i. cached s b i")
  case True
  then obtain i where i: "cached s b i"
    by blast
  then have "i \<notin> H" and v: "b_valid (bufs s ! i)" and l: "i < length (bufs s)"
    using free bcD(5) [OF bc] by (auto simp: cached_def buf_ok_def Let_def)
  then have "bread 1 b s = Ok i (take_buf i ((bufs s ! i)\<lparr>refcnt := 1\<rparr>) s)"
    using bget_hit [OF bc i] by (simp add: bread_def take_buf_def bufs_slocks)
  then show ?thesis
    using that [of i "(bufs s ! i)\<lparr>refcnt := 1\<rparr>"] i l v \<open>i \<notin> H\<close> view_cached [OF bc i] by (simp add: cached_def)
next
  case False
  then have nc: "\<And>i. \<not> cached s b i"
    by blast
  obtain i where i: "i < length (bufs s)" "i \<notin> H" "\<not> b_dirty (bufs s ! i)"
    and g: "bget 1 b s = Ok i (s\<lparr>bufs := (bufs s)[i := (bufs s ! i)\<lparr>b_dev := 1, blockno := b, b_valid := False,
      b_dirty := False, refcnt := 1\<rparr>], slocks := (slocks s)(L_buf i := held_by (mypid s))\<rparr>)"
    using bget_miss [OF bc nc] room nc by metis
  let ?x = "(bufs s ! i)\<lparr>b_dev := 1, blockno := b, b_dirty := False, refcnt := 1, bdata := disk s ! unat b, b_valid := True\<rparr>"
  have "bread 1 b s = Ok i (take_buf i ?x s)"
    using i(1) b bcD(1) [OF bc]
    by (simp add: bread_def g iderw_def holdingsleep_ok held_by_def upd_buf_def Let_def take_buf_def)
  then show ?thesis
    using that [of i ?x] i nc view_uncached [OF nc] by simp
qed

lemma bc_take:
  assumes bc: "bc s H" and i: "i < length (bufs s)"
    and x: "b_dev x = 1" "b_valid x" "refcnt x = 1" "length (bdata x) = BSIZE" "unat (blockno x) < length (disk s)"
    and u: "\<And>j. cached s (blockno x) j \<Longrightarrow> j = i"
  shows "bc (take_buf i x s) (insert i H)"
proof -
  have "buf_ok (take_buf i x s) (insert i H) j" if "j < length (bufs s)" for j
    using bcD(5) [OF bc] that i x by (cases "j = i") (auto simp: buf_ok_def Let_def nth_list_update)
  moreover have "j = k" if "j < length (bufs s)" "k < length (bufs s)"
    "b_dev ((bufs s)[i := x] ! j) = 1" "b_dev ((bufs s)[i := x] ! k) = 1"
    "blockno ((bufs s)[i := x] ! j) = blockno ((bufs s)[i := x] ! k)" for j k
    using that u [of j] u [of k] i cached_unique [OF bc, of _ j k]
    by (auto simp: nth_list_update cached_def split: if_splits)
  ultimately show ?thesis
    using bc i unfolding bc_def by simp
qed


lemma bc_data: "bc s H \<Longrightarrow> cached s b i \<Longrightarrow> length (bdata (bufs s ! i)) = BSIZE \<and> unat b < length (disk s)"
  by (auto simp: bc_def cached_def buf_ok_def Let_def)

lemma length_view: "bc s H \<Longrightarrow> unat b < length (disk s) \<Longrightarrow> length (view s b) = BSIZE"
proof -
  assume bc: "bc s H" and b: "unat b < length (disk s)"
  show ?thesis
  proof (cases "\<exists>i. cached s b i")
    case True
    then show ?thesis
      using bc_data [OF bc] view_cached [OF bc] by auto
  next
    case False
    then show ?thesis
      using view_uncached [of s b] bc b by (simp add: bc_def)
  qed
qed

lemma view_other:
  assumes bs: "bc s H" and bt: "bc t K" and d: "disk t ! unat c = disk s ! unat c"
    and c: "\<And>j. cached t c j \<Longrightarrow> cached s c j \<and> bdata (bufs t ! j) = bdata (bufs s ! j)"
    and n: "\<And>j. cached s c j \<Longrightarrow> \<not> cached t c j \<Longrightarrow> bdata (bufs s ! j) = disk s ! unat c"
  shows "view t c = view s c"
proof (cases "\<exists>j. cached t c j")
  case True
  then show ?thesis
    using c view_cached [OF bs] view_cached [OF bt] by force
next
  case False
  then have "view t c = disk s ! unat c"
    using view_uncached [of t c] d by simp
  then show ?thesis
    using False n view_cached [OF bs, of c] view_uncached [of s c] by (cases "\<exists>j. cached s c j") auto
qed

lemma view_take:
  assumes bs: "bc s H" and bt: "bc (take_buf i x s) K" and i: "i < length (bufs s)" "i \<notin> H"
    and x: "b_dev x = 1" and old: "cached s (blockno x) i \<or> \<not> b_dirty (bufs s ! i)"
  shows "view (take_buf i x s) = (view s)(blockno x := bdata x)"
proof
  fix c
  show "view (take_buf i x s) c = ((view s)(blockno x := bdata x)) c"
  proof (cases "c = blockno x")
    case True
    then show ?thesis
      using view_cached [OF bt, of c i] i x by (simp add: cached_def)
  next
    case False
    have "view (take_buf i x s) c = view s c"
    proof (rule view_other [OF bs bt])
      show "disk (take_buf i x s) ! unat c = disk s ! unat c"
        by simp
      show "cached s c j \<and> bdata (bufs (take_buf i x s) ! j) = bdata (bufs s ! j)" if "cached (take_buf i x s) c j" for j
        using that i False by (auto simp: cached_def nth_list_update split: if_splits)
      show "bdata (bufs s ! j) = disk s ! unat c" if "cached s c j" "\<not> cached (take_buf i x s) c j" for j
      proof -
        have "j = i"
          using that i by (auto simp: cached_def nth_list_update split: if_splits)
        moreover have "\<not> b_dirty (bufs s ! i)"
          using old that False \<open>j = i\<close> by (auto simp: cached_def)
        ultimately show ?thesis
          using that(1) i bcD(5) [OF bs] by (auto simp: cached_def buf_ok_def Let_def)
      qed
    qed
    then show ?thesis
      using False by simp
  qed
qed

lemma bread_ok:
  assumes bc: "bc s H" and b: "unat b < length (disk s)" and free: "\<forall>i \<in> H. \<not> cached s b i"
    and room: "(\<exists>i. cached s b i) \<or> busy s H \<noteq> {..<length (bufs s)}"
  obtains i t where "bread 1 b s = Ok i t" and "bc t (insert i H)" and "i \<notin> H" and "cached t b i"
    and "view t = view s" and "bframe s t" and "disk t = disk s" and "dwrites t = dwrites s"
    and "pinned t = pinned s" and "busy t (insert i H) = insert i (busy s H)"
    and "\<forall>j \<in> H. bufs t ! j = bufs s ! j" and "if b_dirty (bufs t ! i) then i \<in> busy s H else view s b = disk s ! unat b"
proof -
  obtain i x where r: "bread 1 b s = Ok i (take_buf i x s)" and i: "i < length (bufs s)" "i \<notin> H"
    and x: "b_dev x = 1" "blockno x = b" "b_valid x" "refcnt x = 1" "bdata x = view s b" "b_dirty x = b_dirty (bufs s ! i)"
    and old: "cached s b i \<or> (\<forall>j. \<not> cached s b j) \<and> \<not> b_dirty (bufs s ! i)"
    using bread_step [OF bc b _ room] free by blast
  have bt: "bc (take_buf i x s) (insert i H)"
    using bc i(1) x length_view [OF bc b] b old cached_unique [OF bc]
    by (intro bc_take) auto
  have v: "view (take_buf i x s) = view s"
    using view_take [OF bc bt i x(1)] old x by (auto simp: fun_upd_idem)
  have p: "pinned (take_buf i x s) = pinned s"
  proof -
    have "(b_dirty ((bufs s)[i := x] ! j) \<longleftrightarrow> b_dirty (bufs s ! j)) \<and>
        (b_dirty (bufs s ! j) \<longrightarrow> blockno ((bufs s)[i := x] ! j) = blockno (bufs s ! j))" if "j < length (bufs s)" for j
      using that i x old by (cases "j = i") (auto simp: nth_list_update cached_def)
    then show ?thesis
      unfolding pinned_def by (intro Collect_cong) (auto, metis+)
  qed
  have "busy (take_buf i x s) (insert i H) = insert i (busy s H)"
    using i x by (auto simp: busy_def nth_list_update)
  moreover have "\<forall>j \<in> H. bufs (take_buf i x s) ! j = bufs s ! j"
    using i by (auto simp: nth_list_update)
  moreover have "if b_dirty (bufs (take_buf i x s) ! i) then i \<in> busy s H else view s b = disk s ! unat b"
  proof (cases "cached s b i")
    case True
    then show ?thesis
      using bcD(5) [OF bc] i x view_cached [OF bc True] by (auto simp: cached_def buf_ok_def busy_def Let_def)
  next
    case False
    then show ?thesis
      using old view_uncached [of s b] i x by (auto simp: cached_def)
  qed
  ultimately show ?thesis
    using r bt i x v p by (intro that [of i "take_buf i x s"]) (auto simp: cached_def)
qed


subsection \<open>Changing, writing and releasing a buffer that is held\<close>

definition held_upd :: "(buf \<Rightarrow> buf) \<Rightarrow> bool" where
  "held_upd f \<longleftrightarrow> (\<forall>x. b_dev (f x) = b_dev x \<and> blockno (f x) = blockno x \<and> b_valid (f x) = b_valid x \<and> refcnt (f x) = refcnt x)"

lemma upd_buf_simps [simp]:
  "bufs (upd_buf i f s) = (bufs s)[i := f (bufs s ! i)]" "disk (upd_buf i f s) = disk s" "mru (upd_buf i f s) = mru s"
  "dwrites (upd_buf i f s) = dwrites s" "calm (upd_buf i f s) = calm s" "mypid (upd_buf i f s) = mypid s"
  "slocks (upd_buf i f s) = slocks s" "bframe s (upd_buf i f s)"
  by (simp_all add: upd_buf_def bframe_def)

lemma cached_held: "held_upd f \<Longrightarrow> cached (upd_buf i f s) c j = cached s c j"
  by (cases "i = j"; cases "i < length (bufs s)") (simp_all add: cached_def held_upd_def list_update_beyond)

lemma bc_held:
  assumes bc: "bc s H" and i: "i \<in> H" and f: "held_upd f" and l: "length (bdata (f (bufs s ! i))) = BSIZE"
  shows "bc (upd_buf i f s) H"
proof -
  have il: "i < length (bufs s)"
    using bcD(4) [OF bc] i by auto
  have "buf_ok (upd_buf i f s) H j" if "j < length (bufs s)" for j
    using bcD(5) [OF bc] that il i f l by (cases "j = i") (auto simp: buf_ok_def held_upd_def Let_def)
  moreover have "j = k" if "j < length (bufs s)" "k < length (bufs s)"
    "b_dev ((bufs s)[i := f (bufs s ! i)] ! j) = 1" "b_dev ((bufs s)[i := f (bufs s ! i)] ! k) = 1"
    "blockno ((bufs s)[i := f (bufs s ! i)] ! j) = blockno ((bufs s)[i := f (bufs s ! i)] ! k)" for j k
    using that cached_held [OF f, of i s _ j] cached_held [OF f, of i s _ k] cached_unique [OF bc, of _ j k]
    by (auto simp: cached_def)
  ultimately show ?thesis
    using bc unfolding bc_def by simp
qed

lemma view_held:
  assumes bc: "bc s H" and i: "i \<in> H" and f: "held_upd f" and l: "length (bdata (f (bufs s ! i))) = BSIZE" and c: "cached s b i"
  shows "view (upd_buf i f s) = (view s)(b := bdata (f (bufs s ! i)))"
proof
  fix c'
  note bt = bc_held [OF bc i f l]
  show "view (upd_buf i f s) c' = ((view s)(b := bdata (f (bufs s ! i)))) c'"
  proof (cases "c' = b")
    case True
    then show ?thesis
      using view_cached [OF bt, of b i] c f by (simp add: cached_def held_upd_def)
  next
    case False
    then have ne: "j \<noteq> i" if "cached s c' j" for j
      using that c by (auto simp: cached_def)
    have "view (upd_buf i f s) c' = view s c'"
    proof (rule view_other [OF bc bt])
      show "cached s c' j \<and> bdata (bufs (upd_buf i f s) ! j) = bdata (bufs s ! j)" if "cached (upd_buf i f s) c' j" for j
        using that ne [of j] cached_held [OF f, of i s c' j] by simp
    qed (simp_all add: cached_held [OF f])
    then show ?thesis
      using False by simp
  qed
qed

text \<open>What \<open>bwrite\<close> and \<open>brelse\<close> do to the state.\<close>

definition write_buf :: "nat \<Rightarrow> 'a kbio_scheme \<Rightarrow> 'a kbio_scheme" where
  "write_buf i s = (let b = unat (blockno (bufs s ! i)); x = bufs s ! i in
     s\<lparr>disk := (disk s)[b := bdata x], dwrites := dwrites s @ [(b, bdata x)], bufs := (bufs s)[i := x\<lparr>b_dirty := False\<rparr>]\<rparr>)"

definition drop_buf :: "nat \<Rightarrow> 'a kbio_scheme \<Rightarrow> 'a kbio_scheme" where
  "drop_buf i s = s\<lparr>slocks := (slocks s)(L_buf i := free_slock), bufs := (bufs s)[i := (bufs s ! i)\<lparr>refcnt := 0\<rparr>],
     mru := i # remove1 i (mru s)\<rparr>"

lemma buf_idle_valid: "b_valid x \<Longrightarrow> (x :: buf)\<lparr>b_valid := True\<rparr> = x"
  by (cases x) simp

lemma heldD:
  assumes "bc s H" and "i \<in> H"
  shows "i < length (bufs s)" "b_dev (bufs s ! i) = 1" "b_valid (bufs s ! i)" "refcnt (bufs s ! i) = 1"
    "unat (blockno (bufs s ! i)) < length (disk s)" "slocks s (L_buf i) = held_by (mypid s)" "calm s"
    "length (bdata (bufs s ! i)) = BSIZE"
proof -
  show i: "i < length (bufs s)"
    using bcD(4) [OF assms(1)] assms(2) by auto
  show "calm s"
    by (rule bcD(1) [OF assms(1)])
qed (use bcD(4,5) [OF assms(1)] assms(2) in \<open>auto simp: buf_ok_def Let_def\<close>)

lemma bwrite_eq:
  assumes "bc s H" and "i \<in> H"
  shows "bwrite i s = Ok () (write_buf i s)"
  using heldD [OF assms]
  by (simp add: bwrite_def iderw_def holdingsleep_ok held_by_def upd_buf_def Let_def write_buf_def buf_idle_valid)

lemma brelse_eq:
  assumes "bc s H" and "i \<in> H"
  shows "brelse i s = Ok () (drop_buf i s)"
  using heldD [OF assms]
  by (simp add: brelse_def holdingsleep_ok releasesleep_ok held_by_def upd_buf_def Let_def drop_buf_def quiet_simps calm_locks)


lemma write_buf_simps [simp]:
  "disk (write_buf i s) = (disk s)[unat (blockno (bufs s ! i)) := bdata (bufs s ! i)]"
  "dwrites (write_buf i s) = dwrites s @ [(unat (blockno (bufs s ! i)), bdata (bufs s ! i))]"
  "bufs (write_buf i s) = (bufs s)[i := (bufs s ! i)\<lparr>b_dirty := False\<rparr>]" "mru (write_buf i s) = mru s"
  "slocks (write_buf i s) = slocks s" "calm (write_buf i s) = calm s" "mypid (write_buf i s) = mypid s" "bframe s (write_buf i s)"
  by (simp_all add: write_buf_def Let_def bframe_def)

lemma cached_write: "cached (write_buf i s) c j = cached s c j"
  by (cases "i = j"; cases "i < length (bufs s)") (simp_all add: cached_def list_update_beyond)

lemma nth_write_buf:
  "bdata (bufs (write_buf i s) ! j) = bdata (bufs s ! j)" "blockno (bufs (write_buf i s) ! j) = blockno (bufs s ! j)"
  by (cases "i = j"; cases "i < length (bufs s)"; simp add: list_update_beyond)+

lemma bc_write:
  assumes bc: "bc s H" and i: "i \<in> H"
  shows "bc (write_buf i s) H"
proof -
  note h = heldD [OF bc i]
  have "buf_ok (write_buf i s) H j" if j: "j < length (bufs s)" for j
  proof (cases "j = i")
    case True
    then show ?thesis
      using bcD(5) [OF bc] h i by (auto simp: buf_ok_def Let_def)
  next
    case False
    then have "blockno (bufs s ! j) \<noteq> blockno (bufs s ! i)" if "b_dev (bufs s ! j) = 1"
      using cached_unique [OF bc, of _ j i] that j h by (auto simp: cached_def)
    then have "unat (blockno (bufs s ! j)) \<noteq> unat (blockno (bufs s ! i))" if "b_dev (bufs s ! j) = 1"
      using that by (simp add: word_unat_eq_iff)
    then show ?thesis
      using bcD(5) [OF bc] j False by (auto simp: buf_ok_def Let_def)
  qed
  moreover have "j = k" if "j < length (bufs s)" "k < length (bufs s)"
    "b_dev (bufs (write_buf i s) ! j) = 1" "b_dev (bufs (write_buf i s) ! k) = 1"
    "blockno (bufs (write_buf i s) ! j) = blockno (bufs (write_buf i s) ! k)" for j k
    using that cached_write [of i s _ j] cached_write [of i s _ k] cached_unique [OF bc, of _ j k]
    by (auto simp: cached_def)
  moreover have "length x = BSIZE" if "x \<in> set (disk (write_buf i s))" for x
  proof -
    have "x \<in> insert (bdata (bufs s ! i)) (set (disk s))"
      using that set_update_subset_insert [of "disk s" "unat (blockno (bufs s ! i))" "bdata (bufs s ! i)"] by auto
    then show ?thesis
      using h(8) bc unfolding bc_def by blast
  qed
  ultimately show ?thesis
    using bc unfolding bc_def by simp
qed

lemma view_write:
  assumes bc: "bc s H" and i: "i \<in> H"
  shows "view (write_buf i s) = view s"
proof
  fix c
  note h = heldD [OF bc i] and bt = bc_write [OF bc i]
  show "view (write_buf i s) c = view s c"
  proof (cases "c = blockno (bufs s ! i)")
    case True
    then have "cached s c i"
      using h by (simp add: cached_def)
    then show ?thesis
      using view_cached [OF bc] view_cached [OF bt] h cached_write [of i s c i] by simp
  next
    case False
    then have "unat c \<noteq> unat (blockno (bufs s ! i))"
      by (simp add: word_unat_eq_iff)
    then show ?thesis
      by (intro view_other [OF bc bt]) (auto simp: cached_write nth_write_buf simp del: write_buf_simps(3))
  qed
qed

lemma pinned_write: "bc s H \<Longrightarrow> i \<in> H \<Longrightarrow> pinned (write_buf i s) = pinned s - {blockno (bufs s ! i)}"
proof (intro set_eqI iffI)
  fix c
  assume bc: "bc s H" and i: "i \<in> H"
  note h = heldD [OF bc i]
  have dirty: "b_dev (bufs s ! j) = 1" if "j < length (bufs s)" "b_dirty (bufs s ! j)" for j
    using that bcD(5) [OF bc] by (auto simp: buf_ok_def Let_def)
  show "c \<in> pinned s - {blockno (bufs s ! i)}" if p: "c \<in> pinned (write_buf i s)"
  proof -
    obtain j where j: "j < length (bufs s)" "j \<noteq> i" "b_dirty (bufs s ! j)" "c = blockno (bufs s ! j)"
      using p h by (auto simp: pinned_def nth_list_update split: if_splits)
    then show ?thesis
      using dirty [of j] cached_unique [OF bc, of c i j] h by (auto simp: pinned_def cached_def)
  qed
  show "c \<in> pinned (write_buf i s)" if c: "c \<in> pinned s - {blockno (bufs s ! i)}"
  proof -
    obtain j where "j < length (bufs s)" "b_dirty (bufs s ! j)" "c = blockno (bufs s ! j)" "j \<noteq> i"
      using c by (auto simp: pinned_def)
    then show ?thesis
      by (auto simp: pinned_def intro!: exI [of _ j])
  qed
qed

lemma busy_write: "i \<in> H \<Longrightarrow> busy (write_buf i s) H = busy s H"
  by (cases "i < length (bufs s)") (auto simp: busy_def nth_list_update list_update_beyond split: if_splits)

lemma drop_buf_simps [simp]:
  "disk (drop_buf i s) = disk s" "dwrites (drop_buf i s) = dwrites s"
  "bufs (drop_buf i s) = (bufs s)[i := (bufs s ! i)\<lparr>refcnt := 0\<rparr>]" "mru (drop_buf i s) = i # remove1 i (mru s)"
  "slocks (drop_buf i s) = (slocks s)(L_buf i := free_slock)" "calm (drop_buf i s) = calm s" "mypid (drop_buf i s) = mypid s" "bframe s (drop_buf i s)"
  by (simp_all add: drop_buf_def bframe_def)

lemma cached_drop: "cached (drop_buf i s) c j = cached s c j"
  by (cases "i = j"; cases "i < length (bufs s)") (simp_all add: cached_def list_update_beyond)

lemma nth_drop_buf:
  "bdata (bufs (drop_buf i s) ! j) = bdata (bufs s ! j)" "b_dirty (bufs (drop_buf i s) ! j) = b_dirty (bufs s ! j)"
  "blockno (bufs (drop_buf i s) ! j) = blockno (bufs s ! j)" "b_dev (bufs (drop_buf i s) ! j) = b_dev (bufs s ! j)"
  by (cases "i = j"; cases "i < length (bufs s)"; simp add: list_update_beyond)+

lemma bc_drop:
  assumes bc: "bc s H" and i: "i \<in> H"
    and c: "b_dirty (bufs s ! i) \<or> bdata (bufs s ! i) = disk s ! unat (blockno (bufs s ! i))"
  shows "bc (drop_buf i s) (H - {i})"
proof -
  note h = heldD [OF bc i]
  have "buf_ok (drop_buf i s) (H - {i}) j" if j: "j < length (bufs s)" for j
    using bcD(5) [OF bc] h i c j by (cases "j = i") (auto simp: buf_ok_def Let_def)
  moreover have "j = k" if "j < length (bufs s)" "k < length (bufs s)"
    "b_dev (bufs (drop_buf i s) ! j) = 1" "b_dev (bufs (drop_buf i s) ! k) = 1"
    "blockno (bufs (drop_buf i s) ! j) = blockno (bufs (drop_buf i s) ! k)" for j k
    using that cached_drop [of i s _ j] cached_drop [of i s _ k] cached_unique [OF bc, of _ j k]
    by (auto simp: cached_def)
  moreover have "distinct (mru (drop_buf i s))" "set (mru (drop_buf i s)) = {..<length (bufs s)}"
    using bcD(2,3) [OF bc] h(1) by (auto simp: distinct_remove1)
  ultimately show ?thesis
    using bc unfolding bc_def by auto
qed

lemma view_drop:
  assumes bc: "bc s H" and i: "i \<in> H"
    and c: "b_dirty (bufs s ! i) \<or> bdata (bufs s ! i) = disk s ! unat (blockno (bufs s ! i))"
  shows "view (drop_buf i s) = view s"
  using view_other [OF bc bc_drop [OF assms]] by (auto simp: cached_drop nth_drop_buf simp del: drop_buf_simps(3))

lemma pinned_drop: "pinned (drop_buf i s) = pinned s"
  unfolding pinned_def nth_drop_buf by simp

lemma busy_drop: "busy (drop_buf i s) (H - {i}) = busy s H - (if b_dirty (bufs s ! i) then {} else {i})"
  unfolding busy_def nth_drop_buf by auto


subsection \<open>What is written is read\<close>

lemma busy_sub: "busy s H \<subseteq> {..<length (bufs s)}"
  by (auto simp: busy_def)

lemma busy_upd: "(\<And>x. b_dirty (f x) = b_dirty x) \<Longrightarrow> busy (upd_buf i f s) H = busy s H"
proof -
  assume "\<And>x. b_dirty (f x) = b_dirty x"
  then have "b_dirty (bufs (upd_buf i f s) ! j) = b_dirty (bufs s ! j)" for j
    by (cases "i = j"; cases "i < length (bufs s)") (simp_all add: list_update_beyond)
  then show ?thesis
    unfolding busy_def by simp
qed

lemma pinned_upd:
  assumes "\<And>x. b_dirty (f x) = b_dirty x" and "\<And>x. blockno (f x) = blockno x"
  shows "pinned (upd_buf i f s) = pinned s"
proof -
  have "b_dirty (bufs (upd_buf i f s) ! j) = b_dirty (bufs s ! j)" "blockno (bufs (upd_buf i f s) ! j) = blockno (bufs s ! j)" for j
    using assms by (cases "i = j"; cases "i < length (bufs s)"; simp add: list_update_beyond)+
  then show ?thesis
    unfolding pinned_def by simp
qed

lemma bframe_length: "bframe s t \<Longrightarrow> length (bufs t) = length (bufs s)"
  by (simp add: bframe_def)

text \<open>A change of the whole contents of a block: \<open>bread\<close>, assignment, \<open>bwrite\<close>, \<open>brelse\<close>.\<close>

lemma put_block:
  assumes bc: "bc s H" and b: "unat b < length (disk s)" and free: "\<forall>i \<in> H. \<not> cached s b i"
    and room: "(\<exists>i. cached s b i) \<or> busy s H \<noteq> {..<length (bufs s)}" and f: "\<And>x. length x = BSIZE \<Longrightarrow> length (f x) = BSIZE"
  obtains t where "bnd (bread 1 b s) (\<lambda>i s. bnd (bwrite i (upd_buf i (\<lambda>x. x\<lparr>bdata := f (bdata x)\<rparr>) s)) (\<lambda>_ s. brelse i s)) = Ok () t"
    and "bc t H" and "view t = (view s)(b := f (view s b))" and "bframe s t" and "disk t = (disk s)[unat b := f (view s b)]"
    and "dwrites t = dwrites s @ [(unat b, f (view s b))]" and "pinned t = pinned s - {b}" and "busy t H \<subseteq> busy s H"
    and "\<forall>j \<in> H. bufs t ! j = bufs s ! j"
proof -
  obtain i s1 where r: "bread 1 b s = Ok i s1" and bc1: "bc s1 (insert i H)" and i: "i \<notin> H" and c: "cached s1 b i"
    and v1: "view s1 = view s" and fr1: "bframe s s1" and d1: "disk s1 = disk s" "dwrites s1 = dwrites s"
    and p1: "pinned s1 = pinned s" and bs1: "busy s1 (insert i H) = insert i (busy s H)"
    and o1: "\<forall>j \<in> H. bufs s1 ! j = bufs s ! j" and cl1: "if b_dirty (bufs s1 ! i) then i \<in> busy s H else view s b = disk s ! unat b"
    using bread_ok [OF bc b free room] .
  define f' where "f' = (\<lambda>x :: buf. x\<lparr>bdata := f (bdata x)\<rparr>)"
  let ?s2 = "upd_buf i f' s1"
  have h: "held_upd f'"
    by (simp add: held_upd_def f'_def)
  have dat: "bdata (bufs s1 ! i) = view s b"
    using view_cached [OF bc1 c] v1 by simp
  have l: "length (bdata (f' (bufs s1 ! i))) = BSIZE"
    using f bc_data [OF bc1 c] by (simp add: f'_def)
  have bc2: "bc ?s2 (insert i H)" and v2: "view ?s2 = (view s)(b := f (view s b))"
    using bc_held [OF bc1 _ h l] view_held [OF bc1 _ h l c] dat v1 by (simp_all add: f'_def)
  let ?s3 = "write_buf i ?s2"
  have il: "i < length (bufs s1)" and bn: "blockno (bufs s1 ! i) = b"
    using c by (auto simp: cached_def)
  have x2: "bufs ?s2 ! i = (bufs s1 ! i)\<lparr>bdata := f (view s b)\<rparr>"
    using il dat by (simp add: f'_def)
  have bc3: "bc ?s3 (insert i H)" and v3: "view ?s3 = view ?s2"
    using bc_write [OF bc2] view_write [OF bc2] by simp_all
  have d3: "disk ?s3 = (disk s)[unat b := f (view s b)]" "dwrites ?s3 = dwrites s @ [(unat b, f (view s b))]"
    using x2 bn d1 by simp_all
  have cl: "b_dirty (bufs ?s3 ! i) \<or> bdata (bufs ?s3 ! i) = disk ?s3 ! unat (blockno (bufs ?s3 ! i))"
    using x2 bn b d3 il by simp
  let ?t = "drop_buf i ?s3"
  have "bnd (bread 1 b s) (\<lambda>i s. bnd (bwrite i (upd_buf i (\<lambda>x. x\<lparr>bdata := f (bdata x)\<rparr>) s)) (\<lambda>_ s. brelse i s)) = Ok () ?t"
    using r bwrite_eq [OF bc2, of i] brelse_eq [OF bc3, of i] by (simp add: f'_def)
  moreover have "bc ?t H" and "view ?t = view ?s3"
    using bc_drop [OF bc3 _ cl] view_drop [OF bc3 _ cl] i by simp_all
  moreover have "pinned ?t = pinned s - {b}"
    using pinned_write [OF bc2, of i] x2 bn p1 by (simp add: pinned_drop pinned_upd f'_def)
  moreover have "busy ?t H \<subseteq> busy s H"
  proof -
    have "busy ?t (insert i H - {i}) = busy ?s3 (insert i H) - {i}"
      unfolding busy_drop using il by simp
    also have "busy ?s3 (insert i H) = insert i (busy s H)"
      using bs1 by (simp add: busy_write busy_upd f'_def)
    finally show ?thesis
      using i by auto
  qed
  moreover have "bframe s ?t"
    using fr1 by (meson bframe_trans upd_buf_simps(8) write_buf_simps(8) drop_buf_simps(8))
  moreover have "\<forall>j \<in> H. bufs ?t ! j = bufs s ! j"
  proof
    fix j
    assume "j \<in> H"
    then show "bufs ?t ! j = bufs s ! j"
      using o1 i by (cases "j = i") simp_all
  qed
  ultimately show ?thesis
    using that [of ?t] v2 v3 d3 by simp
qed


text \<open>Reading a block without changing it: \<open>bread\<close>, \<open>brelse\<close>.\<close>

lemma get_block:
  assumes bc: "bc s H" and b: "unat b < length (disk s)" and free: "\<forall>i \<in> H. \<not> cached s b i"
    and room: "(\<exists>i. cached s b i) \<or> busy s H \<noteq> {..<length (bufs s)}"
  obtains i s1 t where "bread 1 b s = Ok i s1" and "bdata (bufs s1 ! i) = view s b" and "bframe s s1" and "brelse i s1 = Ok () t"
    and "bc t H" and "view t = view s" and "bframe s t" and "disk t = disk s" and "dwrites t = dwrites s"
    and "pinned t = pinned s" and "busy t H \<subseteq> busy s H" and "\<forall>j \<in> H. bufs t ! j = bufs s ! j"
proof -
  obtain i s1 where r: "bread 1 b s = Ok i s1" and bc1: "bc s1 (insert i H)" and i: "i \<notin> H" and c: "cached s1 b i"
    and v1: "view s1 = view s" and fr1: "bframe s s1" and d1: "disk s1 = disk s" "dwrites s1 = dwrites s"
    and p1: "pinned s1 = pinned s" and bs1: "busy s1 (insert i H) = insert i (busy s H)"
    and o1: "\<forall>j \<in> H. bufs s1 ! j = bufs s ! j" and cl1: "if b_dirty (bufs s1 ! i) then i \<in> busy s H else view s b = disk s ! unat b"
    using bread_ok [OF bc b free room] .
  have dat: "bdata (bufs s1 ! i) = view s b" and il: "i < length (bufs s1)"
    using view_cached [OF bc1 c] v1 c by (simp_all add: cached_def)
  have cl: "b_dirty (bufs s1 ! i) \<or> bdata (bufs s1 ! i) = disk s1 ! unat (blockno (bufs s1 ! i))"
    using cl1 dat d1 c by (auto simp: cached_def split: if_splits)
  let ?t = "drop_buf i s1"
  have "bc ?t H" and "view ?t = view s"
    using bc_drop [OF bc1 _ cl] view_drop [OF bc1 _ cl] i v1 by simp_all
  moreover have "busy ?t H \<subseteq> busy s H"
  proof -
    have "busy ?t (insert i H - {i}) = insert i (busy s H) - (if b_dirty (bufs s1 ! i) then {} else {i})"
      unfolding busy_drop bs1 by simp
    moreover have "i \<in> busy s H" if "b_dirty (bufs s1 ! i)"
      using cl1 that by simp
    ultimately show ?thesis
      using i by auto
  qed
  moreover have "\<forall>j \<in> H. bufs ?t ! j = bufs s ! j"
  proof
    fix j
    assume "j \<in> H"
    then show "bufs ?t ! j = bufs s ! j"
      using o1 i by (cases "j = i") simp_all
  qed
  ultimately show ?thesis
    using r dat fr1 brelse_eq [OF bc1, of i] d1 p1 bframe_trans [OF fr1 drop_buf_simps(8)]
    by (intro that [of i s1 ?t]) (simp_all add: pinned_drop)
qed

end
