(* ===== verification/Logsafe.thy ===== *)
theory Logsafe
  imports Log
begin

section \<open>Crash safety of the log\<close>

text \<open>
  Closed forms of the log's disk traffic, then the pure argument about a sequence of block writes that
  is cut short, and the theorem that puts both together.
\<close>

subsection \<open>Copying one block to another\<close>

lemma copy_held:
  assumes bc: "bc s {p, q}" and pq: "p \<noteq> q" and x: "cached s x p" and y: "cached s y q" and xy: "x \<noteq> y"
    and cl: "b_dirty (bufs s ! q) \<or> bdata (bufs s ! q) = disk s ! unat y"
  obtains t where "bnd (bwrite p (upd_buf p (\<lambda>b. b\<lparr>bdata := bdata (bufs s ! q)\<rparr>) s)) (\<lambda>_ s. bnd (brelse q s) (\<lambda>_ s. brelse p s)) = Ok () t"
    and "bc t {}" and "view t = (view s)(x := view s y)" and "bframe s t" and "disk t = (disk s)[unat x := view s y]"
    and "dwrites t = dwrites s @ [(unat x, view s y)]" and "pinned t = pinned s - {x}"
    and "busy t {} = busy s {p, q} - {p} - (if b_dirty (bufs s ! q) then {} else {q})"
proof -
  define f where "f = (\<lambda>b :: buf. b\<lparr>bdata := bdata (bufs s ! q)\<rparr>)"
  have h: "held_upd f"
    by (simp add: held_upd_def f_def)
  have l: "length (bdata (f (bufs s ! p))) = BSIZE"
    using bc_data [OF bc y] by (simp add: f_def)
  have dat: "bdata (bufs s ! q) = view s y"
    using view_cached [OF bc y] by simp
  have pl: "p < length (bufs s)" "blockno (bufs s ! p) = x" and ql: "q < length (bufs s)" "blockno (bufs s ! q) = y"
    using x y by (auto simp: cached_def)
  let ?s2 = "upd_buf p f s"
  have bc2: "bc ?s2 {p, q}" and v2: "view ?s2 = (view s)(x := view s y)"
    using bc_held [OF bc _ h l] view_held [OF bc _ h l x] dat by (simp_all add: f_def)
  let ?s3 = "write_buf p ?s2"
  have x2: "bufs ?s2 ! p = (bufs s ! p)\<lparr>bdata := view s y\<rparr>"
    using pl dat by (simp add: f_def)
  have bc3: "bc ?s3 {p, q}" and v3: "view ?s3 = (view s)(x := view s y)"
    using bc_write [OF bc2] view_write [OF bc2] v2 by simp_all
  have d3: "disk ?s3 = (disk s)[unat x := view s y]" "dwrites ?s3 = dwrites s @ [(unat x, view s y)]"
    using x2 pl by simp_all
  have q3: "bufs ?s3 ! q = bufs s ! q"
    using pq by simp
  have "unat x \<noteq> unat y"
    using xy by (simp add: word_unat_eq_iff)
  then have cl3: "b_dirty (bufs ?s3 ! q) \<or> bdata (bufs ?s3 ! q) = disk ?s3 ! unat (blockno (bufs ?s3 ! q))"
    using cl d3 q3 ql by simp
  let ?s4 = "drop_buf q ?s3"
  have bc4: "bc ?s4 {p}" and v4: "view ?s4 = (view s)(x := view s y)"
    using bc_drop [OF bc3 _ cl3] view_drop [OF bc3 _ cl3] v3 pq by (simp_all add: insert_Diff_if)
  have p4: "bufs ?s4 ! p = (bufs s ! p)\<lparr>bdata := view s y, b_dirty := False\<rparr>"
    using pq pl x2 by simp
  have "unat x < length (disk s)"
    using bc_data [OF bc x] by simp
  then have cl4: "b_dirty (bufs ?s4 ! p) \<or> bdata (bufs ?s4 ! p) = disk ?s4 ! unat (blockno (bufs ?s4 ! p))"
    using d3 p4 pl by simp
  let ?t = "drop_buf p ?s4"
  have "bnd (bwrite p (upd_buf p f s)) (\<lambda>_ s. bnd (brelse q s) (\<lambda>_ s. brelse p s)) = Ok () ?t"
    using bwrite_eq [OF bc2, of p] brelse_eq [OF bc3, of q] brelse_eq [OF bc4, of p] by simp
  moreover have "bc ?t {}" and "view ?t = (view s)(x := view s y)"
    using bc_drop [OF bc4 _ cl4] view_drop [OF bc4 _ cl4] v4 by simp_all
  moreover have "pinned ?t = pinned s - {x}"
    using pinned_write [OF bc2, of p] x2 pl by (simp add: pinned_drop pinned_upd f_def)
  moreover have "busy ?t {} = busy s {p, q} - {p} - (if b_dirty (bufs s ! q) then {} else {q})"
  proof -
    have "{p, q} - {q} = {p}"
      using pq by auto
    then have "busy ?s4 {p} = busy ?s3 {p, q} - (if b_dirty (bufs s ! q) then {} else {q})"
      using busy_drop [of q ?s3 "{p, q}"] unfolding q3 by simp
    moreover have "busy ?t {} = busy ?s4 {p} - {p}"
      using busy_drop [of p ?s4 "{p}"] unfolding p4 by simp
    moreover have "busy ?s3 {p, q} = busy s {p, q}"
      by (simp add: busy_write busy_upd f_def)
    ultimately show ?thesis
      by auto
  qed
  moreover have "bframe s ?t"
    by (meson bframe_trans upd_buf_simps(8) write_buf_simps(8) drop_buf_simps(8))
  ultimately show ?thesis
    using that [of ?t] d3 by (simp add: f_def)
qed


lemma pinned_cached:
  assumes "bc s H" and "b \<in> pinned s"
  shows "\<exists>i. cached s b i"
proof -
  obtain i where "i < length (bufs s)" "b_dirty (bufs s ! i)" "blockno (bufs s ! i) = b"
    using assms(2) by (auto simp: pinned_def)
  moreover have "b_dev (bufs s ! i) = 1"
    using bcD(5) [OF assms(1)] calculation by (auto simp: buf_ok_def Let_def)
  ultimately show ?thesis
    by (auto simp: cached_def)
qed

lemma finite_busy [simp]: "finite (busy s H)"
  by (simp add: busy_def)

lemma busy_room: "card (busy s H) < length (bufs s) \<Longrightarrow> busy s H \<noteq> {..<length (bufs s)}"
  by (rule notI) simp

lemma read_two:
  assumes bc: "bc s {}" and a: "unat a < length (disk s)" and b: "unat b < length (disk s)" and ab: "a \<noteq> b"
    and r1: "card (busy s {}) < length (bufs s)" and r2: "b \<in> pinned s \<or> card (busy s {}) + 1 < length (bufs s)"
  obtains i j s1 s2 where "bread 1 a s = Ok i s1" and "bread 1 b s1 = Ok j s2" and "bc s2 {i, j}" and "i \<noteq> j"
    and "cached s2 a i" and "cached s2 b j" and "view s2 = view s" and "disk s2 = disk s" and "dwrites s2 = dwrites s"
    and "pinned s2 = pinned s" and "bframe s s1" and "bframe s s2"
    and "b_dirty (bufs s2 ! i) \<or> bdata (bufs s2 ! i) = disk s2 ! unat a"
    and "b_dirty (bufs s2 ! j) \<or> bdata (bufs s2 ! j) = disk s2 ! unat b"
    and "busy s2 {i, j} = {i, j} \<union> busy s {}" and "b_dirty (bufs s2 ! i) \<longrightarrow> i \<in> busy s {}"
    and "b_dirty (bufs s2 ! j) \<longrightarrow> j \<in> busy s {}"
proof -
  have e: "\<forall>i \<in> {}. \<not> cached s a i"
    by simp
  obtain i s1 where 1: "bread 1 a s = Ok i s1" "bc s1 {i}" "cached s1 a i" "view s1 = view s" "bframe s s1"
    "disk s1 = disk s" "dwrites s1 = dwrites s" "pinned s1 = pinned s" "busy s1 {i} = insert i (busy s {})"
    "if b_dirty (bufs s1 ! i) then i \<in> busy s {} else view s a = disk s ! unat a"
    by (rule bread_ok [OF bc a e disjI2 [OF busy_room [OF r1]]])
  have cb: "card (busy s1 {i}) \<le> card (busy s {}) + 1"
    using 1(9) card_insert_le_m1 [of "card (busy s {}) + 1" "busy s {}" i] by simp
  have room: "(\<exists>k. cached s1 b k) \<or> busy s1 {i} \<noteq> {..<length (bufs s1)}"
    using r2
  proof
    assume "b \<in> pinned s"
    then show ?thesis
      using pinned_cached [OF 1(2), of b] 1(8) by simp
  next
    assume "card (busy s {}) + 1 < length (bufs s)"
    then show ?thesis
      using cb bframe_length [OF 1(5)] by (intro disjI2 busy_room) simp
  qed
  have b1: "unat b < length (disk s1)" and free: "\<forall>k \<in> {i}. \<not> cached s1 b k"
    using b 1(3,6) ab by (auto simp: cached_def)
  obtain j s2 where 2: "bread 1 b s1 = Ok j s2" "bc s2 (insert j {i})" "j \<notin> {i}" "cached s2 b j" "view s2 = view s1" "bframe s1 s2"
    "disk s2 = disk s1" "dwrites s2 = dwrites s1" "pinned s2 = pinned s1" "busy s2 (insert j {i}) = insert j (busy s1 {i})"
    "\<forall>k \<in> {i}. bufs s2 ! k = bufs s1 ! k"
    "if b_dirty (bufs s2 ! j) then j \<in> busy s1 {i} else view s1 b = disk s1 ! unat b"
    by (rule bread_ok [OF 1(2) b1 free room])
  have c: "cached s2 a i"
    using 1(3) 2(11) bframe_length [OF 2(6)] by (simp add: cached_def)
  show ?thesis
  proof (rule that [OF 1(1) 2(1) _ _ c 2(4)])
    show "bc s2 {i, j}" "i \<noteq> j"
      using 2(2,3) by (auto simp: insert_commute)
    show "b_dirty (bufs s2 ! i) \<or> bdata (bufs s2 ! i) = disk s2 ! unat a"
      using 1(10) view_cached [OF 2(2) c] 2(5,7,11) 1(4,6) by (auto split: if_splits)
    show "b_dirty (bufs s2 ! j) \<or> bdata (bufs s2 ! j) = disk s2 ! unat b"
      using 2(12) view_cached [OF 2(2,4)] 2(5,7) by (auto split: if_splits)
    show "busy s2 {i, j} = {i, j} \<union> busy s {}"
      using 1(9) 2(10) by (auto simp: insert_commute)
    show "b_dirty (bufs s2 ! i) \<longrightarrow> i \<in> busy s {}"
      using 1(10) 2(11) by (auto split: if_splits)
    show "b_dirty (bufs s2 ! j) \<longrightarrow> j \<in> busy s {}"
      using 2(3,12) 1(9) by (auto split: if_splits)
  qed (use 1 2 bframe_trans in \<open>auto\<close>)
qed


text \<open>The outcome of a sequence of block writes \<open>ws\<close> to a machine without held buffers.\<close>

definition writes :: "(nat \<times> 'b) list \<Rightarrow> 'b list \<Rightarrow> 'b list" where
  "writes ws D = foldl (\<lambda>D (b, v). D[b := v]) D ws"

definition upds :: "(u32 \<times> 'b) list \<Rightarrow> (u32 \<Rightarrow> 'b) \<Rightarrow> u32 \<Rightarrow> 'b" where
  "upds ws V = foldl (\<lambda>V (b, v). V(b := v)) V ws"

definition nats :: "(u32 \<times> 'b) list \<Rightarrow> (nat \<times> 'b) list" where
  "nats ws = map (\<lambda>(b, v). (unat b, v)) ws"

lemma writes_simps [simp]:
  "writes [] D = D" "writes ((b, v) # ws) D = writes ws (D[b := v])" "writes (ws @ ws') D = writes ws' (writes ws D)"
  "upds [] V = V" "upds ((c, v) # us) V = upds us (V(c := v))" "upds (us @ us') V = upds us' (upds us V)"
  "nats [] = []" "nats ((c, v) # us) = (unat c, v) # nats us" "nats (us @ us') = nats us @ nats us'"
  by (simp_all add: writes_def upds_def nats_def)

definition wrote :: "(u32 \<times> u8 list) list \<Rightarrow> 'a kbio_scheme \<Rightarrow> 'a kbio_scheme \<Rightarrow> bool" where
  "wrote ws s t \<longleftrightarrow> bc t {} \<and> bframe s t \<and> view t = upds ws (view s) \<and> disk t = writes (nats ws) (disk s) \<and>
     dwrites t = dwrites s @ nats ws \<and> pinned t = pinned s - fst ` set ws \<and> busy t {} \<subseteq> busy s {}"

lemma wrote_refl: "bc s {} \<Longrightarrow> wrote [] s s"
  by (simp add: wrote_def)

lemma wrote_trans: "wrote ws s t \<Longrightarrow> wrote ws' t u \<Longrightarrow> wrote (ws @ ws') s u"
  by (auto simp: wrote_def intro: bframe_trans)

lemma wrote_length: "wrote ws s t \<Longrightarrow> length (disk t) = length (disk s)"
proof -
  have "length (writes us D) = length D" for us and D :: "'b list"
    by (induction us arbitrary: D) auto
  then show "wrote ws s t \<Longrightarrow> length (disk t) = length (disk s)"
    by (simp add: wrote_def)
qed

lemma wrote_room: "wrote ws s t \<Longrightarrow> card (busy t {}) \<le> card (busy s {}) \<and> length (bufs t) = length (bufs s)"
  by (auto simp: wrote_def bframe_length intro: card_mono)

lemma copy_first:
  assumes "bc s {}" and "unat a < length (disk s)" and "unat b < length (disk s)" and "a \<noteq> b"
    and "card (busy s {}) < length (bufs s)" and "b \<in> pinned s \<or> card (busy s {}) + 1 < length (bufs s)"
  obtains i j s1 s2 t where "bread 1 a s = Ok i s1" and "bread 1 b s1 = Ok j s2" and "bframe s s1" and "bframe s s2"
    and "bnd (bwrite i (upd_buf i (\<lambda>x. x\<lparr>bdata := bdata (bufs s2 ! j)\<rparr>) s2)) (\<lambda>_ s. bnd (brelse j s) (\<lambda>_ s. brelse i s)) = Ok () t"
    and "wrote [(a, view s b)] s t"
proof -
  obtain i j s1 s2 where r: "bread 1 a s = Ok i s1" "bread 1 b s1 = Ok j s2" and bc2: "bc s2 {i, j}" and ij: "i \<noteq> j"
    and c: "cached s2 a i" "cached s2 b j" and v: "view s2 = view s" "disk s2 = disk s" "dwrites s2 = dwrites s"
    and p: "pinned s2 = pinned s" and fr: "bframe s s1" "bframe s s2"
    and cl: "b_dirty (bufs s2 ! i) \<or> bdata (bufs s2 ! i) = disk s2 ! unat a"
      "b_dirty (bufs s2 ! j) \<or> bdata (bufs s2 ! j) = disk s2 ! unat b"
    and bs: "busy s2 {i, j} = {i, j} \<union> busy s {}" and di: "b_dirty (bufs s2 ! i) \<longrightarrow> i \<in> busy s {}"
    and dj: "b_dirty (bufs s2 ! j) \<longrightarrow> j \<in> busy s {}"
    by (rule read_two [OF assms])
  obtain t where t: "bnd (bwrite i (upd_buf i (\<lambda>x. x\<lparr>bdata := bdata (bufs s2 ! j)\<rparr>) s2)) (\<lambda>_ s. bnd (brelse j s) (\<lambda>_ s. brelse i s)) = Ok () t"
    "bc t {}" "view t = (view s2)(a := view s2 b)" "bframe s2 t" "disk t = (disk s2)[unat a := view s2 b]"
    "dwrites t = dwrites s2 @ [(unat a, view s2 b)]" "pinned t = pinned s2 - {a}"
    "busy t {} = busy s2 {i, j} - {i} - (if b_dirty (bufs s2 ! j) then {} else {j})"
    by (rule copy_held [OF bc2 ij c assms(4) cl(2)])
  have "busy t {} \<subseteq> busy s {}"
    using t(8) bs dj by (auto split: if_splits)
  then show ?thesis
    using r fr t v p bframe_trans [OF fr(2) t(4)] by (intro that [of i s1 j s2 t]) (simp_all add: wrote_def)
qed

lemma copy_second:
  assumes "bc s {}" and "unat a < length (disk s)" and "unat b < length (disk s)" and "a \<noteq> b"
    and "card (busy s {}) < length (bufs s)" and "b \<in> pinned s \<or> card (busy s {}) + 1 < length (bufs s)"
  obtains i j s1 s2 t where "bread 1 a s = Ok i s1" and "bread 1 b s1 = Ok j s2" and "bframe s s1" and "bframe s s2"
    and "bnd (bwrite j (upd_buf j (\<lambda>x. x\<lparr>bdata := bdata (bufs s2 ! i)\<rparr>) s2)) (\<lambda>_ s. bnd (brelse i s) (\<lambda>_ s. brelse j s)) = Ok () t"
    and "wrote [(b, view s a)] s t"
proof -
  obtain i j s1 s2 where r: "bread 1 a s = Ok i s1" "bread 1 b s1 = Ok j s2" and bc2: "bc s2 {i, j}" and ij: "i \<noteq> j"
    and c: "cached s2 a i" "cached s2 b j" and v: "view s2 = view s" "disk s2 = disk s" "dwrites s2 = dwrites s"
    and p: "pinned s2 = pinned s" and fr: "bframe s s1" "bframe s s2"
    and cl: "b_dirty (bufs s2 ! i) \<or> bdata (bufs s2 ! i) = disk s2 ! unat a"
      "b_dirty (bufs s2 ! j) \<or> bdata (bufs s2 ! j) = disk s2 ! unat b"
    and bs: "busy s2 {i, j} = {i, j} \<union> busy s {}" and di: "b_dirty (bufs s2 ! i) \<longrightarrow> i \<in> busy s {}"
    and dj: "b_dirty (bufs s2 ! j) \<longrightarrow> j \<in> busy s {}"
    by (rule read_two [OF assms])
  have bc2': "bc s2 {j, i}"
    using bc2 by (simp add: insert_commute)
  obtain t where t: "bnd (bwrite j (upd_buf j (\<lambda>x. x\<lparr>bdata := bdata (bufs s2 ! i)\<rparr>) s2)) (\<lambda>_ s. bnd (brelse i s) (\<lambda>_ s. brelse j s)) = Ok () t"
    "bc t {}" "view t = (view s2)(b := view s2 a)" "bframe s2 t" "disk t = (disk s2)[unat b := view s2 a]"
    "dwrites t = dwrites s2 @ [(unat b, view s2 a)]" "pinned t = pinned s2 - {b}"
    "busy t {} = busy s2 {j, i} - {j} - (if b_dirty (bufs s2 ! i) then {} else {i})"
    by (rule copy_held [OF bc2' ij [symmetric] c(2,1) assms(4) [symmetric] cl(1)])
  have "busy t {} \<subseteq> busy s {}"
    using t(8) bs di by (auto simp: insert_commute split: if_splits)
  then show ?thesis
    using r fr t v p bframe_trans [OF fr(2) t(4)] by (intro that [of i s1 j s2 t]) (simp_all add: wrote_def)
qed


subsection \<open>The loops of the log\<close>

definition logblk :: "'a klog_scheme \<Rightarrow> nat \<Rightarrow> u32" where
  "logblk s k = log_start s + of_nat k + 1"

text \<open>The log is on disk 1 within the disk, and the \<open>n\<close> blocks of the header are distinct home blocks
  outside the log.\<close>

definition log_lay :: "'a klog_scheme \<Rightarrow> nat \<Rightarrow> bool" where
  "log_lay s n \<longleftrightarrow> log_dev s = 1 \<and> unat (log_start s) + n < length (disk s) \<and> length (disk s) \<le> 2 ^ 32 \<and>
     n \<le> length (lh_block s) \<and> distinct (take n (lh_block s)) \<and>
     (\<forall>k < n. unat (lh_block s ! k) < length (disk s) \<and>
        (unat (lh_block s ! k) < unat (log_start s) \<or> unat (log_start s) + n < unat (lh_block s ! k)))"

lemma bframe_log:
  fixes s t :: "'a klog_scheme"
  assumes "bframe s t"
  shows "log_dev t = log_dev s" "log_start t = log_start s" "lh_n t = lh_n s" "lh_block t = lh_block s"
    "log_size t = log_size s" "outstanding t = outstanding s" "committing t = committing s"
  by (rule bframe_field [OF assms, of log_dev] bframe_field [OF assms, of log_start] bframe_field [OF assms, of lh_n]
      bframe_field [OF assms, of lh_block] bframe_field [OF assms, of log_size] bframe_field [OF assms, of outstanding]
      bframe_field [OF assms, of committing], simp)+

lemma log_lay_wrote:
  fixes s t :: "'a klog_scheme"
  assumes "wrote ws s t"
  shows "log_lay t n = log_lay s n" and "logblk t k = logblk s k"
proof -
  have "bframe s t"
    using assms by (simp add: wrote_def)
  then show "log_lay t n = log_lay s n" and "logblk t k = logblk s k"
    using wrote_length [OF assms] by (simp_all add: log_lay_def logblk_def bframe_log)
qed

lemma unat_logblk: "log_lay s n \<Longrightarrow> k < n \<Longrightarrow> unat (logblk s k) = unat (log_start s) + k + 1"
  using unat_add_less [of "log_start s" "k + 1"] by (simp add: log_lay_def logblk_def ac_simps)

lemma log_lay_blocks:
  assumes "log_lay s n" and "k < n" and "j < n"
  shows "unat (logblk s k) < length (disk s)" and "unat (lh_block s ! j) < length (disk s)"
    and "logblk s k \<noteq> lh_block s ! j" and "logblk s k \<noteq> log_start s" and "lh_block s ! j \<noteq> log_start s"
    and "lh_block s ! j = lh_block s ! k \<Longrightarrow> j = k" and "logblk s j = logblk s k \<Longrightarrow> j = k"
proof -
  note k = unat_logblk [OF assms(1,2)] and j = unat_logblk [OF assms(1,3)]
  have h: "unat (log_start s) + n < length (disk s)" "unat (lh_block s ! j) < length (disk s)"
    "unat (lh_block s ! j) < unat (log_start s) \<or> unat (log_start s) + n < unat (lh_block s ! j)"
    "distinct (take n (lh_block s))" "n \<le> length (lh_block s)"
    using assms by (simp_all add: log_lay_def)
  have ne: "unat x \<noteq> unat y \<Longrightarrow> x \<noteq> y" for x y :: u32
    by blast
  show "unat (logblk s k) < length (disk s)" "unat (lh_block s ! j) < length (disk s)"
    using k h assms(2) by simp_all
  show "logblk s k \<noteq> lh_block s ! j" "logblk s k \<noteq> log_start s" "lh_block s ! j \<noteq> log_start s"
    by (rule ne, use k h(3) assms(2) in linarith)+
  show "j = k" if eq: "lh_block s ! j = lh_block s ! k"
  proof -
    have "take n (lh_block s) ! j = take n (lh_block s) ! k"
      using eq assms(2,3) by (simp only: nth_take)
    moreover have "j < length (take n (lh_block s))" "k < length (take n (lh_block s))"
      using h(5) assms(2,3) by simp_all
    ultimately show ?thesis
      by (simp only: nth_eq_iff_index_eq [OF h(4)])
  qed
  show "j = k" if eq: "logblk s j = logblk s k"
  proof -
    have "unat (logblk s j) = unat (logblk s k)"
      by (simp only: eq)
    then show ?thesis
      using j k by linarith
  qed
qed

lemma write_log_loop_ok:
  fixes s :: "'a klog_scheme"
  assumes "bc s {}" and "log_lay s n" and "set ks \<subseteq> {..<n}" and "distinct ks" and "\<forall>k < n. lh_block s ! k \<in> pinned s"
    and "card (busy s {}) < length (bufs s)"
  shows "\<exists>t. write_log_loop ks s = Ok () t \<and> wrote (map (\<lambda>k. (logblk s k, view s (lh_block s ! k))) ks) s t"
  using assms
proof (induction ks arbitrary: s)
  case Nil
  then show ?case by (simp add: wrote_refl)
next
  case (Cons k ks)
  have k: "k < n"
    using Cons.prems(3) by simp
  note lay = log_lay_blocks [OF Cons.prems(2) k k]
  have pin: "lh_block s ! k \<in> pinned s \<or> card (busy s {}) + 1 < length (bufs s)"
    using Cons.prems(5) k by blast
  obtain i j s1 s2 u where r: "bread 1 (logblk s k) s = Ok i s1" "bread 1 (lh_block s ! k) s1 = Ok j s2"
    and fr: "bframe s s1" "bframe s s2"
    and c: "bnd (bwrite i (upd_buf i (\<lambda>x. x\<lparr>bdata := bdata (bufs s2 ! j)\<rparr>) s2)) (\<lambda>_ s. bnd (brelse j s) (\<lambda>_ s. brelse i s)) = Ok () u"
    and w: "wrote [(logblk s k, view s (lh_block s ! k))] s u"
    by (rule copy_first [OF Cons.prems(1) lay(1,2,3) Cons.prems(6) pin])
  have eq: "write_log_loop (k # ks) s = write_log_loop ks u"
    using r c Cons.prems(2) bframe_log [OF fr(1)]
    by (simp add: log_lay_def logblk_def Let_def flip: bnd_assoc)
  have v: "lh_block u = lh_block s" "view u (lh_block s ! m) = view s (lh_block s ! m)" if "m < n" for m
    using w bframe_log [of s u] log_lay_blocks(3) [OF Cons.prems(2) k that] by (auto simp: wrote_def)
  have "\<exists>t. write_log_loop ks u = Ok () t \<and> wrote (map (\<lambda>k. (logblk u k, view u (lh_block u ! k))) ks) u t"
  proof (rule Cons.IH)
    show "bc u {}" "log_lay u n" "set ks \<subseteq> {..<n}" "distinct ks" "card (busy u {}) < length (bufs u)"
      using w Cons.prems log_lay_wrote(1) [OF w] wrote_room [OF w] by (auto simp: wrote_def)
    show "\<forall>m < n. lh_block u ! m \<in> pinned u"
      using w Cons.prems(5) v(1) log_lay_blocks(3) [OF Cons.prems(2) k, symmetric] by (auto simp: wrote_def)
  qed
  moreover have "map (\<lambda>k. (logblk u k, view u (lh_block u ! k))) ks = map (\<lambda>k. (logblk s k, view s (lh_block s ! k))) ks"
    using v Cons.prems(3) log_lay_wrote(2) [OF w] by auto
  ultimately show ?case
    using wrote_trans [OF w] eq by auto
qed

lemma install_trans_loop_ok:
  fixes s :: "'a klog_scheme"
  assumes "bc s {}" and "log_lay s n" and "set ks \<subseteq> {..<n}" and "distinct ks"
    and "(\<forall>k \<in> set ks. lh_block s ! k \<in> pinned s) \<or> card (busy s {}) + 1 < length (bufs s)"
    and "card (busy s {}) < length (bufs s)"
  shows "\<exists>t. install_trans_loop ks s = Ok () t \<and> wrote (map (\<lambda>k. (lh_block s ! k, view s (logblk s k))) ks) s t"
  using assms
proof (induction ks arbitrary: s)
  case Nil
  then show ?case by (simp add: wrote_refl)
next
  case (Cons k ks)
  have k: "k < n"
    using Cons.prems(3) by simp
  note lay = log_lay_blocks [OF Cons.prems(2) k k]
  have pin: "lh_block s ! k \<in> pinned s \<or> card (busy s {}) + 1 < length (bufs s)"
    using Cons.prems(5) by auto
  obtain i j s1 s2 u where r: "bread 1 (logblk s k) s = Ok i s1" "bread 1 (lh_block s ! k) s1 = Ok j s2"
    and fr: "bframe s s1" "bframe s s2"
    and c: "bnd (bwrite j (upd_buf j (\<lambda>x. x\<lparr>bdata := bdata (bufs s2 ! i)\<rparr>) s2)) (\<lambda>_ s. bnd (brelse i s) (\<lambda>_ s. brelse j s)) = Ok () u"
    and w: "wrote [(lh_block s ! k, view s (logblk s k))] s u"
    by (rule copy_second [OF Cons.prems(1) lay(1,2,3) Cons.prems(6) pin])
  have eq: "install_trans_loop (k # ks) s = install_trans_loop ks u"
    using r c Cons.prems(2) bframe_log [OF fr(1)]
    by (simp add: log_lay_def logblk_def Let_def flip: bnd_assoc)
  have lh: "lh_block u = lh_block s"
    using w bframe_log [of s u] by (simp add: wrote_def)
  have v: "view u (logblk s m) = view s (logblk s m)" if "m < n" for m
    using w log_lay_blocks(3) [OF Cons.prems(2) that k] by (simp add: wrote_def)
  have "\<exists>t. install_trans_loop ks u = Ok () t \<and> wrote (map (\<lambda>k. (lh_block u ! k, view u (logblk u k))) ks) u t"
  proof (rule Cons.IH)
    show "bc u {}" "log_lay u n" "set ks \<subseteq> {..<n}" "distinct ks" "card (busy u {}) < length (bufs u)"
      using w Cons.prems log_lay_wrote(1) [OF w] wrote_room [OF w] by (auto simp: wrote_def)
    have "lh_block s ! m \<noteq> lh_block s ! k" if "m \<in> set ks" for m
      using that Cons.prems(3,4) log_lay_blocks(6) [OF Cons.prems(2) k, of m] by auto
    then show "(\<forall>k \<in> set ks. lh_block u ! k \<in> pinned u) \<or> card (busy u {}) + 1 < length (bufs u)"
      using w Cons.prems(5) lh wrote_room [OF w] by (auto simp: wrote_def)
  qed
  moreover have "map (\<lambda>k. (lh_block u ! k, view u (logblk u k))) ks = map (\<lambda>k. (lh_block s ! k, view s (logblk s k))) ks"
    using v lh Cons.prems(3) log_lay_wrote(2) [OF w] by auto
  ultimately show ?case
    using wrote_trans [OF w] eq by auto
qed


subsection \<open>The header block\<close>

lemma put_head_loop:
  assumes "4 + 4 * m \<le> length d"
  shows "length (foldl (\<lambda>d i. overlay (4 + 4 * i) (bytes32 (bs ! i)) d) d [0..<m]) = length d \<and>
    get32 (foldl (\<lambda>d i. overlay (4 + 4 * i) (bytes32 (bs ! i)) d) d [0..<m]) 0 = get32 d 0 \<and>
    (\<forall>k < m. get32 (foldl (\<lambda>d i. overlay (4 + 4 * i) (bytes32 (bs ! i)) d) d [0..<m]) (4 + 4 * k) = bs ! k)"
  using assms
proof (induction m)
  case (Suc m)
  let ?d = "foldl (\<lambda>d i. overlay (4 + 4 * i) (bytes32 (bs ! i)) d) d [0..<m]"
  have IH: "length ?d = length d" "get32 ?d 0 = get32 d 0" "\<forall>k < m. get32 ?d (4 + 4 * k) = bs ! k"
    using Suc by simp_all
  have "get32 (overlay (4 + 4 * m) (bytes32 (bs ! m)) ?d) (4 + 4 * k) = bs ! k" if "k < Suc m" for k
  proof (cases "k = m")
    case True
    then show ?thesis
      using IH(1) Suc.prems by (simp add: get32_overlay)
  next
    case False
    then have "get32 (overlay (4 + 4 * m) (bytes32 (bs ! m)) ?d) (4 + 4 * k) = get32 ?d (4 + 4 * k)"
      using IH(1) Suc.prems that by (intro get32_overlay_disjoint) simp_all
    then show ?thesis
      using IH(3) that False by simp
  qed
  then show ?case
    using IH Suc.prems by (simp add: get32_overlay_disjoint)
qed simp

lemma put_head_ok:
  assumes "4 + 4 * nat n \<le> length d"
  shows "length (put_head n bs d) = length d" and "get32 (put_head n bs d) 0 = word_of_int n"
    and "k < nat n \<Longrightarrow> get32 (put_head n bs d) (4 + 4 * k) = bs ! k"
proof -
  let ?d = "overlay 0 (bytes32 (word_of_int n)) d"
  have "length ?d = length d" "get32 ?d 0 = word_of_int n"
    using assms by (simp_all add: get32_overlay)
  then show "length (put_head n bs d) = length d" and "get32 (put_head n bs d) 0 = word_of_int n"
    and "k < nat n \<Longrightarrow> get32 (put_head n bs d) (4 + 4 * k) = bs ! k"
    unfolding put_head_def using put_head_loop [of "nat n" ?d bs] assms by simp_all
qed

lemma write_head_ok:
  fixes s :: "'a klog_scheme"
  assumes bc: "bc s {}" and dv: "log_dev s = 1" and b: "unat (log_start s) < length (disk s)"
    and n: "nat (lh_n s) \<le> LOGSIZE" and room: "card (busy s {}) < length (bufs s)"
  shows "\<exists>t. write_head s = Ok () t \<and> wrote [(log_start s, put_head (lh_n s) (lh_block s) (view s (log_start s)))] s t"
proof -
  let ?f = "put_head (lh_n s) (lh_block s)"
  have e: "\<forall>i \<in> {}. \<not> cached s (log_start s) i"
    by simp
  have l: "length (?f x) = BSIZE" if "length x = BSIZE" for x
    using that n put_head_ok(1) [of "lh_n s" x] by simp
  obtain t where t: "bnd (bread 1 (log_start s) s) (\<lambda>i s. bnd (bwrite i (upd_buf i (\<lambda>x. x\<lparr>bdata := ?f (bdata x)\<rparr>) s)) (\<lambda>_ s. brelse i s)) = Ok () t"
    "bc t {}" "view t = (view s)(log_start s := ?f (view s (log_start s)))" "bframe s t" "disk t = (disk s)[unat (log_start s) := ?f (view s (log_start s))]"
    "dwrites t = dwrites s @ [(unat (log_start s), ?f (view s (log_start s)))]" "pinned t = pinned s - {log_start s}" "busy t {} \<subseteq> busy s {}"
    by (rule put_block [OF bc b e disjI2 [OF busy_room [OF room]], where f = ?f]) (use l in simp_all)
  obtain i s1 where r: "bread 1 (log_start s) s = Ok i s1" "bframe s s1"
    by (rule bread_ok [OF bc b e disjI2 [OF busy_room [OF room]]])
  have "write_head s = Ok () t"
    using t(1) r(1) bframe_log [OF r(2)] by (simp add: write_head_def dv Let_def)
  then show ?thesis
    using t by (auto simp: wrote_def)
qed


lemma calm_lh [simp]:
  "calm (s\<lparr>lh_n := n\<rparr>) = calm s" "mypid (s\<lparr>lh_n := n\<rparr>) = mypid s"
  "calm (s\<lparr>lh_block := b\<rparr>) = calm s" "mypid (s\<lparr>lh_block := b\<rparr>) = mypid s"
  by (simp_all add: calm_def me_proc_def mypid_def procat_def split: option.splits)

lemma bc_lh [simp]:
  "bc (s\<lparr>lh_n := n\<rparr>) H = bc s H" "bc (s\<lparr>lh_block := b\<rparr>) H = bc s H"
  "view (s\<lparr>lh_n := n\<rparr>) = view s" "view (s\<lparr>lh_block := b\<rparr>) = view s"
  "pinned (s\<lparr>lh_n := n\<rparr>) = pinned s" "pinned (s\<lparr>lh_block := b\<rparr>) = pinned s"
  "busy (s\<lparr>lh_n := n\<rparr>) H = busy s H" "busy (s\<lparr>lh_block := b\<rparr>) H = busy s H"
  by (simp_all add: bc_def buf_ok_def fun_eq_iff view_def pinned_def busy_def split: option.splits)

definition head_blocks :: "u8 list \<Rightarrow> nat \<Rightarrow> u32 list \<Rightarrow> u32 list" where
  "head_blocks d n l = foldl (\<lambda>l i. l[i := get32 d (4 + 4 * i)]) l [0..<n]"

lemma head_blocks_ok:
  "n \<le> length l \<Longrightarrow> length (head_blocks d n l) = length l \<and> (\<forall>k < n. head_blocks d n l ! k = get32 d (4 + 4 * k))"
proof (induction n)
  case (Suc n)
  then show ?case
    by (auto simp: head_blocks_def nth_list_update less_Suc_eq)
qed (simp add: head_blocks_def)

lemma read_head_fold:
  "foldl (\<lambda>s i. s\<lparr>lh_block := (lh_block s)[i := get32 d (4 + 4 * i)]\<rparr>) s [0..<n] =
   (s :: 'a klog_scheme)\<lparr>lh_block := head_blocks d n (lh_block s)\<rparr>"
  by (induction n) (simp_all add: head_blocks_def)

lemma read_head_ok:
  fixes s :: "'a klog_scheme"
  assumes bc: "bc s {}" and dv: "log_dev s = 1" and b: "unat (log_start s) < length (disk s)"
    and room: "card (busy s {}) < length (bufs s)"
  shows "\<exists>t. read_head s = Ok () t \<and> bc t {} \<and> view t = view s \<and> disk t = disk s \<and> pinned t = pinned s \<and>
    busy t {} \<subseteq> busy s {} \<and> length (bufs t) = length (bufs s) \<and> log_dev t = 1 \<and> log_start t = log_start s \<and>
    lh_n t = sint (get32 (view s (log_start s)) 0) \<and>
    lh_block t = head_blocks (view s (log_start s)) (nat (lh_n t)) (lh_block s)"
proof -
  have e: "\<forall>i \<in> {}. \<not> cached s (log_start s) i"
    by simp
  obtain i s1 where r: "bread 1 (log_start s) s = Ok i s1" "bc s1 {i}" "cached s1 (log_start s) i" "view s1 = view s" "bframe s s1"
    "disk s1 = disk s" "pinned s1 = pinned s" "busy s1 {i} = insert i (busy s {})"
    "if b_dirty (bufs s1 ! i) then i \<in> busy s {} else view s (log_start s) = disk s ! unat (log_start s)"
    by (rule bread_ok [OF bc b e disjI2 [OF busy_room [OF room]]])
  let ?d = "view s (log_start s)"
  have d: "bdata (bufs s1 ! i) = ?d"
    using view_cached [OF r(2,3)] r(4) by simp
  define u where "u = s1\<lparr>lh_n := sint (get32 ?d 0), lh_block := head_blocks ?d (nat (sint (get32 ?d 0))) (lh_block s)\<rparr>"
  have bcu: "bc u {i}"
    using r(2) by (simp add: u_def)
  have bu: "bufs u = bufs s1" "disk u = disk s1" "view u = view s" "busy u {i} = busy s1 {i}" "pinned u = pinned s1"
    using r(4) by (simp_all add: u_def)
  have cl: "b_dirty (bufs u ! i) \<or> bdata (bufs u ! i) = disk u ! unat (blockno (bufs u ! i))"
    using r(3,6,9) d bu by (auto simp: cached_def split: if_splits)
  have "read_head s = brelse i u"
    using r(1) d bframe_log [OF r(5)] by (simp add: read_head_def dv Let_def read_head_fold u_def)
  then have "read_head s = Ok () (drop_buf i u)"
    using brelse_eq [OF bcu] by simp
  moreover have "bc (drop_buf i u) {}" "view (drop_buf i u) = view s"
    using bc_drop [OF bcu _ cl] view_drop [OF bcu _ cl] bu by simp_all
  moreover have "busy (drop_buf i u) {} \<subseteq> busy s {}"
    using busy_drop [of i u "{i}"] r(8,9) bu by (auto split: if_splits)
  moreover have "bframe u (drop_buf i u)"
    by simp
  ultimately show ?thesis
    using bframe_log [of u "drop_buf i u"] bframe_log [OF r(5)] bframe_length [OF r(5)] r dv bu
    by (intro exI [of _ "drop_buf i u"]) (simp add: pinned_drop, simp add: u_def)
qed

lemma view_clean:
  assumes bc: "bc s {}" and p: "b \<notin> pinned s"
  shows "view s b = disk s ! unat b"
proof (cases "\<exists>i. cached s b i")
  case True
  then obtain i where i: "cached s b i" ..
  then have "\<not> b_dirty (bufs s ! i)"
    using p by (auto simp: cached_def pinned_def)
  then show ?thesis
    using i bcD(5) [OF bc] view_cached [OF bc i] by (auto simp: cached_def buf_ok_def Let_def)
next
  case False
  then show ?thesis
    using view_uncached [of s b] by simp
qed


subsection \<open>What a commit writes\<close>

lemma upds_other: "b \<notin> fst ` set ws \<Longrightarrow> upds ws V b = V b"
  by (induction ws arbitrary: V) auto

lemma upds_in: "distinct (map fst ws) \<Longrightarrow> (b, v) \<in> set ws \<Longrightarrow> upds ws V b = v"
proof (induction ws arbitrary: V)
  case (Cons w ws)
  then show ?case
    by (cases w) (auto simp: upds_other image_iff)
qed simp

lemma writes_other: "b \<notin> fst ` set ws \<Longrightarrow> writes ws D ! b = D ! b"
  by (induction ws arbitrary: D) auto

lemma length_writes [simp]: "length (writes ws D) = length D"
  by (induction ws arbitrary: D) auto

lemma writes_in: "distinct (map fst ws) \<Longrightarrow> (b, v) \<in> set ws \<Longrightarrow> b < length D \<Longrightarrow> writes ws D ! b = v"
proof (induction ws arbitrary: D)
  case (Cons w ws)
  then show ?case
    by (cases w) (auto simp: writes_other image_iff)
qed simp

definition log_writes :: "'a klog_scheme \<Rightarrow> nat \<Rightarrow> (u32 \<times> u8 list) list" where
  "log_writes s n = map (\<lambda>k. (logblk s k, view s (lh_block s ! k))) [0..<n]"

definition home_writes :: "'a klog_scheme \<Rightarrow> nat \<Rightarrow> (u32 \<times> u8 list) list" where
  "home_writes s n = map (\<lambda>k. (lh_block s ! k, view s (lh_block s ! k))) [0..<n]"

definition full_head :: "'a klog_scheme \<Rightarrow> u8 list" where
  "full_head s = put_head (lh_n s) (lh_block s) (view s (log_start s))"

definition commit_writes :: "'a klog_scheme \<Rightarrow> (u32 \<times> u8 list) list" where
  "commit_writes s = log_writes s (nat (lh_n s)) @ [(log_start s, full_head s)] @ home_writes s (nat (lh_n s)) @
     [(log_start s, put_head 0 (lh_block s) (full_head s))]"

lemma log_writes_fst:
  assumes "log_lay s n"
  shows "log_start s \<notin> fst ` set (log_writes s n)" "log_start s \<notin> fst ` set (home_writes s n)"
    "distinct (map fst (log_writes s n))" "distinct (map fst (home_writes s n))"
    "fst ` set (log_writes s n) \<inter> fst ` set (home_writes s n) = {}"
  using log_lay_blocks(3,6,7) [OF assms] log_lay_blocks(4,5) [OF assms, symmetric]
  by (auto simp: log_writes_def home_writes_def distinct_map inj_on_def image_iff)

lemma commit_ok:
  fixes s :: "'a klog_scheme"
  assumes bc: "bc s {}" and pos: "0 < lh_n s" and n: "n = nat (lh_n s)" "n \<le> LOGSIZE" and lay: "log_lay s n"
    and pin: "\<forall>k < n. lh_block s ! k \<in> pinned s" and room: "card (busy s {}) < length (bufs s)"
  shows "\<exists>t. commit s = Ok () t \<and> bc t {} \<and> disk t = writes (nats (commit_writes s)) (disk s) \<and>
    dwrites t = dwrites s @ nats (commit_writes s) \<and> lh_n t = 0 \<and> pinned t \<subseteq> pinned s - {lh_block s ! k |k. k < n}"
proof -
  note ws = log_writes_fst [OF lay]
  have st: "unat (log_start s) < length (disk s)" "log_dev s = 1"
    using lay by (simp_all add: log_lay_def)
  have sub: "set [0..<n] \<subseteq> {..<n}"
    by auto
  obtain s1 where s1: "write_log s = Ok () s1" "wrote (log_writes s n) s s1"
    using write_log_loop_ok [OF bc lay sub distinct_upt pin room] unfolding write_log_def n(1) log_writes_def by blast
  note f1 = bframe_log [of s s1]
  have v1: "view s1 (log_start s) = view s (log_start s)" "bframe s s1" "bc s1 {}"
    and v1k: "\<And>k. k < n \<Longrightarrow> view s1 (logblk s k) = view s (lh_block s ! k)"
    using s1(2) ws by (auto simp: wrote_def upds_other log_writes_def intro!: upds_in)
  obtain s2 where s2: "write_head s1 = Ok () s2" "wrote [(log_start s, full_head s)] s1 s2"
    using write_head_ok [OF v1(3)] f1 v1 st n wrote_length [OF s1(2)] wrote_room [OF s1(2)] room by (auto simp: full_head_def)
  have w2: "wrote (log_writes s n @ [(log_start s, full_head s)]) s s2"
    by (rule wrote_trans [OF s1(2) s2(2)])
  then have f2: "bframe s s2" and bc2: "bc s2 {}"
    by (simp_all add: wrote_def)
  have v2: "view s2 (logblk s k) = view s (lh_block s ! k)" if "k < n" for k
    using s2(2) v1k [OF that] log_lay_blocks(4) [OF lay that that] by (simp add: wrote_def)
  have pin2: "(\<forall>k \<in> set [0..<n]. lh_block s2 ! k \<in> pinned s2) \<or> card (busy s2 {}) + 1 < length (bufs s2)"
    using w2 pin bframe_log [OF f2] log_lay_blocks(3,5) [OF lay] by (auto simp: wrote_def log_writes_def) metis+
  obtain s3 where s3: "install_trans s2 = Ok () s3" "wrote (map (\<lambda>k. (lh_block s2 ! k, view s2 (logblk s2 k))) [0..<n]) s2 s3"
    using install_trans_loop_ok [OF bc2 _ sub distinct_upt pin2] log_lay_wrote(1) [OF w2] lay wrote_room [OF w2] room bframe_log [OF f2] n(1)
    by (auto simp: install_trans_def)
  have "map (\<lambda>k. (lh_block s2 ! k, view s2 (logblk s2 k))) [0..<n] = home_writes s n"
    using v2 bframe_log [OF f2] log_lay_wrote(2) [OF w2] by (simp add: home_writes_def)
  then have w3: "wrote (log_writes s n @ [(log_start s, full_head s)] @ home_writes s n) s s3"
    using wrote_trans [OF w2] s3(2) by auto
  then have f3: "bframe s s3" and bc3: "bc s3 {}"
    by (simp_all add: wrote_def)
  have v3: "view s3 (log_start s) = full_head s"
    using w3 ws by (simp add: wrote_def upds_other)
  obtain t where t: "write_head (s3\<lparr>lh_n := 0\<rparr>) = Ok () t" "wrote [(log_start s, put_head 0 (lh_block s) (full_head s))] (s3\<lparr>lh_n := 0\<rparr>) t"
    using write_head_ok [of "s3\<lparr>lh_n := 0\<rparr>"] bc3 bframe_log [OF f3] st v3 wrote_length [OF w3] wrote_room [OF w3] room by auto
  have "commit s = Ok () t"
    using pos s1(1) s2(1) s3(1) t(1) by (simp add: commit_def Let_def)
  moreover have "lh_n t = 0"
    using t(2) bframe_log [of "s3\<lparr>lh_n := 0\<rparr>" t] by (simp add: wrote_def)
  moreover have "bc t {}" "disk t = writes (nats (commit_writes s)) (disk s)" "dwrites t = dwrites s @ nats (commit_writes s)"
    using t(2) w3 unfolding wrote_def commit_writes_def n(1) [symmetric] by simp_all
  moreover have "pinned t \<subseteq> pinned s - {lh_block s ! k |k. k < n}"
  proof -
    have "{lh_block s ! k |k. k < n} = fst ` set (home_writes s n)"
      by (fastforce simp: home_writes_def image_iff)
    moreover have "pinned t \<subseteq> pinned s3" and "pinned s3 \<subseteq> pinned s - fst ` set (home_writes s n)"
      using t(2) w3 by (auto simp: wrote_def)
    ultimately show ?thesis
      by blast
  qed
  ultimately show ?thesis
    by blast
qed


subsection \<open>Recovery\<close>

text \<open>A machine that has just booted from the disk \<open>D\<close>: nothing is cached as changed, nothing is held.\<close>

definition booted :: "u8 list list \<Rightarrow> u32 \<Rightarrow> 'a klog_scheme \<Rightarrow> bool" where
  "booted D start r \<longleftrightarrow> bc r {} \<and> disk r = D \<and> pinned r = {} \<and> log_dev r = 1 \<and> log_start r = start \<and>
     length (bufs r) = NBUF \<and> length (lh_block r) = LOGSIZE"

lemma booted_room: "booted D st r \<Longrightarrow> busy r {} = {}"
  by (auto simp: booted_def busy_def pinned_def)

lemma recover_ok:
  fixes r :: "'a klog_scheme"
  assumes r: "booted D st r" and st: "unat st + n < length D" "length D \<le> 2 ^ 32"
    and n: "get32 (D ! unat st) 0 = of_nat n" "n \<le> LOGSIZE"
    and blk: "\<forall>k < n. get32 (D ! unat st) (4 + 4 * k) = B ! k" and B: "n \<le> length B" "distinct (take n B)"
      "\<forall>k < n. unat (B ! k) < length D \<and> (unat (B ! k) < unat st \<or> unat st + n < unat (B ! k))"
  shows "\<exists>t h. recover_from_log r = Ok () t \<and> bc t {} \<and>
    disk t = writes (map (\<lambda>k. (unat (B ! k), D ! (unat st + k + 1))) [0..<n] @ [(unat st, h)]) D"
proof -
  note b = r [unfolded booted_def] and room = booted_room [OF r]
  have vw: "view r c = D ! unat c" for c
    using b view_clean [of r c] by simp
  obtain s where s: "read_head r = Ok () s" "bc s {}" "view s = view r" "disk s = D" "pinned s = {}" "busy s {} \<subseteq> {}"
    "length (bufs s) = NBUF" "log_dev s = 1" "log_start s = st" "lh_n s = sint (get32 (D ! unat st) 0)"
    "lh_block s = head_blocks (D ! unat st) (nat (lh_n s)) (lh_block r)"
    using read_head_ok [of r] b room st(1) vw by auto
  have "sint (of_nat n :: u32) = int n"
    using n(2) by (simp add: signed_of_nat signed_take_bit_int_eq_self)
  then have ln: "nat (lh_n s) = n" "lh_n s = int n"
    using s(10) n(1) by simp_all
  have lb: "length (lh_block s) = LOGSIZE" "\<forall>k < n. lh_block s ! k = B ! k"
    using head_blocks_ok [of n "lh_block r" "D ! unat st"] s(11) ln b n(2) blk by simp_all
  have tk: "take n (lh_block s) = take n B"
    using lb B(1) n(2) by (intro nth_equalityI) simp_all
  have lay: "log_lay s n"
    using s st B lb n(2) tk by (simp add: log_lay_def)
  have sub: "set [0..<n] \<subseteq> {..<n}"
    by auto
  obtain u where u: "install_trans s = Ok () u" "wrote (map (\<lambda>k. (lh_block s ! k, view s (logblk s k))) [0..<n]) s u"
    using install_trans_loop_ok [OF s(2) lay sub distinct_upt] s(6,7) ln by (auto simp: install_trans_def)
  have f: "bframe s u" and bcu: "bc u {}"
    using u(2) by (simp_all add: wrote_def)
  obtain t where t: "write_head (u\<lparr>lh_n := 0\<rparr>) = Ok () t" "wrote [(st, put_head 0 (lh_block s) (view u st))] (u\<lparr>lh_n := 0\<rparr>) t"
    using write_head_ok [of "u\<lparr>lh_n := 0\<rparr>"] bcu bframe_log [OF f] s st(1) wrote_length [OF u(2)] wrote_room [OF u(2)] by auto
  have "nats (map (\<lambda>k. (lh_block s ! k, view s (logblk s k))) [0..<n]) = map (\<lambda>k. (unat (B ! k), D ! (unat st + k + 1))) [0..<n]"
    using lb(2) s(3,9) vw unat_logblk [OF lay] by (auto simp: nats_def)
  then have "disk t = writes (map (\<lambda>k. (unat (B ! k), D ! (unat st + k + 1))) [0..<n] @ [(unat st, put_head 0 (lh_block s) (view u st))]) D"
    using t(2) u(2) s(4) by (simp add: wrote_def)
  moreover have "recover_from_log r = Ok () t" "bc t {}"
    using s(1) u(1) t by (simp_all add: recover_from_log_def Let_def wrote_def)
  ultimately show ?thesis
    by blast
qed


subsection \<open>A commit that is cut short\<close>

definition off_log :: "'a klog_scheme \<Rightarrow> nat \<Rightarrow> u32 \<Rightarrow> bool" where
  "off_log s n b \<longleftrightarrow> unat b < length (disk s) \<and> (unat b < unat (log_start s) \<or> unat (log_start s) + n < unat b)"

text \<open>A transaction that is ready to commit: the blocks of the header are the pinned ones, and the header
  on disk says that the log is empty.\<close>

definition ready :: "'a klog_scheme \<Rightarrow> nat \<Rightarrow> bool" where
  "ready s n \<longleftrightarrow> bc s {} \<and> lh_n s = int n \<and> 0 < n \<and> n < NBUF \<and> length (bufs s) = NBUF \<and> log_lay s n \<and>
     pinned s = set (take n (lh_block s)) \<and> get32 (disk s ! unat (log_start s)) 0 = 0"

lemma ready_room: "ready s n \<Longrightarrow> card (busy s {}) < length (bufs s)"
proof -
  assume r: "ready s n"
  have "inj_on (\<lambda>i. blockno (bufs s ! i)) (busy s {})"
  proof (rule inj_onI)
    fix i j
    assume ij: "i \<in> busy s {}" "j \<in> busy s {}" "blockno (bufs s ! i) = blockno (bufs s ! j)"
    then have "b_dev (bufs s ! i) = 1" "b_dev (bufs s ! j) = 1"
      using r bcD(5) [of s "{}"] by (auto simp: ready_def busy_def buf_ok_def Let_def)
    then show "i = j"
      using ij cached_unique [of s "{}" _ i j] r by (auto simp: ready_def busy_def cached_def)
  qed
  moreover have "(\<lambda>i. blockno (bufs s ! i)) ` busy s {} \<subseteq> set (take n (lh_block s))"
  proof -
    have "(\<lambda>i. blockno (bufs s ! i)) ` busy s {} \<subseteq> pinned s"
      by (auto simp: busy_def pinned_def)
    then show ?thesis
      using r by (simp add: ready_def)
  qed
  ultimately have "card (busy s {}) \<le> card (set (take n (lh_block s)))"
    by (rule card_inj_on_le) simp
  also have "\<dots> \<le> n"
    using card_length [of "take n (lh_block s)"] by simp
  finally show ?thesis
    using r by (simp add: ready_def)
qed

lemma take_three:
  "take m (xs @ [y] @ zs @ [w]) = (if m \<le> length xs then take m xs
     else if m \<le> length xs + 1 + length zs then xs @ [y] @ take (m - length xs - 1) zs
     else xs @ [y] @ zs @ [w])"
  by (auto simp: take_Cons' min_def not_le)

lemma nats_fst: "fst ` set (nats ws) = unat ` fst ` set ws"
  by (force simp: nats_def)

lemma nats_distinct: "distinct (map fst ws) \<Longrightarrow> distinct (map fst (nats ws))"
proof -
  assume d: "distinct (map fst ws)"
  have "map fst (nats ws) = map unat (map fst ws)"
    by (auto simp: nats_def)
  moreover have "inj_on unat (set (map fst ws))"
    by (rule inj_onI) (simp only: word_unat_eq_iff)
  ultimately show ?thesis
    using d by (simp only: distinct_map)
qed

lemma crash_writes:
  fixes s :: "'a klog_scheme"
  assumes rd: "ready s n" and lD: "length D = length (disk s)"
  defines "S \<equiv> unat (log_start s)" and "L \<equiv> nats (log_writes s n)" and "M \<equiv> nats (home_writes s n)"
  shows "S \<notin> fst ` set L" "S \<notin> fst ` set M" "off_log s n b \<Longrightarrow> unat b \<notin> fst ` set L" "off_log s n b \<Longrightarrow> unat b \<noteq> S"
    "k < n \<Longrightarrow> S + k + 1 \<notin> fst ` set M"
    "k < n \<Longrightarrow> writes L D ! (S + k + 1) = view s (lh_block s ! k)"
proof -
  have lay: "log_lay s n"
    using rd by (simp add: ready_def)
  note lw = log_writes_fst [OF lay] and ub = unat_logblk [OF lay]
  have fL: "fst ` set L = {S + k + 1 |k. k < n}"
    unfolding L_def S_def nats_fst using ub by (fastforce simp: log_writes_def image_iff)
  have fM: "fst ` set M = {unat (lh_block s ! k) |k. k < n}"
    unfolding M_def nats_fst by (fastforce simp: home_writes_def image_iff)
  show "S \<notin> fst ` set L" "off_log s n b \<Longrightarrow> unat b \<notin> fst ` set L" "off_log s n b \<Longrightarrow> unat b \<noteq> S"
    unfolding fL by (auto simp: off_log_def S_def)
  show "S \<notin> fst ` set M" "k < n \<Longrightarrow> S + k + 1 \<notin> fst ` set M"
    unfolding fM using lay by (auto simp: log_lay_def S_def)
  show "writes L D ! (S + k + 1) = view s (lh_block s ! k)" if "k < n"
  proof (rule writes_in)
    show "distinct (map fst L)"
      unfolding L_def by (rule nats_distinct [OF lw(3)])
    show "(S + k + 1, view s (lh_block s ! k)) \<in> set L"
      using that ub [OF that] by (force simp: L_def nats_def log_writes_def S_def)
    show "S + k + 1 < length D"
      using that lay lD by (simp add: log_lay_def S_def)
  qed
qed


lemma home_new:
  fixes s :: "'a klog_scheme"
  assumes rd: "ready s n" and b: "off_log s n b" and E: "length E = length (disk s)"
    and eq: "unat b \<notin> fst ` set (nats (home_writes s n)) \<Longrightarrow> E ! unat b = disk s ! unat b"
  shows "writes (nats (home_writes s n)) E ! unat b = view s b"
proof (cases "b \<in> set (take n (lh_block s))")
  case True
  then obtain k where k: "k < n" "b = lh_block s ! k"
    by (auto simp: in_set_conv_nth)
  show ?thesis
  proof (rule writes_in)
    show "distinct (map fst (nats (home_writes s n)))"
      using rd log_writes_fst(4) [of s n] by (intro nats_distinct) (simp add: ready_def)
    show "(unat b, view s b) \<in> set (nats (home_writes s n))"
      using k by (force simp: nats_def home_writes_def)
    show "unat b < length E"
      using b E by (simp add: off_log_def)
  qed
next
  case False
  have "n \<le> length (lh_block s)"
    using rd by (simp add: ready_def log_lay_def)
  then have out: "unat b \<notin> fst ` set (nats (home_writes s n))"
    using False by (auto simp: nats_def home_writes_def in_set_conv_nth) (metis min.absorb2 nth_take word_unat_eq_iff)
  have "writes (nats (home_writes s n)) E ! unat b = E ! unat b"
    by (rule writes_other [OF out])
  moreover have "view s b = disk s ! unat b"
    using rd False by (intro view_clean) (simp_all add: ready_def)
  ultimately show ?thesis
    using eq [OF out] by simp
qed

lemma full_head_ok:
  fixes s :: "'a klog_scheme"
  assumes rd: "ready s n"
  shows "get32 (full_head s) 0 = of_nat n" and "k < n \<Longrightarrow> get32 (full_head s) (4 + 4 * k) = lh_block s ! k"
    and "get32 (put_head 0 bs (full_head s)) 0 = 0"
proof -
  have "length (view s (log_start s)) = BSIZE"
    using rd by (intro length_view) (auto simp: ready_def log_lay_def)
  then have l: "4 + 4 * nat (lh_n s) \<le> length (view s (log_start s))"
    using rd by (simp add: ready_def)
  show "get32 (full_head s) 0 = of_nat n" "k < n \<Longrightarrow> get32 (full_head s) (4 + 4 * k) = lh_block s ! k"
    using put_head_ok [OF l, where bs = "lh_block s"] rd by (simp_all add: full_head_def ready_def)
  show "get32 (put_head 0 bs (full_head s)) 0 = 0"
    using put_head_ok(2) [where n = 0 and d = "full_head s" and bs = bs] put_head_ok(1) [OF l, where bs = "lh_block s"] l by (simp add: full_head_def)
qed

lemma commit_disk:
  fixes s :: "'a klog_scheme"
  assumes rd: "ready s n" and b: "off_log s n b"
  shows "writes (nats (commit_writes s)) (disk s) ! unat b = view s b"
proof -
  let ?S = "unat (log_start s)"
  let ?D = "(writes (nats (log_writes s n)) (disk s))[?S := full_head s]"
  have n: "nat (lh_n s) = n"
    using rd by (simp add: ready_def)
  note cw = crash_writes(3,4) [OF rd refl b]
  have "writes (nats (home_writes s n)) ?D ! unat b = view s b"
    by (rule home_new [OF rd b]) (use cw(2) writes_other [OF cw(1)] in simp_all)
  then show ?thesis
    using cw(2) by (simp add: commit_writes_def n)
qed

lemma crash_recover:
  fixes s :: "'a klog_scheme" and r :: "'b klog_scheme"
  assumes rd: "ready s n" and bt: "booted (writes (take m (nats (commit_writes s))) (disk s)) (log_start s) r"
  shows "\<exists>t. recover_from_log r = Ok () t \<and> bc t {} \<and>
    ((\<forall>b. off_log s n b \<longrightarrow> disk t ! unat b = disk s ! unat b) \<or> (\<forall>b. off_log s n b \<longrightarrow> disk t ! unat b = view s b))"
proof -
  let ?S = "unat (log_start s)"
  define L where "L = nats (log_writes s n)"
  define M where "M = nats (home_writes s n)"
  have len: "length L = n" "length M = n"
    by (simp_all add: L_def M_def nats_def log_writes_def home_writes_def)
  note cw = crash_writes [OF rd, folded L_def M_def]
  have lay: "log_lay s n" and n: "lh_n s = int n" "n \<le> LOGSIZE"
    using rd by (simp_all add: ready_def)
  have st: "?S + n < length (disk s)" "length (disk s) \<le> 2 ^ 32"
    using lay by (simp_all add: log_lay_def)
  define E where "E = writes (take m (nats (commit_writes s))) (disk s)"
  have lE: "length E = length (disk s)"
    by (simp add: E_def)
  have E3: "take m (nats (commit_writes s)) = (if m \<le> n then take m L
     else if m \<le> n + 1 + n then L @ [(?S, full_head s)] @ take (m - n - 1) M
     else L @ [(?S, full_head s)] @ M @ [(?S, put_head 0 (lh_block s) (full_head s))])"
    using take_three [of m L "(?S, full_head s)" M "(?S, put_head 0 (lh_block s) (full_head s))"] n
    by (simp add: commit_writes_def L_def [symmetric] M_def [symmetric] len)
  have none: "\<exists>t h. recover_from_log r = Ok () t \<and> bc t {} \<and> disk t = writes [(?S, h)] E" if "get32 (E ! ?S) 0 = 0"
    using recover_ok [OF bt [folded E_def], of 0 "[]"] st lE that by simp
  consider "m \<le> n" | "n < m" "m \<le> n + 1 + n" | "n + 1 + n < m"
    by linarith
  then show ?thesis
  proof cases
    case 1
    then have E: "E = writes (take m L) (disk s)"
      by (simp add: E_def E3)
    have sub: "fst ` set (take m L) \<subseteq> fst ` set L"
      by (meson image_mono set_take_subset)
    have "E ! ?S = disk s ! ?S" and same: "\<And>b. off_log s n b \<Longrightarrow> E ! unat b = disk s ! unat b"
      using sub cw(1) [OF refl] cw(3) [OF refl] unfolding E by (blast intro: writes_other)+
    then obtain t h where t: "recover_from_log r = Ok () t" "bc t {}" "disk t = writes [(?S, h)] E"
      using none rd by (auto simp: ready_def)
    have "disk t ! unat b = disk s ! unat b" if "off_log s n b" for b
      using same [OF that] cw(4) [OF refl that] t(3) by simp
    then show ?thesis
      using t by blast
  next
    case 2
    define D1 where "D1 = (writes L (disk s))[?S := full_head s]"
    have E: "E = writes (take (m - n - 1) M) D1"
      using 2 by (simp add: E_def E3 D1_def)
    have sub: "fst ` set (take (m - n - 1) M) \<subseteq> fst ` set M"
      by (meson image_mono set_take_subset)
    have ES: "E ! ?S = full_head s"
    proof -
      have "E ! ?S = D1 ! ?S"
        unfolding E using sub cw(2) [OF refl] by (intro writes_other) blast
      then show ?thesis
        using st by (simp add: D1_def)
    qed
    have Ek: "E ! (?S + k + 1) = view s (lh_block s ! k)" if "k < n" for k
    proof -
      have "E ! (?S + k + 1) = D1 ! (?S + k + 1)"
        unfolding E using sub cw(5) [OF refl that] by (intro writes_other) blast
      then show ?thesis
        using cw(6) [OF refl that] by (simp add: D1_def)
    qed
    obtain t h where t: "recover_from_log r = Ok () t" "bc t {}"
      "disk t = writes (map (\<lambda>k. (unat (lh_block s ! k), E ! (?S + k + 1))) [0..<n] @ [(?S, h)]) E"
      using recover_ok [OF bt [folded E_def], of n "lh_block s"] st lE ES full_head_ok [OF rd] n(2) lay
      by (auto simp: log_lay_def)
    have "map (\<lambda>k. (unat (lh_block s ! k), E ! (?S + k + 1))) [0..<n] = M"
      using Ek by (auto simp: M_def nats_def home_writes_def)
    then have dt: "disk t = (writes M E)[?S := h]"
      using t(3) by simp
    have new: "writes M E ! unat b = view s b" if b: "off_log s n b" for b
      unfolding M_def
    proof (rule home_new [OF rd b lE])
      assume "unat b \<notin> fst ` set (nats (home_writes s n))"
      then have "E ! unat b = D1 ! unat b"
        unfolding E using sub by (intro writes_other) (auto simp: M_def)
      also have "\<dots> = writes L (disk s) ! unat b"
        using cw(4) [OF refl b] by (simp add: D1_def)
      also have "\<dots> = disk s ! unat b"
        by (rule writes_other [OF cw(3) [OF refl b]])
      finally show "E ! unat b = disk s ! unat b" .
    qed
    have "disk t ! unat b = view s b" if "off_log s n b" for b
      using new [OF that] cw(4) [OF refl that] dt by simp
    then show ?thesis
      using t by blast
  next
    case 3
    have E: "E = writes (nats (commit_writes s)) (disk s)"
      unfolding E_def E3 using 3 n by (simp add: commit_writes_def L_def M_def)
    have "E ! ?S = put_head 0 (lh_block s) (full_head s)"
      using st by (simp add: E commit_writes_def)
    then obtain t h where t: "recover_from_log r = Ok () t" "bc t {}" "disk t = writes [(?S, h)] E"
      using none full_head_ok(3) [OF rd] by auto
    have "disk t ! unat b = view s b" if "off_log s n b" for b
      using commit_disk [OF rd that] cw(4) [OF refl that] t(3) by (simp add: E)
    then show ?thesis
      using t by blast
  qed
qed


text \<open>C3: \<open>commit\<close> is atomic under crashes.  A transaction of at most 29 blocks commits: afterwards every
  home block on disk has its new contents and the log is empty.  If the machine stops after any number of
  the disk writes, and \<open>recover_from_log\<close> runs on the disk as it is then with an empty cache, the home
  blocks all have their old contents or all have their new contents.\<close>

theorem commit_crash_atomic:
  fixes s :: "'a klog_scheme"
  assumes "ready s n"
  shows "\<exists>t ws. commit s = Ok () t \<and> dwrites t = dwrites s @ ws \<and> lh_n t = 0 \<and> pinned t = {} \<and>
    (\<forall>b. off_log s n b \<longrightarrow> disk t ! unat b = view s b) \<and>
    (\<forall>m (r :: 'a klog_scheme). booted (writes (take m ws) (disk s)) (log_start s) r \<longrightarrow>
       returns (recover_from_log r) (\<lambda>_ u. (\<forall>b. off_log s n b \<longrightarrow> disk u ! unat b = disk s ! unat b) \<or>
         (\<forall>b. off_log s n b \<longrightarrow> disk u ! unat b = view s b)))"
proof -
  have r: "bc s {}" "0 < lh_n s" "n = nat (lh_n s)" "n \<le> LOGSIZE" "log_lay s n" "pinned s = set (take n (lh_block s))"
    using assms by (simp_all add: ready_def)
  have nl: "n \<le> length (lh_block s)"
    using r(5) by (simp add: log_lay_def)
  have pin: "\<forall>k < n. lh_block s ! k \<in> pinned s"
    unfolding r(6) using nl by (auto simp: in_set_conv_nth)
  obtain t where t: "commit s = Ok () t" "disk t = writes (nats (commit_writes s)) (disk s)"
    "dwrites t = dwrites s @ nats (commit_writes s)" "lh_n t = 0" "pinned t \<subseteq> pinned s - {lh_block s ! k |k. k < n}"
    using commit_ok [OF r(1-5) pin ready_room [OF assms]] by blast
  have "pinned t = {}"
  proof -
    have "pinned s \<subseteq> {lh_block s ! k |k. k < n}"
      unfolding r(6) by (force simp: in_set_conv_nth)
    then show ?thesis
      using t(5) by blast
  qed
  moreover have "\<forall>b. off_log s n b \<longrightarrow> disk t ! unat b = view s b"
    using commit_disk [OF assms] t(2) by simp
  moreover have "returns (recover_from_log r) (\<lambda>_ u. (\<forall>b. off_log s n b \<longrightarrow> disk u ! unat b = disk s ! unat b) \<or>
         (\<forall>b. off_log s n b \<longrightarrow> disk u ! unat b = view s b))"
    if "booted (writes (take m (nats (commit_writes s))) (disk s)) (log_start s) r" for m and r :: "'a klog_scheme"
    using crash_recover [OF assms that] unfolding returns_iff by blast
  ultimately show ?thesis
    using t by blast
qed


text \<open>An example: a disk of eight blocks with the log at block 2, and a transaction that changes block 5.\<close>

definition zero_buf :: buf where
  "zero_buf = \<lparr>b_valid = False, b_dirty = False, b_dev = 0, blockno = 0, refcnt = 0, bdata = replicate BSIZE 0\<rparr>"

definition demo_boot :: "u8 list list \<Rightarrow> klog" where
  "demo_boot D = \<lparr>core = upd_cpu 0 (\<lambda>cp. cp\<lparr>cproc := Some 0\<rparr>) boot_core, mem = \<lambda>_. 0, kend = 0x80100800, use_lock = True,
     freelist = 0x80101000, uart = True, uartout = [], cga_pos = 0, crt = \<lambda>_. 0, cons_locking = True, panicked = False,
     kpgdir = 0x80102000, kdata = 0x80108000, ts_addr = \<lambda>_. 0,
     procs = first_proc\<lparr>pstate := RUNNING\<rparr> # replicate 63 zero_proc, nextpid = 2, initproc = Some 0, null_proc = zero_proc,
     slocks = \<lambda>_. free_slock, disk = D, dwrites = [], bufs = replicate 30 zero_buf, mru = [0..<30],
     log_start = 2, log_size = 3, outstanding = 0, committing = False, log_dev = 1, lh_n = 0, lh_block = replicate 30 0\<rparr>"

definition demo_log :: klog where
  "demo_log = (demo_boot (replicate 8 (replicate BSIZE 0)))\<lparr>lh_n := 1, lh_block := 5 # replicate 29 0,
     bufs := \<lparr>b_valid = True, b_dirty = True, b_dev = 1, blockno = 5, refcnt = 0, bdata = replicate BSIZE 1\<rparr> # replicate 29 zero_buf\<rparr>"

lemma demo_calm: "calm (demo_boot D)"
proof -
  have m: "me (upd_cpu 0 (\<lambda>cp. cp\<lparr>cproc := Some 0\<rparr>) boot_core) = Some 0"
    by (simp add: boot_core_ok)
  have "lock_free lk (upd_cpu 0 (\<lambda>cp. cp\<lparr>cproc := Some 0\<rparr>) boot_core)" for lk
    using boot_core_ok(3) [of lk] by (simp add: lock_free_def upd_cpu_def)
  moreover have "cproc (mc (upd_cpu 0 (\<lambda>cp. cp\<lparr>cproc := Some 0\<rparr>) boot_core)) = Some 0"
    unfolding mc_def m by (simp add: upd_cpu_def boot_core_def)
  ultimately show ?thesis
    by (simp add: calm_def me_proc_def demo_boot_def boot_core_ok zero_proc_def)
qed

lemma demo_booted: "\<forall>x \<in> set D. length x = BSIZE \<Longrightarrow> booted D 2 (demo_boot D)"
proof -
  assume D: "\<forall>x \<in> set D. length x = BSIZE"
  have b: "bufs (demo_boot D) = replicate 30 zero_buf" "slocks (demo_boot D) lk = free_slock" "disk (demo_boot D) = D"
    "mru (demo_boot D) = [0..<30]" for lk
    by (simp_all add: demo_boot_def)
  have "bc (demo_boot D) {}"
    unfolding bc_def buf_ok_def b Let_def using D demo_calm [of D] by (auto simp: zero_buf_def)
  moreover have "pinned (demo_boot D) = {}"
    unfolding pinned_def b by (auto simp: zero_buf_def)
  ultimately show ?thesis
    by (simp add: booted_def b) (simp add: demo_boot_def)
qed

lemma demo_ready: "ready demo_log 1"
proof -
  have b: "bufs demo_log = \<lparr>b_valid = True, b_dirty = True, b_dev = 1, blockno = 5, refcnt = 0, bdata = replicate BSIZE 1\<rparr> # replicate 29 zero_buf"
    "slocks demo_log lk = free_slock" "disk demo_log = replicate 8 (replicate BSIZE 0)" "mru demo_log = [0..<30]" "lh_block demo_log = 5 # replicate 29 0"
    "log_start demo_log = 2" "log_dev demo_log = 1" "lh_n demo_log = 1" for lk
    by (simp_all add: demo_log_def demo_boot_def)
  have c: "calm demo_log"
    using demo_calm [of "replicate 8 (replicate BSIZE 0)"] by (simp add: demo_log_def)
  have "bc demo_log {}"
    unfolding bc_def buf_ok_def b Let_def using c by (auto simp: zero_buf_def nth_Cons split: nat.splits)
  moreover have "pinned demo_log = {5}"
  proof -
    have "i < length (bufs demo_log) \<and> b_dirty (bufs demo_log ! i) \<longleftrightarrow> i = 0" for i
      by (cases i) (simp_all add: b zero_buf_def)
    then have "pinned demo_log = {blockno (bufs demo_log ! 0)}"
      unfolding pinned_def by simp
    then show ?thesis
      by (simp add: b)
  qed
  moreover have "log_lay demo_log 1"
    unfolding log_lay_def b by simp
  moreover have "get32 (disk demo_log ! 2) 0 = 0"
    unfolding b by (simp add: get32_def)
  ultimately show ?thesis
    unfolding ready_def b by simp
qed

theorem commit_crash_atomic_witness:
  "ready demo_log 1 \<and> booted (disk demo_log) 2 (demo_boot (disk demo_log)) \<and>
   returns (commit demo_log) (\<lambda>_ t. disk t ! 5 = view demo_log 5) \<and>
   returns (recover_from_log (demo_boot (disk demo_log))) (\<lambda>_ u. disk u ! 5 = disk demo_log ! 5 \<or> disk u ! 5 = view demo_log 5)"
proof -
  have o: "off_log demo_log 1 5" "log_start demo_log = 2"
    by (simp_all add: off_log_def demo_log_def demo_boot_def)
  have bt: "booted (writes (take 0 ws) (disk demo_log)) 2 (demo_boot (disk demo_log))" for ws
    using demo_booted [of "disk demo_log"] by (simp add: demo_log_def demo_boot_def)
  obtain t ws where t: "commit demo_log = Ok () t" "\<forall>b. off_log demo_log 1 b \<longrightarrow> disk t ! unat b = view demo_log b"
    and c: "\<forall>m (r :: klog). booted (writes (take m ws) (disk demo_log)) (log_start demo_log) r \<longrightarrow>
       returns (recover_from_log r) (\<lambda>_ u. (\<forall>b. off_log demo_log 1 b \<longrightarrow> disk u ! unat b = disk demo_log ! unat b) \<or>
         (\<forall>b. off_log demo_log 1 b \<longrightarrow> disk u ! unat b = view demo_log b))"
    using commit_crash_atomic [OF demo_ready] by blast
  have "returns (recover_from_log (demo_boot (disk demo_log))) (\<lambda>_ u. disk u ! 5 = disk demo_log ! 5 \<or> disk u ! 5 = view demo_log 5)"
    using c [rule_format, of 0, OF bt [folded o(2), of ws]] o(1) by (elim returns_mono) auto
  then show ?thesis
    using demo_ready bt [of "[]"] t o by auto
qed

end
