(* ===== verification/Umem.thy ===== *)
theory Umem
  imports Sched
begin

section \<open>Kernel accesses to user memory\<close>

text \<open>
  The kernel reads and writes the memory of the current process at its user addresses, through the
  page table that is loaded; addresses from \<open>KERNBASE\<close> on are kernel addresses.  Where no page is
  mapped the processor traps, and \<open>trap()\<close> calls the page fault handler and returns to the access,
  which is then repeated.

  \<open>uaddr\<close>, \<open>present_at\<close>, \<open>uload\<close> and \<open>ustore\<close> are not code of the kernel: they are what the processor does with an
  address, the translation of the page table.  \<open>pagefault\<close> is the page fault branch of \<open>trap()\<close> alone.  The outcome
  \<open>Spin\<close> of \<open>uaddr\<close> says that one repetition did not help, so that the access makes no progress by itself; that
  each further trap really leaves the process as it was is a theorem about \<open>trap()\<close> itself, in the theory
  \<open>Refault\<close>.
\<close>

definition pagefault :: "u32 \<Rightarrow> 'a kproc_scheme \<Rightarrow> (unit, 'a kproc_scheme) res" where
  "pagefault va s =
     bnd (cur s) (\<lambda>p s.
     bnd (page_fault_handler (pgdir (procat p s)) (PGROUNDDOWN va) s) (\<lambda>r s.
     bnd (cprintf ''Page Fault Handler (1 = success, 0 = fail): %d\<newline>'' [KInt (word_of_int r)] s) (\<lambda>_ s.
     switchuvm p s)))"

definition present_at :: "u32 \<Rightarrow> u32 \<Rightarrow> ram \<Rightarrow> u32 option" where
  "present_at pd va m =
     (let pde = load32 m (pd + 4 * PDX va) in
      if pde AND PTE_P = 0 then None
      else
        let e = load32 m (P2V (PTE_ADDR pde) + 4 * PTX va) in
        if e AND PTE_P = 0 then None else Some (P2V (PTE_ADDR e) + (va AND 0xFFF)))"

definition uaddr :: "u32 \<Rightarrow> 'a kproc_scheme \<Rightarrow> (u32, 'a kproc_scheme) res" where
  "uaddr va s =
     (if va \<ge> KERNBASE then Ok va s else
      bnd (cur s) (\<lambda>p s.
      case present_at (pgdir (procat p s)) va (mem s) of
        Some a \<Rightarrow> Ok a s
      | None \<Rightarrow>
          bnd (pagefault va s) (\<lambda>_ s.
          case present_at (pgdir (procat p s)) va (mem s) of Some a \<Rightarrow> Ok a s | None \<Rightarrow> Spin)))"

definition uload :: "u32 \<Rightarrow> 'a kproc_scheme \<Rightarrow> (u8, 'a kproc_scheme) res" where
  "uload va s = bnd (uaddr va s) (\<lambda>a s. Ok (mem s a) s)"

definition ustore :: "u32 \<Rightarrow> u8 \<Rightarrow> 'a kproc_scheme \<Rightarrow> (unit, 'a kproc_scheme) res" where
  "ustore va b s = bnd (uaddr va s) (\<lambda>a s. Ok () (s\<lparr>mem := (mem s)(a := b)\<rparr>))"

fun uread :: "u32 \<Rightarrow> nat \<Rightarrow> 'a kproc_scheme \<Rightarrow> (u8 list, 'a kproc_scheme) res" where
  "uread va 0 s = Ok [] s"
| "uread va (Suc n) s =
     bnd (uload va s) (\<lambda>x s. bnd (uread (va + 1) n s) (\<lambda>xs s. Ok (x # xs) s))"

fun uwrite :: "u32 \<Rightarrow> u8 list \<Rightarrow> 'a kproc_scheme \<Rightarrow> (unit, 'a kproc_scheme) res" where
  "uwrite va [] s = Ok () s"
| "uwrite va (x # xs) s = bnd (ustore va x s) (\<lambda>_ s. uwrite (va + 1) xs s)"

text \<open>
  The buffers that file contents are copied to and from: the kernel's own (its bytes are passed by
  value) or user memory at an address; \<open>k\<close> is the position in the buffer.
\<close>

datatype dest = Kdst | Udst u32

datatype source = Ksrc "u8 list" | Usrc u32

definition put_dst :: "dest \<Rightarrow> nat \<Rightarrow> u8 list \<Rightarrow> 'a kproc_scheme \<Rightarrow> (unit, 'a kproc_scheme) res" where
  "put_dst d k xs s = (case d of Kdst \<Rightarrow> Ok () s | Udst a \<Rightarrow> uwrite (a + of_nat k) xs s)"

definition get_src :: "source \<Rightarrow> nat \<Rightarrow> nat \<Rightarrow> 'a kproc_scheme \<Rightarrow> (u8 list, 'a kproc_scheme) res" where
  "get_src d k m s = (case d of Ksrc xs \<Rightarrow> Ok (take m (drop k xs)) s | Usrc a \<Rightarrow> uread (a + of_nat k) m s)"

subsection \<open>Arguments of system calls: the first part of syscall.c\<close>

definition fetchint :: "u32 \<Rightarrow> 'a kproc_scheme \<Rightarrow> (u32 option, 'a kproc_scheme) res" where
  "fetchint a s =
     bnd (cur s) (\<lambda>p s.
     if a \<ge> sz (procat p s) \<or> a + 4 > sz (procat p s) then Ok None s
     else bnd (uread a 4 s) (\<lambda>xs s. Ok (Some (get32 xs 0)) s))"

text \<open>The loop of \<open>fetchstr\<close> from \<open>q\<close> on; it visits each address below \<open>ep\<close> once, so \<open>ep - q\<close> rounds are enough.\<close>

fun fetchstr_loop :: "nat \<Rightarrow> u32 \<Rightarrow> u32 \<Rightarrow> 'a kproc_scheme \<Rightarrow> (u8 list option, 'a kproc_scheme) res" where
  "fetchstr_loop 0 q ep s = Ok None s"
| "fetchstr_loop (Suc n) q ep s =
     (if \<not> q < ep then Ok None s else
      bnd (uload q s) (\<lambda>c s.
      if c = 0 then Ok (Some []) s
      else bnd (fetchstr_loop n (q + 1) ep s) (\<lambda>r s. Ok (map_option ((#) c) r) s)))"

text \<open>The pointer that \<open>fetchstr\<close> delivers, with the characters it points to.\<close>

definition fetchstr :: "u32 \<Rightarrow> 'a kproc_scheme \<Rightarrow> ((u32 \<times> u8 list) option, 'a kproc_scheme) res" where
  "fetchstr a s =
     bnd (cur s) (\<lambda>p s.
     if a \<ge> sz (procat p s) then Ok None s
     else bnd (fetchstr_loop (unat (sz (procat p s) - a)) a (sz (procat p s)) s) (\<lambda>r s.
          Ok (map_option (Pair a) r) s))"

definition argint :: "nat \<Rightarrow> 'a kproc_scheme \<Rightarrow> (u32 option, 'a kproc_scheme) res" where
  "argint n s = bnd (cur s) (\<lambda>p s. fetchint (t_esp (tf (procat p s)) + 4 + 4 * of_nat n) s)"

definition argptr :: "nat \<Rightarrow> int \<Rightarrow> 'a kproc_scheme \<Rightarrow> (u32 option, 'a kproc_scheme) res" where
  "argptr n len s =
     bnd (cur s) (\<lambda>p s.
     bnd (argint n s) (\<lambda>r s.
     case r of None \<Rightarrow> Ok None s | Some i \<Rightarrow>
     if len < 0 \<or> i \<ge> sz (procat p s) \<or> i + word_of_int len > sz (procat p s) then Ok None s
     else Ok (Some i) s))"

definition argstr :: "nat \<Rightarrow> 'a kproc_scheme \<Rightarrow> ((u32 \<times> u8 list) option, 'a kproc_scheme) res" where
  "argstr n s =
     bnd (argint n s) (\<lambda>r s.
     case r of None \<Rightarrow> Ok None s | Some a \<Rightarrow> fetchstr a s)"

end
