(* ===== verification/Usermem.thy ===== *)
theory Usermem
  imports Umem
begin

section \<open>User buffers\<close>

text \<open>
  What the kernel's loads and stores of user memory do when the pages are mapped: \<open>ubuf\<close> says that a
  user buffer is mapped, \<open>ubytes\<close> is what it holds.  Storing to a mapped user page changes this byte of
  the address space and no other one, and keeps the invariant \<open>as_wf\<close> of the address space.
\<close>

definition uphys :: "ram \<Rightarrow> u32 \<Rightarrow> u32 \<Rightarrow> u32" where
  "uphys m pd va = upage m pd va + (va AND 0xFFF)"

definition mypd :: "'a kproc_scheme \<Rightarrow> u32" where
  "mypd s = pgdir (procat (me_proc s) s)"

definition ubuf :: "'a kproc_scheme \<Rightarrow> u32 \<Rightarrow> nat \<Rightarrow> bool" where
  "ubuf s va n \<longleftrightarrow> (\<forall>k < n. va + of_nat k < KERNBASE \<and> present (mem s) (mypd s) (va + of_nat k))"

definition ubytes :: "'a kproc_scheme \<Rightarrow> u32 \<Rightarrow> nat \<Rightarrow> u8 list" where
  "ubytes s va n = map (\<lambda>k. mem s (uphys (mem s) (mypd s) (va + of_nat k))) [0..<n]"

lemma length_ubytes [simp]: "length (ubytes s va n) = n"
  by (simp add: ubytes_def)

lemma present_at_eq: "present_at pd va m = (if present m pd va then Some (uphys m pd va) else None)"
  by (simp add: present_at_def present_def pte_def has_pt_def pdev_def ptab_def uphys_def upage_def Let_def)

lemma uaddr_ok:
  "cpu_ok (core s) \<Longrightarrow> va < KERNBASE \<Longrightarrow> present (mem s) (mypd s) va \<Longrightarrow>
   uaddr va s = Ok (uphys (mem s) (mypd s) va) s"
  by (simp add: uaddr_def quiet_simps present_at_eq mypd_def not_le [symmetric])

lemma uload_ok:
  "cpu_ok (core s) \<Longrightarrow> va < KERNBASE \<Longrightarrow> present (mem s) (mypd s) va \<Longrightarrow>
   uload va s = Ok (mem s (uphys (mem s) (mypd s) va)) s"
  by (simp add: uload_def uaddr_ok)

lemma ustore_ok:
  "cpu_ok (core s) \<Longrightarrow> va < KERNBASE \<Longrightarrow> present (mem s) (mypd s) va \<Longrightarrow>
   ustore va b s = Ok () (s\<lparr>mem := (mem s)(uphys (mem s) (mypd s) va := b)\<rparr>)"
  by (simp add: ustore_def uaddr_ok)

lemma ubuf_Suc: "ubuf s va (Suc n) \<longleftrightarrow> va < KERNBASE \<and> present (mem s) (mypd s) va \<and> ubuf s (va + 1) n"
proof -
  have "va + of_nat (Suc k) = va + 1 + of_nat k" for k
    by simp
  then show ?thesis
    unfolding ubuf_def All_less_Suc2 by (simp add: add.assoc)
qed

lemma ubytes_Suc: "ubytes s va (Suc n) = mem s (uphys (mem s) (mypd s) va) # ubytes s (va + 1) n"
proof -
  have "[0..<Suc n] = 0 # map Suc [0..<n]"
    by (simp add: map_Suc_upt upt_conv_Cons del: upt_Suc)
  then show ?thesis
    by (simp add: ubytes_def add.assoc [symmetric] del: upt_Suc)
qed

text \<open>Different user addresses are different bytes of memory.\<close>

lemma PGROUNDDOWN_uphys: "PGROUNDDOWN (uphys m pd va) = upage m pd va"
proof -
  have "unat (va AND 0xFFF) < 4096"
    using word_and_le1 [of va "0xFFF"] by (simp add: word_le_nat_alt)
  then show ?thesis
    by (simp add: uphys_def upage_def PGROUNDDOWN_add)
qed

lemma uphys_inj:
  assumes "as_wf s pd xs" and "a < KERNBASE" "present (mem s) pd a" and "b < KERNBASE" "present (mem s) pd b"
    and eq: "uphys (mem s) pd a = uphys (mem s) pd b"
  shows "a = b"
proof -
  have pg: "upage (mem s) pd a = upage (mem s) pd b"
    using arg_cong [OF eq, of PGROUNDDOWN] by (simp add: PGROUNDDOWN_uphys)
  then have "PDX a = PDX b" "PTX a = PTX b"
    using as_wfD(6) [OF assms(1,2,4,3,5)] by (simp_all add: same_page_iff)
  moreover have "a AND 0xFFF = b AND 0xFFF"
    using eq pg by (simp add: uphys_def)
  ultimately show ?thesis
    by (metis PGADDR_split)
qed

text \<open>Storing a byte of a mapped user page.\<close>

lemma user_store:
  fixes b :: u8
  assumes wf: "as_wf s pd xs" and a: "a < KERNBASE" "present (mem s) pd a"
  defines "t \<equiv> s\<lparr>mem := (mem s)(uphys (mem s) pd a := b)\<rparr>"
  shows "pte (mem t) pd = pte (mem s) pd" and "present (mem t) pd = present (mem s) pd"
    and "uphys (mem t) pd = uphys (mem s) pd" and "as_wf t pd xs"
proof -
  have fr: "mem t c = mem s c" if "PGROUNDDOWN c \<in> tables (mem s) pd" for c
    using that as_wfD(4) [OF wf a] PGROUNDDOWN_uphys [of "mem s" pd a] by (auto simp: t_def)
  note tf = tables_frame [OF vm_wfD(2) [OF as_wfD(1) [OF wf]] fr]
  show pt: "pte (mem t) pd = pte (mem s) pd"
    by (rule tf(4))
  then show "present (mem t) pd = present (mem s) pd" and "uphys (mem t) pd = uphys (mem s) pd"
    by (simp_all add: fun_eq_iff present_def uphys_def upage_def)
  show "as_wf t pd xs"
  proof (rule as_wf_transfer [OF wf, of t xs "{}"])
    show "vm_wf t pd xs"
      by (rule vm_wf_frame [OF as_wfD(1) [OF wf] fr]) (simp_all add: t_def)
    show "upage (mem s) pd va \<notin> {} \<union> set xs" if "va < KERNBASE" "present (mem t) pd va" for va
      using as_wfD(5) [OF wf that(1)] that(2) pt by (simp add: present_def)
    show "tables (mem t) pd \<subseteq> tables (mem s) pd \<union> {}"
      using tf(5) by simp
  qed (simp_all add: pt, simp add: t_def)
qed

text \<open>The memory after bytes were stored from a user address on, one after the other.\<close>

fun uput :: "ram \<Rightarrow> u32 \<Rightarrow> u32 \<Rightarrow> u8 list \<Rightarrow> ram" where
  "uput m pd va [] = m"
| "uput m pd va (b # bs) = uput (m(uphys m pd va := b)) pd (va + 1) bs"

definition umapped :: "ram \<Rightarrow> u32 \<Rightarrow> u32 \<Rightarrow> nat \<Rightarrow> bool" where
  "umapped m pd va n \<longleftrightarrow> (\<forall>k < n. va + of_nat k < KERNBASE \<and> present m pd (va + of_nat k))"

lemma ubuf_umapped: "ubuf s va n = umapped (mem s) (mypd s) va n"
  by (simp add: ubuf_def umapped_def)

lemma umapped_Suc: "umapped m pd va (Suc n) \<longleftrightarrow> va < KERNBASE \<and> present m pd va \<and> umapped m pd (va + 1) n"
  unfolding umapped_def All_less_Suc2 by (simp add: add.assoc)

lemma uput_ok:
  assumes "as_wf s pd xs" and "umapped (mem s) pd va (length bs)" and "length bs < 2 ^ 32"
  defines "t \<equiv> s\<lparr>mem := uput (mem s) pd va bs\<rparr>"
  shows "present (mem t) pd = present (mem s) pd \<and> uphys (mem t) pd = uphys (mem s) pd \<and> as_wf t pd xs \<and>
     (\<forall>k < length bs. mem t (uphys (mem s) pd (va + of_nat k)) = bs ! k) \<and>
     (\<forall>c. (\<forall>k < length bs. c \<noteq> uphys (mem s) pd (va + of_nat k)) \<longrightarrow> mem t c = mem s c)"
  using assms(1-3) unfolding t_def
proof (induction bs arbitrary: va s)
  case (Cons b bs)
  define u where "u = s\<lparr>mem := (mem s)(uphys (mem s) pd va := b)\<rparr>"
  have va: "va < KERNBASE" "present (mem s) pd va" "umapped (mem s) pd (va + 1) (length bs)"
    using Cons.prems(2) by (simp_all add: umapped_Suc)
  note us = user_store [OF Cons.prems(1) va(1,2), of b, folded u_def]
  have "umapped (mem u) pd (va + 1) (length bs)"
    using va(3) by (simp add: umapped_def us(2))
  note ih = Cons.IH [OF us(4) this]
  have ne: "uphys (mem s) pd va \<noteq> uphys (mem s) pd (va + 1 + of_nat k)" if "k < length bs" for k
  proof
    assume "uphys (mem s) pd va = uphys (mem s) pd (va + 1 + of_nat k)"
    then have "va = va + 1 + of_nat k"
      using uphys_inj [OF Cons.prems(1) va(1,2)] va(3) that by (simp add: umapped_def)
    then have "(of_nat (Suc k) :: u32) = 0"
      by (simp add: add.assoc)
    then show False
      using that Cons.prems(3) by (simp add: word_unat_eq_iff unat_of_nat del: of_nat_Suc)
  qed
  have E: "s\<lparr>mem := uput (mem s) pd va (b # bs)\<rparr> = u\<lparr>mem := uput (mem u) pd (va + 1) bs\<rparr>"
    and m: "mem u (uphys (mem s) pd va) = b" "c \<noteq> uphys (mem s) pd va \<Longrightarrow> mem u c = mem s c" for c
    by (simp_all add: u_def)
  have all: "(\<forall>k < length (b # bs). P k) \<longleftrightarrow> P 0 \<and> (\<forall>k < length bs. P (Suc k))" for P
    by (simp add: All_less_Suc2)
  have z: "va + of_nat (0 :: nat) = va" "va + of_nat (Suc k) = va + 1 + of_nat k" for k
    by simp_all
  have "length bs < 2 ^ 32"
    using Cons.prems(3) by simp
  note ih = ih [OF this, unfolded us(2,3)]
  show ?case
    unfolding E all z nth_Cons_0 nth_Cons_Suc using ih ne by (auto simp: m)
qed simp

lemma ubytes_uput:
  assumes "as_wf s pd fs" and "umapped (mem s) pd a (length bs)" and "length bs < 2 ^ 32"
    and "mem t = uput (mem s) pd a bs" and "mypd t = pd"
  shows "ubytes t a (length bs) = bs"
proof -
  have "ubytes t a (length bs) = map (\<lambda>j. bs ! j) [0..<length bs]"
    unfolding ubytes_def assms(4,5) using uput_ok [OF assms(1-3)] by simp
  then show ?thesis
    by (simp only: map_nth)
qed

end
