(* ===== verification/Inode.thy ===== *)
theory Inode
  imports Log
begin

section \<open>Disk blocks and inodes: the lower half of fs.c\<close>

text \<open>
  The record \<open>kinode\<close> adds the super block in memory and the inode cache.  A pointer to an inode is its
  index in the cache.  \<open>short\<close> fields are 16-bit words; \<open>i_addrs\<close> has the \<open>NDIRECT\<close> direct block numbers
  and the number of the indirect block.  An inode on disk is the 64 bytes that \<open>struct dinode\<close> lays out,
  read by \<open>get_dinode\<close> and written field by field by \<open>put_dinode\<close>.
\<close>

abbreviation (input) NINODE :: nat where "NINODE \<equiv> 50"
abbreviation (input) ROOTDEV :: u32 where "ROOTDEV \<equiv> 1"
abbreviation (input) ROOTINO :: u32 where "ROOTINO \<equiv> 1"
abbreviation (input) NDIRECT :: nat where "NDIRECT \<equiv> 12"
abbreviation (input) NINDIRECT :: nat where "NINDIRECT \<equiv> 128"
abbreviation (input) MAXFILE :: nat where "MAXFILE \<equiv> 140"
abbreviation (input) T_DIR :: u16 where "T_DIR \<equiv> 1"
abbreviation (input) T_FILE :: u16 where "T_FILE \<equiv> 2"
abbreviation (input) T_DEV :: u16 where "T_DEV \<equiv> 3"
abbreviation (input) IPB :: nat where "IPB \<equiv> 8"
abbreviation (input) BPB :: nat where "BPB \<equiv> 4096"

record inode =
  i_dev :: u32
  i_inum :: u32
  i_ref :: int
  i_valid :: bool
  i_type :: u16
  i_major :: u16
  i_minor :: u16
  i_nlink :: u16
  i_size :: u32
  i_addrs :: "u32 list"

record kinode = klog +
  sb :: superblock
  icache :: "inode list"

definition IBLOCK :: "u32 \<Rightarrow> superblock \<Rightarrow> u32" where
  "IBLOCK i b = i div of_nat IPB + inodestart b"

definition BBLOCK :: "u32 \<Rightarrow> superblock \<Rightarrow> u32" where
  "BBLOCK b s = b div of_nat BPB + bmapstart s"

definition upd_inode :: "nat \<Rightarrow> (inode \<Rightarrow> inode) \<Rightarrow> 'a kinode_scheme \<Rightarrow> 'a kinode_scheme" where
  "upd_inode i f s = s\<lparr>icache := (icache s)[i := f (icache s ! i)]\<rparr>"

subsection \<open>Blocks\<close>

definition bzero :: "u32 \<Rightarrow> u32 \<Rightarrow> 'a klog_scheme \<Rightarrow> (unit, 'a klog_scheme) res" where
  "bzero dv bno s =
     bnd (bread dv bno s) (\<lambda>bp s.
     let s = upd_buf bp (\<lambda>x. x\<lparr>bdata := replicate BSIZE 0\<rparr>) s in
     bnd (log_write bp s) (\<lambda>_ s.
     brelse bp s))"

text \<open>The bit of block \<open>bi\<close> in a block of the free map, and that bit set or cleared.\<close>

definition bit_mask :: "nat \<Rightarrow> u8" where
  "bit_mask bi = push_bit (bi mod 8) 1"

definition bit_used :: "u8 list \<Rightarrow> nat \<Rightarrow> bool" where
  "bit_used d bi \<longleftrightarrow> d ! (bi div 8) AND bit_mask bi \<noteq> 0"

fun balloc_loop :: "nat list \<Rightarrow> u32 \<Rightarrow> 'a kinode_scheme \<Rightarrow> (u32, 'a kinode_scheme) res" where
  "balloc_loop [] dv s = Panic ''balloc: out of blocks''"
| "balloc_loop (b # bs) dv s =
     bnd (bread dv (BBLOCK (of_nat b) (sb s)) s) (\<lambda>bp s.
     case find (\<lambda>bi. \<not> bit_used (bdata (bufs s ! bp)) bi) [0..<min BPB (unat (sb_size (sb s)) - b)] of
       Some bi \<Rightarrow>
         let s = upd_buf bp (\<lambda>x. x\<lparr>bdata := (bdata x)[bi div 8 := bdata x ! (bi div 8) OR bit_mask bi]\<rparr>) s in
         bnd (log_write bp s) (\<lambda>_ s.
         bnd (brelse bp s) (\<lambda>_ s.
         bnd (bzero dv (of_nat (b + bi)) s) (\<lambda>_ s.
         Ok (of_nat (b + bi)) s)))
     | None \<Rightarrow> bnd (brelse bp s) (\<lambda>_ s. balloc_loop bs dv s))"

definition balloc :: "u32 \<Rightarrow> 'a kinode_scheme \<Rightarrow> (u32, 'a kinode_scheme) res" where
  "balloc dv s = balloc_loop (map (\<lambda>k. k * BPB) [0..<(unat (sb_size (sb s)) + BPB - 1) div BPB]) dv s"

definition bfree :: "u32 \<Rightarrow> u32 \<Rightarrow> 'a kinode_scheme \<Rightarrow> (unit, 'a kinode_scheme) res" where
  "bfree dv b s =
     bnd (bread dv (BBLOCK b (sb s)) s) (\<lambda>bp s.
     let bi = unat b mod BPB in
     if \<not> bit_used (bdata (bufs s ! bp)) bi then Panic ''freeing free block'' else
     let s = upd_buf bp (\<lambda>x. x\<lparr>bdata := (bdata x)[bi div 8 := bdata x ! (bi div 8) AND NOT (bit_mask bi)]\<rparr>) s in
     bnd (log_write bp s) (\<lambda>_ s.
     brelse bp s))"

subsection \<open>Inodes on disk\<close>

definition get_dinode :: "u8 list \<Rightarrow> nat \<Rightarrow> inode \<Rightarrow> inode" where
  "get_dinode d o1 ip = ip\<lparr>i_type := get16 d o1, i_major := get16 d (o1 + 2), i_minor := get16 d (o1 + 4),
     i_nlink := get16 d (o1 + 6), i_size := get32 d (o1 + 8),
     i_addrs := map (\<lambda>k. get32 d (o1 + 12 + 4 * k)) [0..<NDIRECT + 1]\<rparr>"

definition put_dinode :: "inode \<Rightarrow> nat \<Rightarrow> u8 list \<Rightarrow> u8 list" where
  "put_dinode ip o1 d =
     (let d = overlay o1 (bytes16 (i_type ip)) d;
          d = overlay (o1 + 2) (bytes16 (i_major ip)) d;
          d = overlay (o1 + 4) (bytes16 (i_minor ip)) d;
          d = overlay (o1 + 6) (bytes16 (i_nlink ip)) d;
          d = overlay (o1 + 8) (bytes32 (i_size ip)) d in
      overlay (o1 + 12) (concat (map bytes32 (i_addrs ip))) d)"

definition dinode_off :: "u32 \<Rightarrow> nat" where
  "dinode_off inum = unat inum mod IPB * 64"

definition iupdate :: "nat \<Rightarrow> 'a kinode_scheme \<Rightarrow> (unit, 'a kinode_scheme) res" where
  "iupdate ip s =
     bnd (bread (i_dev (icache s ! ip)) (IBLOCK (i_inum (icache s ! ip)) (sb s)) s) (\<lambda>bp s.
     let s = upd_buf bp (\<lambda>x. x\<lparr>bdata := put_dinode (icache s ! ip) (dinode_off (i_inum (icache s ! ip))) (bdata x)\<rparr>) s in
     bnd (log_write bp s) (\<lambda>_ s.
     brelse bp s))"

subsection \<open>The inode cache\<close>

definition iinit :: "u32 \<Rightarrow> 'a kinode_scheme \<Rightarrow> (unit, 'a kinode_scheme) res" where
  "iinit dv s =
     (let s = s\<lparr>core := initlock L_icache (core s)\<rparr>;
          s = foldl (\<lambda>s i. initsleeplock (L_inode i) s) s [0..<NINODE] in
      bnd (readsb dv s) (\<lambda>b s.
      let s = s\<lparr>sb := b\<rparr> in
      cprintf ''sb: size %d nblocks %d ninodes %d nlog %d logstart %d inodestart %d bmap start %d\<newline>''
        [KInt (sb_size b), KInt (nblocks b), KInt (ninodes b), KInt (nlog b), KInt (logstart b), KInt (inodestart b), KInt (bmapstart b)] s))"

definition iget :: "u32 \<Rightarrow> u32 \<Rightarrow> 'a kinode_scheme \<Rightarrow> (nat, 'a kinode_scheme) res" where
  "iget dv inum s =
     bnd (on_core (acquire L_icache) s) (\<lambda>_ s.
     case find_idx (\<lambda>ip. i_ref ip > 0 \<and> i_dev ip = dv \<and> i_inum ip = inum) (icache s) of
       Some ip \<Rightarrow>
         let s = upd_inode ip (\<lambda>x. x\<lparr>i_ref := i_ref x + 1\<rparr>) s in
         bnd (on_core (release L_icache) s) (\<lambda>_ s. Ok ip s)
     | None \<Rightarrow>
         (case find_idx (\<lambda>ip. i_ref ip = 0) (icache s) of
            None \<Rightarrow> Panic ''iget: no inodes''
          | Some ip \<Rightarrow>
              let s = upd_inode ip (\<lambda>x. x\<lparr>i_dev := dv, i_inum := inum, i_ref := 1, i_valid := False\<rparr>) s in
              bnd (on_core (release L_icache) s) (\<lambda>_ s. Ok ip s)))"

fun ialloc_loop :: "nat list \<Rightarrow> u32 \<Rightarrow> u16 \<Rightarrow> 'a kinode_scheme \<Rightarrow> (nat, 'a kinode_scheme) res" where
  "ialloc_loop [] dv ty s = Panic ''ialloc: no inodes''"
| "ialloc_loop (inum # rest) dv ty s =
     bnd (bread dv (IBLOCK (of_nat inum) (sb s)) s) (\<lambda>bp s.
     let o1 = dinode_off (of_nat inum) in
     if get16 (bdata (bufs s ! bp)) o1 = 0 then
       let s = upd_buf bp (\<lambda>x. x\<lparr>bdata := overlay o1 (bytes16 ty) (overlay o1 (replicate 64 0) (bdata x))\<rparr>) s in
       bnd (log_write bp s) (\<lambda>_ s.
       bnd (brelse bp s) (\<lambda>_ s.
       iget dv (of_nat inum) s))
     else bnd (brelse bp s) (\<lambda>_ s. ialloc_loop rest dv ty s))"

definition ialloc :: "u32 \<Rightarrow> u16 \<Rightarrow> 'a kinode_scheme \<Rightarrow> (nat, 'a kinode_scheme) res" where
  "ialloc dv ty s = ialloc_loop [1..<unat (ninodes (sb s))] dv ty s"

definition idup :: "nat \<Rightarrow> 'a kinode_scheme \<Rightarrow> (nat, 'a kinode_scheme) res" where
  "idup ip s =
     bnd (on_core (acquire L_icache) s) (\<lambda>_ s.
     let s = upd_inode ip (\<lambda>x. x\<lparr>i_ref := i_ref x + 1\<rparr>) s in
     bnd (on_core (release L_icache) s) (\<lambda>_ s. Ok ip s))"

definition ilock :: "nat option \<Rightarrow> 'a kinode_scheme \<Rightarrow> (unit, 'a kinode_scheme) res" where
  "ilock p s =
     (case p of None \<Rightarrow> Panic ''ilock'' | Some ip \<Rightarrow>
      if i_ref (icache s ! ip) < 1 then Panic ''ilock'' else
      bnd (acquiresleep (L_inode ip) s) (\<lambda>_ s.
      if \<not> i_valid (icache s ! ip) then
        bnd (bread (i_dev (icache s ! ip)) (IBLOCK (i_inum (icache s ! ip)) (sb s)) s) (\<lambda>bp s.
        let s = upd_inode ip (get_dinode (bdata (bufs s ! bp)) (dinode_off (i_inum (icache s ! ip)))) s in
        bnd (brelse bp s) (\<lambda>_ s.
        let s = upd_inode ip (\<lambda>x. x\<lparr>i_valid := True\<rparr>) s in
        if i_type (icache s ! ip) = 0 then Panic ''ilock: no type'' else Ok () s))
      else Ok () s))"

definition iunlock :: "nat option \<Rightarrow> 'a kinode_scheme \<Rightarrow> (unit, 'a kinode_scheme) res" where
  "iunlock p s =
     (case p of None \<Rightarrow> Panic ''iunlock'' | Some ip \<Rightarrow>
      bnd (holdingsleep (L_inode ip) s) (\<lambda>h s.
      if \<not> h \<or> i_ref (icache s ! ip) < 1 then Panic ''iunlock''
      else releasesleep (L_inode ip) s))"

subsection \<open>Blocks of an inode\<close>

definition bmap :: "nat \<Rightarrow> u32 \<Rightarrow> 'a kinode_scheme \<Rightarrow> (u32, 'a kinode_scheme) res" where
  "bmap ip bn s =
     (if unat bn < NDIRECT then
        let addr = i_addrs (icache s ! ip) ! unat bn in
        if addr = 0 then
          bnd (balloc (i_dev (icache s ! ip)) s) (\<lambda>addr s.
          Ok addr (upd_inode ip (\<lambda>x. x\<lparr>i_addrs := (i_addrs x)[unat bn := addr]\<rparr>) s))
        else Ok addr s
      else
        let bn = bn - of_nat NDIRECT in
        if unat bn < NINDIRECT then
          let addr = i_addrs (icache s ! ip) ! NDIRECT in
          bnd (if addr = 0 then
                 bnd (balloc (i_dev (icache s ! ip)) s) (\<lambda>addr s.
                 Ok addr (upd_inode ip (\<lambda>x. x\<lparr>i_addrs := (i_addrs x)[NDIRECT := addr]\<rparr>) s))
               else Ok addr s) (\<lambda>addr s.
          bnd (bread (i_dev (icache s ! ip)) addr s) (\<lambda>bp s.
          let addr = get32 (bdata (bufs s ! bp)) (4 * unat bn) in
          bnd (if addr = 0 then
                 bnd (balloc (i_dev (icache s ! ip)) s) (\<lambda>addr s.
                 let s = upd_buf bp (\<lambda>x. x\<lparr>bdata := overlay (4 * unat bn) (bytes32 addr) (bdata x)\<rparr>) s in
                 bnd (log_write bp s) (\<lambda>_ s. Ok addr s))
               else Ok addr s) (\<lambda>addr s.
          bnd (brelse bp s) (\<lambda>_ s. Ok addr s))))
        else Panic ''bmap: out of range'')"

fun itrunc_direct :: "nat list \<Rightarrow> nat \<Rightarrow> 'a kinode_scheme \<Rightarrow> (unit, 'a kinode_scheme) res" where
  "itrunc_direct [] ip s = Ok () s"
| "itrunc_direct (i # is) ip s =
     bnd (if i_addrs (icache s ! ip) ! i \<noteq> 0 then
            bnd (bfree (i_dev (icache s ! ip)) (i_addrs (icache s ! ip) ! i) s) (\<lambda>_ s.
            Ok () (upd_inode ip (\<lambda>x. x\<lparr>i_addrs := (i_addrs x)[i := 0]\<rparr>) s))
          else Ok () s) (\<lambda>_ s.
     itrunc_direct is ip s)"

fun itrunc_indirect :: "nat list \<Rightarrow> nat \<Rightarrow> nat \<Rightarrow> 'a kinode_scheme \<Rightarrow> (unit, 'a kinode_scheme) res" where
  "itrunc_indirect [] ip bp s = Ok () s"
| "itrunc_indirect (j # js) ip bp s =
     (let a = get32 (bdata (bufs s ! bp)) (4 * j) in
      bnd (if a \<noteq> 0 then bfree (i_dev (icache s ! ip)) a s else Ok () s) (\<lambda>_ s.
      itrunc_indirect js ip bp s))"

definition itrunc :: "nat \<Rightarrow> 'a kinode_scheme \<Rightarrow> (unit, 'a kinode_scheme) res" where
  "itrunc ip s =
     bnd (itrunc_direct [0..<NDIRECT] ip s) (\<lambda>_ s.
     bnd (if i_addrs (icache s ! ip) ! NDIRECT \<noteq> 0 then
            bnd (bread (i_dev (icache s ! ip)) (i_addrs (icache s ! ip) ! NDIRECT) s) (\<lambda>bp s.
            bnd (itrunc_indirect [0..<NINDIRECT] ip bp s) (\<lambda>_ s.
            bnd (brelse bp s) (\<lambda>_ s.
            bnd (bfree (i_dev (icache s ! ip)) (i_addrs (icache s ! ip) ! NDIRECT) s) (\<lambda>_ s.
            Ok () (upd_inode ip (\<lambda>x. x\<lparr>i_addrs := (i_addrs x)[NDIRECT := 0]\<rparr>) s)))))
          else Ok () s) (\<lambda>_ s.
     let s = upd_inode ip (\<lambda>x. x\<lparr>i_size := 0\<rparr>) s in
     iupdate ip s))"

definition iput :: "nat \<Rightarrow> 'a kinode_scheme \<Rightarrow> (unit, 'a kinode_scheme) res" where
  "iput ip s =
     bnd (acquiresleep (L_inode ip) s) (\<lambda>_ s.
     bnd (if i_valid (icache s ! ip) \<and> i_nlink (icache s ! ip) = 0 then
            bnd (on_core (acquire L_icache) s) (\<lambda>_ s.
            let r = i_ref (icache s ! ip) in
            bnd (on_core (release L_icache) s) (\<lambda>_ s.
            if r = 1 then
              bnd (itrunc ip s) (\<lambda>_ s.
              let s = upd_inode ip (\<lambda>x. x\<lparr>i_type := 0\<rparr>) s in
              bnd (iupdate ip s) (\<lambda>_ s.
              Ok () (upd_inode ip (\<lambda>x. x\<lparr>i_valid := False\<rparr>) s)))
            else Ok () s))
          else Ok () s) (\<lambda>_ s.
     bnd (releasesleep (L_inode ip) s) (\<lambda>_ s.
     bnd (on_core (acquire L_icache) s) (\<lambda>_ s.
     let s = upd_inode ip (\<lambda>x. x\<lparr>i_ref := i_ref x - 1\<rparr>) s in
     on_core (release L_icache) s))))"

definition iunlockput :: "nat \<Rightarrow> 'a kinode_scheme \<Rightarrow> (unit, 'a kinode_scheme) res" where
  "iunlockput ip s = bnd (iunlock (Some ip) s) (\<lambda>_ s. iput ip s)"

record stat =
  st_type :: u16
  st_dev :: u32
  st_ino :: u32
  st_nlink :: u16
  st_size :: u32

definition stati :: "nat \<Rightarrow> 'a kinode_scheme \<Rightarrow> stat" where
  "stati ip s = (let x = icache s ! ip in
     \<lparr>st_type = i_type x, st_dev = i_dev x, st_ino = i_inum x, st_nlink = i_nlink x, st_size = i_size x\<rparr>)"

end
