(* ===== verification/Console.thy ===== *)
theory Console
  imports Inode Umem
begin

section \<open>Console and keyboard input: console.c, kbd.c and uart.c\<close>

text \<open>
  The record \<open>kcons\<close> adds the input buffer with its three free-running indexes (bytes read by processes,
  bytes of complete lines, bytes typed), the entry of the console in \<open>devsw\<close> and the keyboard's \<open>shift\<close>
  state.  \<open>consoleintr\<close> takes the values that its argument \<open>getc\<close> returns until the first negative one;
  \<open>kbd_chars\<close> and \<open>uartintr\<close> compute them from the bytes that the device delivers.

  \<open>consoleread\<close> stores bytes at \<open>dst\<close> and returns them, \<open>None\<close> for \<open>-1\<close>; \<open>consoleread_resume\<close> is what
  it does after it has slept, with \<open>n\<close> bytes wanted and \<open>k\<close> delivered.
\<close>

abbreviation (input) INPUT_BUF :: nat where "INPUT_BUF \<equiv> 128"

record kcons = kinode +
  inbuf :: "u8 list"
  in_r :: u32
  in_w :: u32
  in_e :: u32
  devcons :: bool
  kbshift :: u32

definition ring_ix :: "u32 \<Rightarrow> nat" where
  "ring_ix k = unat (k mod 128)"

function kill_len :: "u32 \<Rightarrow> u32 \<Rightarrow> u8 list \<Rightarrow> nat" where
  "kill_len e w b = (if e \<noteq> w \<and> b ! ring_ix (e - 1) \<noteq> 10 then Suc (kill_len (e - 1) w b) else 0)"
  by pat_completeness auto

lemma unat_minus_one_less: "(x :: u32) \<noteq> 0 \<Longrightarrow> unat (x - 1) < unat x"
  by (simp add: unat_minus_one unat_gt_0)

termination kill_len
proof (relation "measure (\<lambda>(e, w, b). unat (e - w))")
  fix e w :: u32 and b :: "u8 list"
  assume "e \<noteq> w \<and> b ! ring_ix (e - 1) \<noteq> 10"
  then have "unat (e - w - 1) < unat (e - w)"
    by (intro unat_minus_one_less) simp
  then show "((e - 1, w, b), e, w, b) \<in> measure (\<lambda>(e, w, b). unat (e - w))"
    by (simp add: algebra_simps)
qed simp

declare kill_len.simps [simp del]

subsection \<open>Typing\<close>

definition console_char :: "int \<Rightarrow> 'a kcons_scheme \<Rightarrow> (bool, 'a kcons_scheme) res" where
  "console_char c s =
     (if c = 0x10 then Ok True s
      else if c = 0x15 then
        let k = kill_len (in_e s) (in_w s) (inbuf s);
            s = s\<lparr>in_e := in_e s - of_nat k\<rparr> in
        bnd (putall (replicate k BACKSPACE) s) (\<lambda>_ s. Ok False s)
      else if c = 8 \<or> c = 0x7f then
        (if in_e s \<noteq> in_w s then
           let s = s\<lparr>in_e := in_e s - 1\<rparr> in
           bnd (consputc BACKSPACE s) (\<lambda>_ s. Ok False s)
         else Ok False s)
      else if c \<noteq> 0 \<and> in_e s - in_r s < of_nat INPUT_BUF then
        let c = (if c = 13 then 10 else c);
            s = s\<lparr>inbuf := (inbuf s)[ring_ix (in_e s) := word_of_int c], in_e := in_e s + 1\<rparr> in
        bnd (consputc c s) (\<lambda>_ s.
        if c = 10 \<or> c = 4 \<or> in_e s = in_r s + of_nat INPUT_BUF then
          let s = s\<lparr>in_w := in_e s\<rparr> in
          bnd (wakeup Ch_input s) (\<lambda>_ s. Ok False s)
        else Ok False s)
      else Ok False s)"

fun consoleintr_loop :: "int list \<Rightarrow> bool \<Rightarrow> 'a kcons_scheme \<Rightarrow> (bool, 'a kcons_scheme) res" where
  "consoleintr_loop [] dump s = Ok dump s"
| "consoleintr_loop (c # cs) dump s =
     bnd (console_char c s) (\<lambda>d s. consoleintr_loop cs (d \<or> dump) s)"

definition consoleintr :: "int list \<Rightarrow> (proc \<Rightarrow> u32 list) \<Rightarrow> 'a kcons_scheme \<Rightarrow> (unit, 'a kcons_scheme) res" where
  "consoleintr cs pcs s =
     bnd (on_core (acquire L_cons) s) (\<lambda>_ s.
     bnd (consoleintr_loop cs False s) (\<lambda>doprocdump s.
     bnd (on_core (release L_cons) s) (\<lambda>_ s.
     if doprocdump then procdump pcs s else Ok () s)))"

subsection \<open>Reading and writing the console device\<close>

text \<open>
  The loop of \<open>consoleread\<close> with \<open>n\<close> bytes still wanted and \<open>k\<close> delivered: the bytes it goes on to
  deliver, or \<open>None\<close> when the process was killed.  Each byte is stored with the console locked.
\<close>

fun consoleread_loop :: "nat \<Rightarrow> nat \<Rightarrow> dest \<Rightarrow> 'a kcons_scheme \<Rightarrow> (u8 list option, 'a kcons_scheme) res" where
  "consoleread_loop 0 k dst s = Ok (Some []) s"
| "consoleread_loop (Suc n) k dst s =
     (if in_r s = in_w s then
        bnd (cur s) (\<lambda>p s.
        if killed (procat p s) then Ok None s else sleep Ch_input L_cons s)
      else
        let c = inbuf s ! ring_ix (in_r s);
            s = s\<lparr>in_r := in_r s + 1\<rparr> in
        if c = 4 then Ok (Some []) (if k > 0 then s\<lparr>in_r := in_r s - 1\<rparr> else s)
        else
          bnd (put_dst dst k [c] s) (\<lambda>_ s.
          if c = 10 then Ok (Some [c]) s
          else bnd (consoleread_loop n (k + 1) dst s) (\<lambda>r s. Ok (map_option ((#) c) r) s)))"

definition consoleread_from :: "nat \<Rightarrow> nat \<Rightarrow> nat \<Rightarrow> dest \<Rightarrow> 'a kcons_scheme \<Rightarrow> (u8 list option, 'a kcons_scheme) res" where
  "consoleread_from ip n k dst s =
     bnd (consoleread_loop n k dst s) (\<lambda>r s.
     bnd (on_core (release L_cons) s) (\<lambda>_ s.
     bnd (ilock (Some ip) s) (\<lambda>_ s.
     Ok r s)))"

definition consoleread :: "nat \<Rightarrow> dest \<Rightarrow> int \<Rightarrow> 'a kcons_scheme \<Rightarrow> (u8 list option, 'a kcons_scheme) res" where
  "consoleread ip dst n s =
     bnd (iunlock (Some ip) s) (\<lambda>_ s.
     bnd (on_core (acquire L_cons) s) (\<lambda>_ s.
     consoleread_from ip (nat n) 0 dst s))"

definition consoleread_resume :: "nat \<Rightarrow> nat \<Rightarrow> nat \<Rightarrow> dest \<Rightarrow> 'a kcons_scheme \<Rightarrow> (u8 list option, 'a kcons_scheme) res" where
  "consoleread_resume ip n k dst s = bnd (sleep_resume L_cons s) (\<lambda>_ s. consoleread_from ip n k dst s)"

fun consolewrite_loop :: "nat \<Rightarrow> nat \<Rightarrow> source \<Rightarrow> 'a kcons_scheme \<Rightarrow> (unit, 'a kcons_scheme) res" where
  "consolewrite_loop 0 k src s = Ok () s"
| "consolewrite_loop (Suc n) k src s =
     bnd (get_src src k 1 s) (\<lambda>cs s.
     bnd (consputc (uint (hd cs)) s) (\<lambda>_ s.
     consolewrite_loop n (k + 1) src s))"

definition consolewrite :: "nat \<Rightarrow> source \<Rightarrow> int \<Rightarrow> 'a kcons_scheme \<Rightarrow> (int, 'a kcons_scheme) res" where
  "consolewrite ip src n s =
     bnd (iunlock (Some ip) s) (\<lambda>_ s.
     bnd (on_core (acquire L_cons) s) (\<lambda>_ s.
     bnd (consolewrite_loop (nat n) 0 src s) (\<lambda>_ s.
     bnd (on_core (release L_cons) s) (\<lambda>_ s.
     bnd (ilock (Some ip) s) (\<lambda>_ s.
     Ok n s)))))"

definition consoleinit :: "'a kcons_scheme \<Rightarrow> 'a kcons_scheme" where
  "consoleinit s = s\<lparr>core := initlock L_cons (core s), devcons := True, cons_locking := True\<rparr>"

subsection \<open>Serial port\<close>

definition uartinit :: "u8 \<Rightarrow> 'a con_scheme \<Rightarrow> 'a con_scheme" where
  "uartinit status s =
     (if status = 0xFF then s
      else foldl (\<lambda>s c. uartputc c s) (s\<lparr>uart := True\<rparr>) (map of_char ''xv6...\<newline>''))"

definition uartintr :: "u8 list \<Rightarrow> (proc \<Rightarrow> u32 list) \<Rightarrow> 'a kcons_scheme \<Rightarrow> (unit, 'a kcons_scheme) res" where
  "uartintr bs pcs s = consoleintr (if uart s then map uint bs else []) pcs s"

subsection \<open>Keyboard\<close>

text \<open>A table of 256 key codes: its first entries, and the entries given by index; the others are \<open>NO\<close>.\<close>

definition key_map :: "u8 list \<Rightarrow> (nat \<times> u8) list \<Rightarrow> nat \<Rightarrow> u8" where
  "key_map xs ps d = (if d < length xs then xs ! d else case map_of ps d of Some c \<Rightarrow> c | None \<Rightarrow> 0)"

definition shiftcode :: "nat \<Rightarrow> u8" where
  "shiftcode d = key_map
     []
     [(0x1D, 0x2), (0x2A, 0x1), (0x36, 0x1), (0x38, 0x4), (0x9D, 0x2), (0xB8, 0x4)] d"

definition togglecode :: "nat \<Rightarrow> u8" where
  "togglecode d = key_map
     []
     [(0x3A, 0x8), (0x45, 0x10), (0x46, 0x20)] d"

definition normalmap :: "nat \<Rightarrow> u8" where
  "normalmap d = key_map
     [0, 27, 49, 50, 51, 52, 53, 54, 55, 56, 57, 48, 45, 61, 8, 9,
      113, 119, 101, 114, 116, 121, 117, 105, 111, 112, 91, 93, 10, 0, 97, 115,
      100, 102, 103, 104, 106, 107, 108, 59, 39, 96, 0, 92, 122, 120, 99, 118,
      98, 110, 109, 44, 46, 47, 0, 42, 0, 32, 0, 0, 0, 0, 0, 0,
      0, 0, 0, 0, 0, 0, 0, 55, 56, 57, 45, 52, 53, 54, 43, 49,
      50, 51, 48, 46, 0, 0, 0, 0]
     [(0x9C, 0xA), (0xB5, 0x2F), (0xC8, 0xE2), (0xD0, 0xE3), (0xC9, 0xE6), (0xD1, 0xE7), (0xCB, 0xE4), (0xCD, 0xE5), (0x97, 0xE0), (0xCF, 0xE1), (0xD2, 0xE8), (0xD3, 0xE9)] d"

definition shiftmap :: "nat \<Rightarrow> u8" where
  "shiftmap d = key_map
     [0, 27, 33, 64, 35, 36, 37, 94, 38, 42, 40, 41, 95, 43, 8, 9,
      81, 87, 69, 82, 84, 89, 85, 73, 79, 80, 123, 125, 10, 0, 65, 83,
      68, 70, 71, 72, 74, 75, 76, 58, 34, 126, 0, 124, 90, 88, 67, 86,
      66, 78, 77, 60, 62, 63, 0, 42, 0, 32, 0, 0, 0, 0, 0, 0,
      0, 0, 0, 0, 0, 0, 0, 55, 56, 57, 45, 52, 53, 54, 43, 49,
      50, 51, 48, 46, 0, 0, 0, 0]
     [(0x9C, 0xA), (0xB5, 0x2F), (0xC8, 0xE2), (0xD0, 0xE3), (0xC9, 0xE6), (0xD1, 0xE7), (0xCB, 0xE4), (0xCD, 0xE5), (0x97, 0xE0), (0xCF, 0xE1), (0xD2, 0xE8), (0xD3, 0xE9)] d"

definition ctlmap :: "nat \<Rightarrow> u8" where
  "ctlmap d = key_map
     [0, 0, 0, 0, 0, 0, 0, 0, 0, 0, 0, 0, 0, 0, 0, 0,
      17, 23, 5, 18, 20, 25, 21, 9, 15, 16, 0, 0, 13, 0, 1, 19,
      4, 6, 7, 8, 10, 11, 12, 0, 0, 0, 0, 28, 26, 24, 3, 22,
      2, 14, 13, 0, 0, 239, 0, 0]
     [(0x9C, 0xD), (0xB5, 0xEF), (0xC8, 0xE2), (0xD0, 0xE3), (0xC9, 0xE6), (0xD1, 0xE7), (0xCB, 0xE4), (0xCD, 0xE5), (0x97, 0xE0), (0xCF, 0xE1), (0xD2, 0xE8), (0xD3, 0xE9)] d"

definition charcode :: "u32 \<Rightarrow> nat \<Rightarrow> u8" where
  "charcode sh d = (if sh AND 3 = 0 then normalmap d else if sh AND 3 = 1 then shiftmap d else ctlmap d)"

text \<open>One byte of the controller: the value that \<open>kbdgetc\<close> returns and the new \<open>shift\<close>.\<close>

definition kbdgetc :: "u8 \<Rightarrow> u32 \<Rightarrow> u32 \<times> u32" where
  "kbdgetc byte shift =
     (let dat = ucast byte :: u32 in
      if dat = 0xE0 then (0, shift OR 0x40)
      else if dat AND 0x80 \<noteq> 0 then
        let dat = (if shift AND 0x40 \<noteq> 0 then dat else dat AND 0x7F) in
        (0, shift AND NOT (ucast (shiftcode (unat dat)) OR 0x40))
      else
        let (dat, shift) = (if shift AND 0x40 \<noteq> 0 then (dat OR 0x80, shift AND NOT 0x40) else (dat, shift));
            shift = shift OR ucast (shiftcode (unat dat));
            shift = shift XOR ucast (togglecode (unat dat));
            c = ucast (charcode shift (unat dat)) :: u32;
            c = (if shift AND 8 \<noteq> 0 then
                   (if 97 \<le> c \<and> c \<le> 122 then c - 32 else if 65 \<le> c \<and> c \<le> 90 then c + 32 else c)
                 else c) in
        (c, shift))"

fun kbd_chars :: "u8 list \<Rightarrow> u32 \<Rightarrow> int list \<times> u32" where
  "kbd_chars [] shift = ([], shift)"
| "kbd_chars (b # bs) shift =
     (let (c, shift) = kbdgetc b shift; (cs, shift) = kbd_chars bs shift in (uint c # cs, shift))"

definition kbdintr :: "u8 list \<Rightarrow> (proc \<Rightarrow> u32 list) \<Rightarrow> 'a kcons_scheme \<Rightarrow> (unit, 'a kcons_scheme) res" where
  "kbdintr bs pcs s =
     (let (cs, shift) = kbd_chars bs (kbshift s) in consoleintr cs pcs (s\<lparr>kbshift := shift\<rparr>))"

end
