(* ===== verification/Dir.thy ===== *)
theory Dir
  imports Console
begin

section \<open>File contents, directories and paths: the upper half of fs.c\<close>

text \<open>
  \<open>readi\<close> returns the bytes that the C function copies to \<open>dst\<close> (\<open>None\<close> for \<open>-1\<close>), \<open>writei\<close> takes the bytes at
  \<open>src\<close>.  A directory entry is its inode number and the array of 14 name bytes.  A path is the list of
  the characters before the terminating zero; the buffer \<open>name\<close> keeps what \<open>skipelem\<close> does not
  overwrite.
\<close>

abbreviation (input) NDEV :: int where "NDEV \<equiv> 10"
abbreviation (input) DIRSIZ :: nat where "DIRSIZ \<equiv> 14"
abbreviation (input) CONSOLE :: u16 where "CONSOLE \<equiv> 1"

subsection \<open>Contents\<close>

definition dev_ok :: "u16 \<Rightarrow> 'a kcons_scheme \<Rightarrow> bool" where
  "dev_ok major s \<longleftrightarrow> \<not> (sint major < 0 \<or> sint major \<ge> NDEV \<or> \<not> (major = CONSOLE \<and> devcons s))"

text \<open>\<open>readi\<close> copies to \<open>dst\<close> and also returns the bytes; \<open>k\<close> is \<open>tot\<close>, \<open>n\<close> what remains.\<close>

function readi_loop :: "nat \<Rightarrow> dest \<Rightarrow> nat \<Rightarrow> u32 \<Rightarrow> nat \<Rightarrow> 'a kcons_scheme \<Rightarrow> (u8 list, 'a kcons_scheme) res" where
  "readi_loop ip dst k off n s =
     (if n = 0 then Ok [] s else
      bnd (bmap ip (off div of_nat BSIZE) s) (\<lambda>bno s.
      bnd (bread (i_dev (icache s ! ip)) bno s) (\<lambda>bp s.
      let m = min n (BSIZE - unat off mod BSIZE);
          x = slice (unat off mod BSIZE) m (bdata (bufs s ! bp)) in
      bnd (put_dst dst k x s) (\<lambda>_ s.
      bnd (brelse bp s) (\<lambda>_ s.
      bnd (readi_loop ip dst (k + m) (off + of_nat m) (n - m) s) (\<lambda>xs s.
      Ok (x @ xs) s))))))"
  by pat_completeness auto

termination readi_loop
  by (relation "measure (\<lambda>(_, _, _, _, n, _). n)") auto

declare readi_loop.simps [simp del]

definition readi :: "nat \<Rightarrow> dest \<Rightarrow> u32 \<Rightarrow> u32 \<Rightarrow> 'a kcons_scheme \<Rightarrow> (u8 list option, 'a kcons_scheme) res" where
  "readi ip dst off n s =
     (if i_type (icache s ! ip) = T_DEV then
        (if \<not> dev_ok (i_major (icache s ! ip)) s then Ok None s else consoleread ip dst (sint n) s)
      else if off > i_size (icache s ! ip) \<or> off + n < off then Ok None s
      else
        let n = (if off + n > i_size (icache s ! ip) then i_size (icache s ! ip) - off else n) in
        bnd (readi_loop ip dst 0 off (unat n) s) (\<lambda>xs s. Ok (Some xs) s))"

function writei_loop :: "nat \<Rightarrow> source \<Rightarrow> nat \<Rightarrow> u32 \<Rightarrow> nat \<Rightarrow> 'a kcons_scheme \<Rightarrow> (u32, 'a kcons_scheme) res" where
  "writei_loop ip src k off n s =
     (if n = 0 then Ok off s else
      bnd (bmap ip (off div of_nat BSIZE) s) (\<lambda>bno s.
      bnd (bread (i_dev (icache s ! ip)) bno s) (\<lambda>bp s.
      let m = min n (BSIZE - unat off mod BSIZE) in
      bnd (get_src src k m s) (\<lambda>xs s.
      let s = upd_buf bp (\<lambda>x. x\<lparr>bdata := overlay (unat off mod BSIZE) xs (bdata x)\<rparr>) s in
      bnd (log_write bp s) (\<lambda>_ s.
      bnd (brelse bp s) (\<lambda>_ s.
      writei_loop ip src (k + m) (off + of_nat m) (n - m) s))))))"
  by pat_completeness auto

termination writei_loop
  by (relation "measure (\<lambda>(_, _, _, _, n, _). n)") auto

declare writei_loop.simps [simp del]

definition writei :: "nat \<Rightarrow> source \<Rightarrow> u32 \<Rightarrow> u32 \<Rightarrow> 'a kcons_scheme \<Rightarrow> (int, 'a kcons_scheme) res" where
  "writei ip src off n s =
     (if i_type (icache s ! ip) = T_DEV then
        (if \<not> dev_ok (i_major (icache s ! ip)) s then Ok (- 1) s else consolewrite ip src (sint n) s)
      else if off > i_size (icache s ! ip) \<or> off + n < off then Ok (- 1) s
      else if off + n > of_nat (MAXFILE * BSIZE) then Ok (- 1) s
      else
        bnd (writei_loop ip src 0 off (unat n) s) (\<lambda>off s.
        bnd (if n > 0 \<and> off > i_size (icache s ! ip) then
               let s = upd_inode ip (\<lambda>x. x\<lparr>i_size := off\<rparr>) s in
               iupdate ip s
             else Ok () s) (\<lambda>_ s.
        Ok (sint n) s)))"

subsection \<open>Directories\<close>

definition namecmp :: "(nat \<Rightarrow> u8) \<Rightarrow> (nat \<Rightarrow> u8) \<Rightarrow> int" where
  "namecmp p q = strncmp p q DIRSIZ"

definition de_inum :: "u8 list \<Rightarrow> u16" where
  "de_inum de = get16 de 0"

definition de_name :: "u8 list \<Rightarrow> u8 list" where
  "de_name de = drop 2 de"

definition mk_dirent :: "u16 \<Rightarrow> u8 list \<Rightarrow> u8 list" where
  "mk_dirent inum name = bytes16 inum @ name"

text \<open>The offsets that a loop over the entries of a directory of \<open>n\<close> bytes visits.\<close>

definition de_offsets :: "u32 \<Rightarrow> u32 list" where
  "de_offsets n = map (\<lambda>k. of_nat (16 * k)) [0..<(unat n + 15) div 16]"

fun dirlookup_loop :: "u32 list \<Rightarrow> nat \<Rightarrow> (nat \<Rightarrow> u8) \<Rightarrow> 'a kcons_scheme \<Rightarrow> ((nat \<times> u32) option, 'a kcons_scheme) res" where
  "dirlookup_loop [] dp name s = Ok None s"
| "dirlookup_loop (off # offs) dp name s =
     bnd (readi dp Kdst off 16 s) (\<lambda>r s.
     case r of None \<Rightarrow> Panic ''dirlookup read'' | Some de \<Rightarrow>
     if length de \<noteq> 16 then Panic ''dirlookup read''
     else if de_inum de = 0 then dirlookup_loop offs dp name s
     else if namecmp name (str_of (de_name de)) = 0 then
       bnd (iget (i_dev (icache s ! dp)) (ucast (de_inum de)) s) (\<lambda>ip s. Ok (Some (ip, off)) s)
     else dirlookup_loop offs dp name s)"

text \<open>\<open>dirlookup\<close> returns the inode and the offset of its entry.\<close>

definition dirlookup :: "nat \<Rightarrow> (nat \<Rightarrow> u8) \<Rightarrow> 'a kcons_scheme \<Rightarrow> ((nat \<times> u32) option, 'a kcons_scheme) res" where
  "dirlookup dp name s =
     (if i_type (icache s ! dp) \<noteq> T_DIR then Panic ''dirlookup not DIR''
      else dirlookup_loop (de_offsets (i_size (icache s ! dp))) dp name s)"

text \<open>The loop of \<open>dirlink\<close> ends at the first empty entry, or behind the last one.\<close>

fun dirlink_loop :: "u32 list \<Rightarrow> nat \<Rightarrow> 'a kcons_scheme \<Rightarrow> (u32 option, 'a kcons_scheme) res" where
  "dirlink_loop [] dp s = Ok None s"
| "dirlink_loop (off # offs) dp s =
     bnd (readi dp Kdst off 16 s) (\<lambda>r s.
     case r of None \<Rightarrow> Panic ''dirlink read'' | Some de \<Rightarrow>
     if length de \<noteq> 16 then Panic ''dirlink read''
     else if de_inum de = 0 then Ok (Some off) s
     else dirlink_loop offs dp s)"

definition dirlink :: "nat \<Rightarrow> (nat \<Rightarrow> u8) \<Rightarrow> u32 \<Rightarrow> 'a kcons_scheme \<Rightarrow> (int, 'a kcons_scheme) res" where
  "dirlink dp name inum s =
     bnd (dirlookup dp name s) (\<lambda>r s.
     case r of Some (ip, _) \<Rightarrow> bnd (iput ip s) (\<lambda>_ s. Ok (- 1) s)
     | None \<Rightarrow>
         let offs = de_offsets (i_size (icache s ! dp)) in
         bnd (dirlink_loop offs dp s) (\<lambda>r s.
         let off = (case r of Some off \<Rightarrow> off | None \<Rightarrow> of_nat (16 * length offs));
             de = mk_dirent (ucast inum) (strncpy name DIRSIZ) in
         bnd (writei dp (Ksrc de) off 16 s) (\<lambda>n s.
         if n \<noteq> 16 then Panic ''dirlink'' else Ok 0 s)))"

subsection \<open>Paths\<close>

definition skipelem :: "u8 list \<Rightarrow> u8 list \<Rightarrow> (u8 list \<times> u8 list) option" where
  "skipelem path name =
     (let path = dropWhile (\<lambda>c. c = 47) path in
      if path = [] then None
      else
        let s = takeWhile (\<lambda>c. c \<noteq> 47) path;
            path = dropWhile (\<lambda>c. c \<noteq> 47) path;
            len = length s;
            name = (if len \<ge> DIRSIZ then overlay 0 (take DIRSIZ s) name
                    else (overlay 0 s name)[len := 0]) in
        Some (dropWhile (\<lambda>c. c = 47) path, name))"

lemma skipelem_shorter:
  assumes "skipelem path name = Some (path', name')"
  shows "length path' < length path"
proof -
  define p where "p = dropWhile (\<lambda>c. c = (47 :: u8)) path"
  have ne: "p \<noteq> []" and p': "path' = dropWhile (\<lambda>c. c = 47) (dropWhile (\<lambda>c. c \<noteq> 47) p)"
    using assms by (auto simp: skipelem_def Let_def p_def split: if_splits)
  have le: "length (dropWhile P xs) \<le> length xs" for P and xs :: "u8 list"
    by (rule length_dropWhile_le)
  have "hd p \<noteq> 47"
    using ne hd_dropWhile [of "\<lambda>c. c = (47 :: u8)" path] by (simp add: p_def)
  then have "dropWhile (\<lambda>c. c \<noteq> 47) p = dropWhile (\<lambda>c. c \<noteq> 47) (tl p)"
    using ne by (cases p) simp_all
  then have "length path' \<le> length (tl p)"
    unfolding p' by (metis le le_trans)
  also have "\<dots> < length p"
    using ne by (cases p) simp_all
  also have "\<dots> \<le> length path"
    unfolding p_def by (rule le)
  finally show ?thesis .
qed

function namex_loop ::
    "nat \<Rightarrow> u8 list \<Rightarrow> bool \<Rightarrow> u8 list \<Rightarrow> 'a kcons_scheme \<Rightarrow> (nat option \<times> u8 list, 'a kcons_scheme) res" where
  "namex_loop ip path par name s =
     (case skipelem path name of
        None \<Rightarrow>
          (if par then bnd (iput ip s) (\<lambda>_ s. Ok (None, name) s) else Ok (Some ip, name) s)
      | Some (path, name) \<Rightarrow>
          bnd (ilock (Some ip) s) (\<lambda>_ s.
          if i_type (icache s ! ip) \<noteq> T_DIR then bnd (iunlockput ip s) (\<lambda>_ s. Ok (None, name) s)
          else if par \<and> path = [] then bnd (iunlock (Some ip) s) (\<lambda>_ s. Ok (Some ip, name) s)
          else
            bnd (dirlookup ip (str_of name) s) (\<lambda>r s.
            case r of None \<Rightarrow> bnd (iunlockput ip s) (\<lambda>_ s. Ok (None, name) s)
            | Some (next, _) \<Rightarrow>
                bnd (iunlockput ip s) (\<lambda>_ s. namex_loop next path par name s))))"
  by pat_completeness auto

termination namex_loop
  by (relation "measure (\<lambda>(_, path, _, _, _). length path)") (auto dest: skipelem_shorter)

declare namex_loop.simps [simp del]

definition namex :: "u8 list \<Rightarrow> bool \<Rightarrow> u8 list \<Rightarrow> 'a kcons_scheme \<Rightarrow> (nat option \<times> u8 list, 'a kcons_scheme) res" where
  "namex path par name s =
     bnd (if path \<noteq> [] \<and> hd path = 47 then iget ROOTDEV ROOTINO s
          else bnd (cur s) (\<lambda>p s. idup (the (cwd (procat p s))) s)) (\<lambda>ip s.
     namex_loop ip path par name s)"

definition namei :: "u8 list \<Rightarrow> 'a kcons_scheme \<Rightarrow> (nat option, 'a kcons_scheme) res" where
  "namei path s = bnd (namex path False (replicate DIRSIZ 0) s) (\<lambda>(ip, _) s. Ok ip s)"

definition nameiparent :: "u8 list \<Rightarrow> u8 list \<Rightarrow> 'a kcons_scheme \<Rightarrow> (nat option \<times> u8 list, 'a kcons_scheme) res" where
  "nameiparent path name s = namex path True name s"

end
