(* ===== verification/Filepipe.thy ===== *)
theory Filepipe
  imports Dir
begin

section \<open>Pipes and open files: pipe.c and file.c\<close>

text \<open>
  The record \<open>kfile\<close> adds the table of open files, the pipes, and the kernel's clock, \<open>forkret\<close>'s static variable
  and the interrupt descriptor table.  The C code keeps a pipe in a page of its own; the model holds it by value under the
  address of that page.  A pipe writer that finds the buffer full and a reader that finds it empty
  sleep; \<open>pipewrite_resume\<close> and \<open>piperead_resume\<close> are what they do when they run again.
\<close>

abbreviation (input) NFILE :: nat where "NFILE \<equiv> 100"
abbreviation (input) PIPESIZE :: nat where "PIPESIZE \<equiv> 512"

datatype ftype = FD_NONE | FD_PIPE | FD_INODE

record file_t =
  f_type :: ftype
  f_ref :: int
  f_readable :: bool
  f_writable :: bool
  f_pipe :: u32
  f_ip :: "nat option"
  f_off :: u32

record pipe =
  pdata :: "u8 list"
  nread :: u32
  nwrite :: u32
  readopen :: bool
  writeopen :: bool

record kfile = kcons +
  ftable :: "file_t list"
  pipes :: "u32 \<Rightarrow> pipe"
  ticks :: u32
  first_run :: bool
  idt :: "gatedesc list"

definition upd_file :: "nat \<Rightarrow> (file_t \<Rightarrow> file_t) \<Rightarrow> 'a kfile_scheme \<Rightarrow> 'a kfile_scheme" where
  "upd_file i f s = s\<lparr>ftable := (ftable s)[i := f (ftable s ! i)]\<rparr>"

definition upd_pipe :: "u32 \<Rightarrow> (pipe \<Rightarrow> pipe) \<Rightarrow> 'a kfile_scheme \<Rightarrow> 'a kfile_scheme" where
  "upd_pipe p f s = s\<lparr>pipes := (pipes s)(p := f (pipes s p))\<rparr>"

subsection \<open>Pipes\<close>

definition pipeclose :: "u32 \<Rightarrow> bool \<Rightarrow> 'a kfile_scheme \<Rightarrow> (unit, 'a kfile_scheme) res" where
  "pipeclose p writable s =
     bnd (on_core (acquire (L_pipe p)) s) (\<lambda>_ s.
     bnd (if writable then wakeup (Ch_nread p) (upd_pipe p (\<lambda>x. x\<lparr>writeopen := False\<rparr>) s)
          else wakeup (Ch_nwrite p) (upd_pipe p (\<lambda>x. x\<lparr>readopen := False\<rparr>) s)) (\<lambda>_ s.
     if \<not> readopen (pipes s p) \<and> \<not> writeopen (pipes s p) then
       bnd (on_core (release (L_pipe p)) s) (\<lambda>_ s. kfree p s)
     else on_core (release (L_pipe p)) s))"

definition pipe_put :: "u8 \<Rightarrow> pipe \<Rightarrow> pipe" where
  "pipe_put c x = x\<lparr>pdata := (pdata x)[unat (nwrite x mod of_nat PIPESIZE) := c], nwrite := nwrite x + 1\<rparr>"

definition pipe_get :: "pipe \<Rightarrow> u8" where
  "pipe_get x = pdata x ! unat (nread x mod of_nat PIPESIZE)"

fun pipewrite_loop :: "nat \<Rightarrow> u32 \<Rightarrow> u32 \<Rightarrow> 'a kfile_scheme \<Rightarrow> (bool, 'a kfile_scheme) res" where
  "pipewrite_loop 0 p a s = Ok True s"
| "pipewrite_loop (Suc n) p a s =
     (if nwrite (pipes s p) = nread (pipes s p) + of_nat PIPESIZE then
        bnd (if \<not> readopen (pipes s p) then Ok True s else bnd (cur s) (\<lambda>q s. Ok (killed (procat q s)) s)) (\<lambda>b s.
        if b then Ok False s
        else bnd (wakeup (Ch_nread p) s) (\<lambda>_ s. sleep (Ch_nwrite p) (L_pipe p) s))
      else
        bnd (uload a s) (\<lambda>c s.
        let s = upd_pipe p (pipe_put c) s in
        pipewrite_loop n p (a + 1) s))"

definition pipewrite_from :: "u32 \<Rightarrow> u32 \<Rightarrow> int \<Rightarrow> int \<Rightarrow> 'a kfile_scheme \<Rightarrow> (int, 'a kfile_scheme) res" where
  "pipewrite_from p a i n s =
     bnd (pipewrite_loop (nat (n - i)) p (a + word_of_int i) s) (\<lambda>ok s.
     if \<not> ok then bnd (on_core (release (L_pipe p)) s) (\<lambda>_ s. Ok (- 1) s)
     else
       bnd (wakeup (Ch_nread p) s) (\<lambda>_ s.
       bnd (on_core (release (L_pipe p)) s) (\<lambda>_ s. Ok n s)))"

definition pipewrite :: "u32 \<Rightarrow> u32 \<Rightarrow> int \<Rightarrow> 'a kfile_scheme \<Rightarrow> (int, 'a kfile_scheme) res" where
  "pipewrite p a n s = bnd (on_core (acquire (L_pipe p)) s) (\<lambda>_ s. pipewrite_from p a 0 n s)"

definition pipewrite_resume :: "u32 \<Rightarrow> u32 \<Rightarrow> int \<Rightarrow> int \<Rightarrow> 'a kfile_scheme \<Rightarrow> (int, 'a kfile_scheme) res" where
  "pipewrite_resume p a i n s = bnd (sleep_resume (L_pipe p) s) (\<lambda>_ s. pipewrite_from p a i n s)"

fun piperead_loop :: "nat \<Rightarrow> int \<Rightarrow> u32 \<Rightarrow> u32 \<Rightarrow> 'a kfile_scheme \<Rightarrow> (int, 'a kfile_scheme) res" where
  "piperead_loop 0 i p a s = Ok i s"
| "piperead_loop (Suc n) i p a s =
     (if nread (pipes s p) = nwrite (pipes s p) then Ok i s else
      let c = pipe_get (pipes s p);
          s = upd_pipe p (\<lambda>x. x\<lparr>nread := nread x + 1\<rparr>) s in
      bnd (ustore a c s) (\<lambda>_ s.
      piperead_loop n (i + 1) p (a + 1) s))"

definition piperead_wait :: "u32 \<Rightarrow> u32 \<Rightarrow> int \<Rightarrow> 'a kfile_scheme \<Rightarrow> (int, 'a kfile_scheme) res" where
  "piperead_wait p a n s =
     (if nread (pipes s p) = nwrite (pipes s p) \<and> writeopen (pipes s p) then
        bnd (cur s) (\<lambda>q s.
        if killed (procat q s) then bnd (on_core (release (L_pipe p)) s) (\<lambda>_ s. Ok (- 1) s)
        else sleep (Ch_nread p) (L_pipe p) s)
      else
        bnd (piperead_loop (nat n) 0 p a s) (\<lambda>i s.
        bnd (wakeup (Ch_nwrite p) s) (\<lambda>_ s.
        bnd (on_core (release (L_pipe p)) s) (\<lambda>_ s. Ok i s))))"

definition piperead :: "u32 \<Rightarrow> u32 \<Rightarrow> int \<Rightarrow> 'a kfile_scheme \<Rightarrow> (int, 'a kfile_scheme) res" where
  "piperead p a n s = bnd (on_core (acquire (L_pipe p)) s) (\<lambda>_ s. piperead_wait p a n s)"

definition piperead_resume :: "u32 \<Rightarrow> u32 \<Rightarrow> int \<Rightarrow> 'a kfile_scheme \<Rightarrow> (int, 'a kfile_scheme) res" where
  "piperead_resume p a n s = bnd (sleep_resume (L_pipe p) s) (\<lambda>_ s. piperead_wait p a n s)"

subsection \<open>Open files\<close>

definition fileinit :: "'a kfile_scheme \<Rightarrow> 'a kfile_scheme" where
  "fileinit s = s\<lparr>core := initlock L_ftable (core s)\<rparr>"

definition filealloc :: "'a kfile_scheme \<Rightarrow> (nat option, 'a kfile_scheme) res" where
  "filealloc s =
     bnd (on_core (acquire L_ftable) s) (\<lambda>_ s.
     case find_idx (\<lambda>f. f_ref f = 0) (ftable s) of
       Some f \<Rightarrow>
         let s = upd_file f (\<lambda>x. x\<lparr>f_ref := 1\<rparr>) s in
         bnd (on_core (release L_ftable) s) (\<lambda>_ s. Ok (Some f) s)
     | None \<Rightarrow> bnd (on_core (release L_ftable) s) (\<lambda>_ s. Ok None s))"

definition filedup :: "nat \<Rightarrow> 'a kfile_scheme \<Rightarrow> (nat, 'a kfile_scheme) res" where
  "filedup f s =
     bnd (on_core (acquire L_ftable) s) (\<lambda>_ s.
     if f_ref (ftable s ! f) < 1 then Panic ''filedup'' else
     let s = upd_file f (\<lambda>x. x\<lparr>f_ref := f_ref x + 1\<rparr>) s in
     bnd (on_core (release L_ftable) s) (\<lambda>_ s. Ok f s))"

definition fileclose :: "nat \<Rightarrow> 'a kfile_scheme \<Rightarrow> (unit, 'a kfile_scheme) res" where
  "fileclose f s =
     bnd (on_core (acquire L_ftable) s) (\<lambda>_ s.
     if f_ref (ftable s ! f) < 1 then Panic ''fileclose'' else
     let s = upd_file f (\<lambda>x. x\<lparr>f_ref := f_ref x - 1\<rparr>) s in
     if f_ref (ftable s ! f) > 0 then on_core (release L_ftable) s
     else
       let ff = ftable s ! f;
           s = upd_file f (\<lambda>x. x\<lparr>f_ref := 0, f_type := FD_NONE\<rparr>) s in
       bnd (on_core (release L_ftable) s) (\<lambda>_ s.
       case f_type ff of
         FD_PIPE \<Rightarrow> pipeclose (f_pipe ff) (f_writable ff) s
       | FD_INODE \<Rightarrow>
           bnd (begin_op s) (\<lambda>_ s.
           bnd (iput (the (f_ip ff)) s) (\<lambda>_ s.
           end_op s))
       | FD_NONE \<Rightarrow> Ok () s))"

text \<open>The stores of \<open>stati\<close> to the user's \<open>struct stat\<close>, whose fields are at offsets 0, 4, 8, 12 and 16.\<close>

definition stat_store :: "u32 \<Rightarrow> stat \<Rightarrow> 'a kproc_scheme \<Rightarrow> (unit, 'a kproc_scheme) res" where
  "stat_store a st s =
     bnd (uwrite (a + 4) (bytes32 (st_dev st)) s) (\<lambda>_ s.
     bnd (uwrite (a + 8) (bytes32 (st_ino st)) s) (\<lambda>_ s.
     bnd (uwrite a (bytes16 (st_type st)) s) (\<lambda>_ s.
     bnd (uwrite (a + 12) (bytes16 (st_nlink st)) s) (\<lambda>_ s.
     uwrite (a + 16) (bytes32 (st_size st)) s))))"

definition filestat :: "nat \<Rightarrow> u32 \<Rightarrow> 'a kfile_scheme \<Rightarrow> (int, 'a kfile_scheme) res" where
  "filestat f a s =
     (if f_type (ftable s ! f) = FD_INODE then
        let ip = f_ip (ftable s ! f) in
        bnd (ilock ip s) (\<lambda>_ s.
        bnd (stat_store a (stati (the ip) s) s) (\<lambda>_ s.
        bnd (iunlock ip s) (\<lambda>_ s. Ok 0 s)))
      else Ok (- 1) s)"

definition fileread :: "nat \<Rightarrow> u32 \<Rightarrow> int \<Rightarrow> 'a kfile_scheme \<Rightarrow> (int, 'a kfile_scheme) res" where
  "fileread f a n s =
     (if \<not> f_readable (ftable s ! f) then Ok (- 1) s
      else case f_type (ftable s ! f) of
        FD_PIPE \<Rightarrow> piperead (f_pipe (ftable s ! f)) a n s
      | FD_INODE \<Rightarrow>
          let ip = f_ip (ftable s ! f) in
          bnd (ilock ip s) (\<lambda>_ s.
          bnd (readi (the ip) (Udst a) (f_off (ftable s ! f)) (word_of_int n) s) (\<lambda>r s.
          let r = (case r of None \<Rightarrow> - 1 | Some xs \<Rightarrow> int (length xs));
              s = (if r > 0 then upd_file f (\<lambda>x. x\<lparr>f_off := f_off x + word_of_int r\<rparr>) s else s) in
          bnd (iunlock ip s) (\<lambda>_ s. Ok r s)))
      | FD_NONE \<Rightarrow> Panic ''fileread'')"

function filewrite_loop :: "nat \<Rightarrow> u32 \<Rightarrow> int \<Rightarrow> int \<Rightarrow> 'a kfile_scheme \<Rightarrow> (int, 'a kfile_scheme) res" where
  "filewrite_loop f a i n s =
     (if \<not> i < n then Ok i s else
      let n1 = (if n - i > 1536 then 1536 else n - i);
          ip = f_ip (ftable s ! f) in
      bnd (begin_op s) (\<lambda>_ s.
      bnd (ilock ip s) (\<lambda>_ s.
      bnd (writei (the ip) (Usrc (a + word_of_int i)) (f_off (ftable s ! f)) (word_of_int n1) s) (\<lambda>r s.
      let s = (if r > 0 then upd_file f (\<lambda>x. x\<lparr>f_off := f_off x + word_of_int r\<rparr>) s else s) in
      bnd (iunlock ip s) (\<lambda>_ s.
      bnd (end_op s) (\<lambda>_ s.
      if r < 0 then Ok i s
      else if r \<noteq> n1 then Panic ''short filewrite''
      else filewrite_loop f a (i + n1) n s))))))"
  by pat_completeness auto

termination filewrite_loop
  by (relation "measure (\<lambda>(_, _, i, n, _). nat (n - i))") (auto split: if_splits)

declare filewrite_loop.simps [simp del]

definition filewrite :: "nat \<Rightarrow> u32 \<Rightarrow> int \<Rightarrow> 'a kfile_scheme \<Rightarrow> (int, 'a kfile_scheme) res" where
  "filewrite f a n s =
     (if \<not> f_writable (ftable s ! f) then Ok (- 1) s
      else case f_type (ftable s ! f) of
        FD_PIPE \<Rightarrow> pipewrite (f_pipe (ftable s ! f)) a n s
      | FD_INODE \<Rightarrow> bnd (filewrite_loop f a 0 n s) (\<lambda>i s. Ok (if i = n then n else - 1) s)
      | FD_NONE \<Rightarrow> Panic ''filewrite'')"

subsection \<open>Creating a pipe\<close>

definition pipealloc :: "'a kfile_scheme \<Rightarrow> ((nat \<times> nat) option, 'a kfile_scheme) res" where
  "pipealloc s =
     bnd (filealloc s) (\<lambda>f0 s.
     bnd (case f0 of None \<Rightarrow> Ok None s | Some _ \<Rightarrow> filealloc s) (\<lambda>f1 s.
     bnd (case f1 of None \<Rightarrow> Ok 0 s | Some _ \<Rightarrow> kalloc s) (\<lambda>p s.
     case (f0, f1) of
       (Some g0, Some g1) \<Rightarrow>
         if p \<noteq> 0 then
           let s = upd_pipe p (\<lambda>x. x\<lparr>readopen := True, writeopen := True, nwrite := 0, nread := 0\<rparr>) s;
               s = s\<lparr>core := initlock (L_pipe p) (core s)\<rparr>;
               s = upd_file g0 (\<lambda>x. x\<lparr>f_type := FD_PIPE, f_readable := True, f_writable := False, f_pipe := p\<rparr>) s;
               s = upd_file g1 (\<lambda>x. x\<lparr>f_type := FD_PIPE, f_readable := False, f_writable := True, f_pipe := p\<rparr>) s in
           Ok (Some (g0, g1)) s
         else bnd (fileclose g0 s) (\<lambda>_ s. bnd (fileclose g1 s) (\<lambda>_ s. Ok None s))
     | (Some g0, None) \<Rightarrow> bnd (fileclose g0 s) (\<lambda>_ s. Ok None s)
     | (None, _) \<Rightarrow> Ok None s)))"

end
