(* ===== verification/Sample.thy ===== *)
theory Sample
  imports Logsafe Usermem Filepipe
begin

section \<open>A sample state of the kernel\<close>

text \<open>
  The state that the examples of the theories below start from: one process runs on the first processor,
  with the page at user address \<open>0x3000\<close> mapped to the page \<open>0x80104000\<close>, no lock is held, the caches and
  tables are empty.
\<close>

definition empty_pipe :: pipe where
  "empty_pipe = \<lparr>pdata = replicate 512 0, nread = 0, nwrite = 0, readopen = True, writeopen = True\<rparr>"

definition empty_file :: file_t where
  "empty_file = \<lparr>f_type = FD_NONE, f_ref = 0, f_readable = False, f_writable = False, f_pipe = 0, f_ip = None, f_off = 0\<rparr>"

definition empty_inode :: inode where
  "empty_inode = \<lparr>i_dev = 0, i_inum = 0, i_ref = 0, i_valid = False, i_type = 0, i_major = 0, i_minor = 0,
     i_nlink = 0, i_size = 0, i_addrs = replicate 13 0\<rparr>"

definition sample_core :: core where
  "sample_core = upd_cpu 0 (\<lambda>cp. cp\<lparr>cproc := Some 0\<rparr>) boot_core"

definition sample :: kfile where
  "sample = \<lparr>core = sample_core, mem = mem one_mapped, kend = 0x80100800, use_lock = True,
     freelist = 0x80103000, uart = True, uartout = [], cga_pos = 0, crt = \<lambda>_. 0, cons_locking = True, panicked = False,
     kpgdir = 0x80105000, kdata = 0x80108000, ts_addr = \<lambda>_. 0,
     procs = first_proc\<lparr>pstate := RUNNING, pgdir := 0x80101000, sz := 0x4000, kstack := 0x80106000\<rparr> # replicate 63 zero_proc,
     nextpid = 2, initproc = Some 0, null_proc = zero_proc,
     slocks = \<lambda>_. free_slock, disk = replicate 64 (replicate BSIZE 0), dwrites = [], bufs = replicate 30 zero_buf, mru = [0..<30],
     log_start = 2, log_size = 30, outstanding = 0, committing = False, log_dev = 1, lh_n = 0, lh_block = replicate 30 0,
     sb = \<lparr>sb_size = 64, nblocks = 20, ninodes = 16, nlog = 30, logstart = 2, inodestart = 32, bmapstart = 35\<rparr>,
     icache = replicate 50 empty_inode,
     inbuf = replicate 128 0, in_r = 0, in_w = 0, in_e = 0, devcons = True, kbshift = 0,
     ftable = replicate 100 empty_file, pipes = \<lambda>_. empty_pipe, ticks = 0, first_run = False, idt = []\<rparr>"

lemma sample_core_ok:
  "cpu_ok sample_core" "lock_free lk sample_core" "me sample_core = Some 0" "ncli (mc sample_core) = 0"
  "cproc (mc sample_core) = Some 0"
proof -
  show m: "me sample_core = Some 0"
    by (simp add: boot_core_ok sample_core_def)
  show "lock_free lk sample_core"
    using boot_core_ok(3) [of lk] by (simp add: lock_free_def upd_cpu_def sample_core_def)
  show "cproc (mc sample_core) = Some 0" "ncli (mc sample_core) = 0"
    unfolding mc_def m by (simp_all add: upd_cpu_def boot_core_def boot_cpu_def sample_core_def)
  show "cpu_ok sample_core"
    by (simp add: sample_core_def boot_core_ok)
qed

lemma sample_simps:
  "core sample = sample_core" "me_proc sample = Some 0" "mypd sample = 0x80101000" "mem sample = mem one_mapped"
  "kend sample = 0x80100800" "pipes sample p = empty_pipe" "length (procs sample) = 64" "ncli (mc (core sample)) = 0"
  by (simp_all add: sample_def sample_core_ok me_proc_def mypd_def procat_def)

lemma sample_calm: "calm sample"
  unfolding calm_def sample_simps
  by (simp add: sample_core_ok) (auto simp: sample_def zero_proc_def)

lemma as_wf_cong:
  assumes "as_wf s pd xs" and "mem t = mem s" and "kend t = kend s"
  shows "as_wf t pd xs"
proof -
  have pok: "page_ok t = page_ok s"
    using assms(3) by (simp add: fun_eq_iff page_ok_def)
  show ?thesis
    using assms(1) unfolding as_wf_def vm_wf_def assms(2,3) pok .
qed

lemma sample_as_wf: "as_wf sample 0x80101000 [0x80103000]"
  by (rule as_wf_cong [OF one_mapped_as_wf]) (simp_all add: sample_simps one_mapped_def boot_con_def)

lemma sample_ubuf:
  assumes "n \<le> 4096"
  shows "ubuf sample 0x3000 n"
  unfolding ubuf_def sample_simps
proof (intro allI impI)
  fix k
  assume "k < n"
  then have k: "unat (of_nat k :: u32) = k" "k < 4096"
    using assms by (simp_all add: unat_of_nat)
  have "PGROUNDDOWN (0x3000 + of_nat k) = 0x3000"
    using k by (intro PGROUNDDOWN_add) (simp_all add: aligned_def)
  moreover have "unat (0x3000 + of_nat k :: u32) = 0x3000 + k"
    using unat_page_add [of "0x3000" "of_nat k"] k by (simp add: aligned_def)
  ultimately show "0x3000 + of_nat k < KERNBASE \<and> present (mem one_mapped) 0x80101000 (0x3000 + of_nat k)"
    using k by (simp add: present_def one_mapped_pte word_less_nat_alt)
qed

end
