(* ===== verification/Pipes.thy ===== *)
theory Pipes
  imports Sample
begin

section \<open>Pipes are bounded byte queues\<close>

text \<open>
  The abstraction of a pipe is the list \<open>pipe_contents\<close> of the bytes that were written and not yet read;
  the circular buffer of \<open>pipe.c\<close> with its wrapping counters provides the interface \<open>ring_buffer\<close>.
  The lemmas give \<open>pipewrite\<close> and \<open>piperead\<close> on every path: they append to the queue and take from its
  front, and block when it is full or empty.
\<close>

interpretation pipe_ring: ring_buffer 512
  by unfold_locales simp_all

definition pipe_contents :: "pipe \<Rightarrow> u8 list" where
  "pipe_contents x = ring_contents 512 (pdata x) (nread x) (nwrite x)"

definition pipe_ok :: "pipe \<Rightarrow> bool" where
  "pipe_ok x \<longleftrightarrow> length (pdata x) = PIPESIZE \<and> length (pipe_contents x) \<le> PIPESIZE"

lemma pipe_put_ok:
  assumes "pipe_ok x" and "length (pipe_contents x) < PIPESIZE"
  shows "pipe_contents (pipe_put c x) = pipe_contents x @ [c]" and "pipe_ok (pipe_put c x)"
proof -
  show "pipe_contents (pipe_put c x) = pipe_contents x @ [c]"
    using assms pipe_ring.contents_push [of "nwrite x" "nread x" "pdata x" c]
    by (simp add: pipe_contents_def pipe_ok_def pipe_put_def)
  then show "pipe_ok (pipe_put c x)"
    using assms by (simp add: pipe_ok_def) (simp add: pipe_put_def)
qed

lemma pipe_put_open [simp]: "readopen (pipe_put c x) = readopen x" "writeopen (pipe_put c x) = writeopen x"
  by (simp_all add: pipe_put_def)

lemma pipe_full: "nwrite x = nread x + 512 \<longleftrightarrow> length (pipe_contents x) = PIPESIZE"
  using pipe_ring.full_iff [of "nwrite x" "nread x"] by (simp add: pipe_contents_def)

lemma pipe_empty: "nread x = nwrite x \<longleftrightarrow> pipe_contents x = []"
proof -
  have "pipe_contents x = [] \<longleftrightarrow> unat (nwrite x - nread x) = 0"
    unfolding pipe_contents_def by (metis length_0_conv length_ring_contents)
  then show ?thesis
    by (auto simp: unat_eq_0)
qed

lemma pipe_get_ok:
  assumes "pipe_ok x" and "pipe_contents x \<noteq> []"
  shows "pipe_contents x = pipe_get x # pipe_contents (x\<lparr>nread := nread x + 1\<rparr>)" and "pipe_ok (x\<lparr>nread := nread x + 1\<rparr>)"
proof -
  show *: "pipe_contents x = pipe_get x # pipe_contents (x\<lparr>nread := nread x + 1\<rparr>)"
    using assms ring_contents_pop [of "nread x" "nwrite x" 512 "pdata x"] pipe_empty [of x]
    by (simp add: pipe_contents_def pipe_get_def)
  show "pipe_ok (x\<lparr>nread := nread x + 1\<rparr>)"
    using assms(1) arg_cong [OF *, of length] by (simp add: pipe_ok_def)
qed

subsection \<open>Writing\<close>

definition pipe_puts :: "u8 list \<Rightarrow> pipe \<Rightarrow> pipe" where
  "pipe_puts cs x = fold pipe_put cs x"

lemma pipe_puts_Cons: "pipe_puts (c # cs) x = pipe_puts cs (pipe_put c x)"
  by (simp add: pipe_puts_def)

lemma pipe_puts_ok:
  "pipe_ok x \<Longrightarrow> length (pipe_contents x) + length cs \<le> PIPESIZE \<Longrightarrow>
   pipe_contents (pipe_puts cs x) = pipe_contents x @ cs \<and> pipe_ok (pipe_puts cs x) \<and>
   readopen (pipe_puts cs x) = readopen x \<and> writeopen (pipe_puts cs x) = writeopen x"
  by (induction cs arbitrary: x) (simp_all add: pipe_puts_def pipe_put_ok)

lemma pipes_upd [simp]:
  "me_proc (s\<lparr>pipes := x\<rparr>) = me_proc s" "mypd (s\<lparr>pipes := x\<rparr>) = mypd s"
  "ubuf (s\<lparr>pipes := x\<rparr>) = ubuf s" "ubytes (s\<lparr>pipes := x\<rparr>) = ubytes s" "procat i (s\<lparr>pipes := x\<rparr>) = procat i s"
proof -
  show m: "me_proc (s\<lparr>pipes := x\<rparr>) = me_proc s" "procat i (s\<lparr>pipes := x\<rparr>) = procat i s" for i
    by (simp_all add: me_proc_def procat_def split: option.splits)
  then show "mypd (s\<lparr>pipes := x\<rparr>) = mypd s"
    by (simp add: mypd_def procat_def)
  then show "ubuf (s\<lparr>pipes := x\<rparr>) = ubuf s" "ubytes (s\<lparr>pipes := x\<rparr>) = ubytes s"
    by (simp_all add: fun_eq_iff ubuf_def ubytes_def)
qed

text \<open>As long as there is room the loop copies: \<open>k\<close> rounds of it.\<close>

lemma pipewrite_copies:
  assumes "cpu_ok (core s)" and "pipe_ok (pipes s p)" and "ubuf s a k" and "length (pipe_contents (pipes s p)) + k \<le> PIPESIZE"
  shows "pipewrite_loop (k + m) p a s =
    pipewrite_loop m p (a + of_nat k) (s\<lparr>pipes := (pipes s)(p := pipe_puts (ubytes s a k) (pipes s p))\<rparr>)"
  using assms
proof (induction k arbitrary: a s)
  case 0
  then show ?case
    by (simp add: pipe_puts_def ubytes_def)
next
  case (Suc k)
  let ?c = "mem s (uphys (mem s) (mypd s) a)"
  let ?s = "upd_pipe p (pipe_put ?c) s"
  have u: "a < KERNBASE" "present (mem s) (mypd s) a" "ubuf s (a + 1) k"
    using Suc.prems(3) by (simp_all add: ubuf_Suc)
  have len: "length (pipe_contents (pipes s p)) < PIPESIZE"
    using Suc.prems(4) by simp
  note put = pipe_put_ok [OF Suc.prems(2) len, of ?c]
  have "pipewrite_loop (Suc k + m) p a s = pipewrite_loop (k + m) p (a + 1) ?s"
    using len u Suc.prems(1) pipe_full [of "pipes s p"] by (simp add: uload_ok Let_def)
  also have "\<dots> = pipewrite_loop m p (a + 1 + of_nat k)
      (?s\<lparr>pipes := (pipes ?s)(p := pipe_puts (ubytes ?s (a + 1) k) (pipes ?s p))\<rparr>)"
    using put u Suc.prems by (intro Suc.IH) (simp_all add: upd_pipe_def)
  also have "?s\<lparr>pipes := (pipes ?s)(p := pipe_puts (ubytes ?s (a + 1) k) (pipes ?s p))\<rparr> =
      s\<lparr>pipes := (pipes s)(p := pipe_puts (ubytes s a (Suc k)) (pipes s p))\<rparr>"
    unfolding ubytes_Suc pipe_puts_Cons by (simp add: upd_pipe_def)
  finally show ?case
    by (simp only: of_nat_Suc add.assoc)
qed

definition pipe_idle :: "u32 \<Rightarrow> 'a kfile_scheme \<Rightarrow> bool" where
  "pipe_idle p s \<longleftrightarrow> cpu_ok (core s) \<and> lock_free (L_pipe p) (core s) \<and> lock_free L_ptable (core s)"

abbreviation (input) setpipe :: "u32 \<Rightarrow> pipe \<Rightarrow> 'a kfile_scheme \<Rightarrow> 'a kfile_scheme" where
  "setpipe p x s \<equiv> s\<lparr>pipes := (pipes s)(p := x)\<rparr>"

lemma core_upd [simp]:
  "mypd (s\<lparr>core := enter lk (core s)\<rparr>) = mypd s"
  "ubuf (s\<lparr>core := enter lk (core s)\<rparr>) = ubuf s" "ubytes (s\<lparr>core := enter lk (core s)\<rparr>) = ubytes s"
  if "cpu_ok (core s)"
proof -
  show "mypd (s\<lparr>core := enter lk (core s)\<rparr>) = mypd s"
    using that by (simp add: mypd_def me_proc_def cproc_enter)
  then show "ubuf (s\<lparr>core := enter lk (core s)\<rparr>) = ubuf s" "ubytes (s\<lparr>core := enter lk (core s)\<rparr>) = ubytes s"
    by (simp_all add: fun_eq_iff ubuf_def ubytes_def)
qed

lemma pipewrite_room:
  assumes "pipe_idle p s" and "pipe_ok (pipes s p)" and "ubuf s a n" and "length (pipe_contents (pipes s p)) + n \<le> PIPESIZE"
  shows "pipewrite p a (int n) s =
    Ok (int n) (wakeup1 (Ch_nread p) (setpipe p (pipe_puts (ubytes s a n) (pipes s p)) s))"
proof -
  have c: "cpu_ok (core s)" "lock_free (L_pipe p) (core s)" "lock_free L_ptable (core s)"
    using assms(1) by (simp_all add: pipe_idle_def)
  let ?s = "s\<lparr>core := enter (L_pipe p) (core s)\<rparr>"
  have "pipewrite_loop (n + 0) p a ?s = pipewrite_loop 0 p (a + of_nat n) (setpipe p (pipe_puts (ubytes ?s a n) (pipes ?s p)) ?s)"
    using assms c by (intro pipewrite_copies) (simp_all add: cpu_ok_enter)
  then show ?thesis
    using c by (simp add: pipewrite_def pipewrite_from_def quiet_simps pt_quiet_def cpu_ok_enter wakeup1_def)
qed

lemma ubuf_mono: "ubuf s a n \<Longrightarrow> k \<le> n \<Longrightarrow> ubuf s a k"
  by (simp add: ubuf_def)

text \<open>When the pipe fills up before all bytes are written.\<close>

lemma pipewrite_stuck:
  assumes "pipe_idle p s" and "pipe_ok (pipes s p)" and "ubuf s a n"
    and "k = PIPESIZE - length (pipe_contents (pipes s p))" and "k < n"
  shows "pipewrite_loop n p a (s\<lparr>core := enter (L_pipe p) (core s)\<rparr>) =
    (let t = setpipe p (pipe_puts (ubytes s a k) (pipes s p)) (s\<lparr>core := enter (L_pipe p) (core s)\<rparr>) in
     if \<not> readopen (pipes s p) \<or> killed (procat (me_proc s) s) then Ok False t
     else sleep (Ch_nwrite p) (L_pipe p) (wakeup1 (Ch_nread p) t))"
proof -
  have c: "cpu_ok (core s)" "lock_free (L_pipe p) (core s)" "lock_free L_ptable (core s)"
    using assms(1) by (simp_all add: pipe_idle_def)
  let ?s = "s\<lparr>core := enter (L_pipe p) (core s)\<rparr>"
  let ?x = "pipe_puts (ubytes s a k) (pipes s p)"
  have k: "length (pipe_contents (pipes s p)) + k = PIPESIZE"
    using assms(2,4) by (simp add: pipe_ok_def)
  obtain m where n: "n = k + Suc m"
    using assms(5) less_iff_Suc_add by auto
  have "pipewrite_loop n p a ?s = pipewrite_loop (Suc m) p (a + of_nat k) (setpipe p (pipe_puts (ubytes ?s a k) (pipes ?s p)) ?s)"
    unfolding n using assms c k ubuf_mono [OF assms(3)] by (intro pipewrite_copies) (simp_all add: cpu_ok_enter)
  moreover have "nwrite ?x = nread ?x + 512" "readopen ?x = readopen (pipes s p)"
    using pipe_puts_ok [OF assms(2), of "ubytes s a k"] k by (simp_all add: pipe_full)
  ultimately show ?thesis
    using c by (simp add: quiet_simps pt_quiet_def cpu_ok_enter Let_def me_proc_def cproc_enter)
qed

lemma pipewrite_fails:
  assumes "pipe_idle p s" and "pipe_ok (pipes s p)" and "ubuf s a n"
    and "k = PIPESIZE - length (pipe_contents (pipes s p))" and "k < n"
    and "\<not> readopen (pipes s p) \<or> killed (procat (me_proc s) s)"
  shows "pipewrite p a (int n) s = Ok (- 1) (setpipe p (pipe_puts (ubytes s a k) (pipes s p)) s)"
  using pipewrite_stuck [OF assms(1-5)] assms(1,6)
  by (simp add: pipewrite_def pipewrite_from_def pipe_idle_def quiet_simps Let_def)

lemma pipewrite_blocks:
  assumes "pipe_idle p s" and "pipe_ok (pipes s p)" and "ubuf s a n"
    and "k = PIPESIZE - length (pipe_contents (pipes s p))" and "k < n"
    and "readopen (pipes s p)" and "me_proc s = Some i" "i < length (procs s)" "\<not> killed (procs s ! i)" and "ncli (mc (core s)) = 0"
  shows "pipewrite p a (int n) s =
    Switch (upd_proc i (asleep (Ch_nwrite p) (intena (mc (core s))))
      (wakeup1 (Ch_nread p) (setpipe p (pipe_puts (ubytes s a k) (pipes s p)) (s\<lparr>core := enter L_ptable (core s)\<rparr>))))"
proof -
  have c: "cpu_ok (core s)" "lock_free (L_pipe p) (core s)" "lock_free L_ptable (core s)"
    using assms(1) by (simp_all add: pipe_idle_def)
  let ?t = "wakeup1 (Ch_nread p) (setpipe p (pipe_puts (ubytes s a k) (pipes s p)) (s\<lparr>core := enter (L_pipe p) (core s)\<rparr>))"
  have "sleep (Ch_nwrite p) (L_pipe p) ?t =
      (Switch (upd_proc i (asleep (Ch_nwrite p) (intena (mc (core s)))) (?t\<lparr>core := enter L_ptable (core s)\<rparr>)) :: (bool, _) res)"
    using c assms(7-) by (intro sleep_ok) (simp_all add: me_proc_def cproc_enter wakeup1_def)
  then show ?thesis
    using pipewrite_stuck [OF assms(1-5)] assms(6-) c
    by (simp add: pipewrite_def pipewrite_from_def quiet_simps Let_def procat_def wakeup1_def upd_proc_def)
qed

subsection \<open>Reading\<close>

lemma piperead_copies:
  assumes "cpu_ok (core s)" and "pipe_ok (pipes s p)" and "as_wf s (mypd s) fs" and "ubuf s a n"
    and "k = min n (length (pipe_contents (pipes s p)))"
  shows "\<exists>x. piperead_loop n i p a s =
      Ok (i + int k) ((setpipe p x s)\<lparr>mem := uput (mem s) (mypd s) a (take k (pipe_contents (pipes s p)))\<rparr>) \<and>
    pipe_ok x \<and> pipe_contents x = drop k (pipe_contents (pipes s p)) \<and>
    readopen x = readopen (pipes s p) \<and> writeopen x = writeopen (pipes s p)"
  using assms
proof (induction n arbitrary: a s i k)
  case 0
  then show ?case
    by (intro exI [of _ "pipes s p"]) simp
next
  case (Suc n)
  show ?case
  proof (cases "pipe_contents (pipes s p)")
    case Nil
    then show ?thesis
      using Suc.prems pipe_empty [of "pipes s p"] by (intro exI [of _ "pipes s p"]) simp
  next
    case (Cons c cs)
    let ?k = "min n (length cs)"
    let ?R = "\<lambda>x s b bs. (setpipe p x s)\<lparr>mem := uput (mem s) (mypd s) b bs\<rparr>"
    let ?y = "(pipes s p)\<lparr>nread := nread (pipes s p) + 1\<rparr>"
    let ?s = "(setpipe p ?y s)\<lparr>mem := (mem s)(uphys (mem s) (mypd s) a := c)\<rparr>"
    have u: "a < KERNBASE" "present (mem s) (mypd s) a" "ubuf s (a + 1) n"
      using Suc.prems(4) by (simp_all add: ubuf_Suc)
    have y: "c = pipe_get (pipes s p)" "pipe_contents ?y = cs" "pipe_ok ?y"
      using pipe_get_ok [OF Suc.prems(2)] Cons by simp_all
    note us = user_store [OF Suc.prems(3) u(1,2), of c]
    have k: "k = Suc (min n (length cs))"
      using Suc.prems(5) Cons by simp
    have pd: "mypd ?s = mypd s"
      by (simp add: mypd_def procat_def me_proc_def split: option.splits)
    have "piperead_loop (Suc n) i p a s = piperead_loop n (i + 1) p (a + 1) ?s"
      using Cons u Suc.prems(1) pipe_empty [of "pipes s p"] y(1) by (simp add: ustore_ok Let_def upd_pipe_def)
    moreover have "\<exists>x. piperead_loop n (i + 1) p (a + 1) ?s = Ok (i + 1 + int ?k) (?R x ?s (a + 1) (take ?k (pipe_contents (pipes ?s p)))) \<and>
      pipe_ok x \<and> pipe_contents x = drop ?k (pipe_contents (pipes ?s p)) \<and>
      readopen x = readopen (pipes ?s p) \<and> writeopen x = writeopen (pipes ?s p)"
    proof (rule Suc.IH)
      show "as_wf ?s (mypd ?s) fs"
        unfolding pd by (rule as_wf_cong [OF us(4)]) simp_all
      show "ubuf ?s (a + 1) n"
        using u(3) us(2) unfolding ubuf_def pd by simp
    qed (use Suc.prems y in simp_all)
    moreover have "?R x ?s (a + 1) (take ?k (pipe_contents (pipes ?s p))) = ?R x s a (take k (pipe_contents (pipes s p)))" for x
      unfolding k pd using y Cons by simp
    moreover have "i + 1 + int ?k = i + int k" "drop ?k (pipe_contents (pipes ?s p)) = drop k (pipe_contents (pipes s p))"
      using y Cons by (simp_all add: k)
    moreover have "readopen (pipes ?s p) = readopen (pipes s p)" "writeopen (pipes ?s p) = writeopen (pipes s p)"
      by simp_all
    ultimately show ?thesis
      by (simp only:)
  qed
qed

lemma piperead_data:
  assumes "pipe_idle p s" and "pipe_ok (pipes s p)" and "as_wf s (mypd s) fs" and "ubuf s a n"
    and "pipe_contents (pipes s p) \<noteq> [] \<or> \<not> writeopen (pipes s p)" and "k = min n (length (pipe_contents (pipes s p)))"
  shows "\<exists>x. piperead p a (int n) s = Ok (int k)
      (wakeup1 (Ch_nwrite p) ((setpipe p x s)\<lparr>mem := uput (mem s) (mypd s) a (take k (pipe_contents (pipes s p)))\<rparr>)) \<and>
    pipe_ok x \<and> pipe_contents x = drop k (pipe_contents (pipes s p)) \<and>
    readopen x = readopen (pipes s p) \<and> writeopen x = writeopen (pipes s p)"
proof -
  have c: "cpu_ok (core s)" "lock_free (L_pipe p) (core s)" "lock_free L_ptable (core s)"
    using assms(1) by (simp_all add: pipe_idle_def)
  let ?s = "s\<lparr>core := enter (L_pipe p) (core s)\<rparr>"
  have "as_wf ?s (mypd ?s) fs"
    using c by simp (rule as_wf_cong [OF assms(3)]; simp)
  then obtain x where x: "piperead_loop n 0 p a ?s =
      Ok (0 + int k) ((setpipe p x ?s)\<lparr>mem := uput (mem ?s) (mypd ?s) a (take k (pipe_contents (pipes ?s p)))\<rparr>)"
    and ok: "pipe_ok x" "pipe_contents x = drop k (pipe_contents (pipes s p))"
      "readopen x = readopen (pipes s p)" "writeopen x = writeopen (pipes s p)"
    using piperead_copies [of ?s p fs a n k 0] assms c by (auto simp: cpu_ok_enter)
  have "\<not> (nread (pipes s p) = nwrite (pipes s p) \<and> writeopen (pipes s p))"
    using assms(5) pipe_empty [of "pipes s p"] by blast
  then have "piperead p a (int n) s = Ok (int k)
      (wakeup1 (Ch_nwrite p) ((setpipe p x s)\<lparr>mem := uput (mem s) (mypd s) a (take k (pipe_contents (pipes s p)))\<rparr>))"
    using c x by (auto simp: piperead_def piperead_wait_def quiet_simps pt_quiet_def cpu_ok_enter wakeup1_def)
  then show ?thesis
    using ok by blast
qed

lemma piperead_blocks:
  assumes "pipe_idle p s" and "pipe_contents (pipes s p) = []" "writeopen (pipes s p)"
    and "me_proc s = Some i" "i < length (procs s)" and "ncli (mc (core s)) = 0"
  shows "piperead p a n s = (if killed (procs s ! i) then Ok (- 1) s
    else Switch (upd_proc i (asleep (Ch_nread p) (intena (mc (core s)))) (s\<lparr>core := enter L_ptable (core s)\<rparr>)))"
proof -
  have c: "cpu_ok (core s)" "lock_free (L_pipe p) (core s)" "lock_free L_ptable (core s)"
    using assms(1) by (simp_all add: pipe_idle_def)
  let ?s = "s\<lparr>core := enter (L_pipe p) (core s)\<rparr>"
  have "sleep (Ch_nread p) (L_pipe p) ?s =
      (Switch (upd_proc i (asleep (Ch_nread p) (intena (mc (core s)))) (?s\<lparr>core := enter L_ptable (core s)\<rparr>)) :: (int, _) res)"
    using c assms(4-) by (intro sleep_ok) (simp_all add: me_proc_def cproc_enter)
  moreover have "nread (pipes s p) = nwrite (pipes s p)"
    using assms(2) pipe_empty by blast
  moreover have "me_proc ?s = Some i"
    using assms(4) c by (simp add: me_proc_def cproc_enter)
  ultimately show ?thesis
    using c assms(3) by (simp add: piperead_def piperead_wait_def quiet_simps cpu_ok_enter procat_def)
qed

subsection \<open>The pipe as a bounded queue\<close>

datatype wr = Done | Fails | Blocks

text \<open>
  What a bounded queue promises: a write appends if there is room, else it appends what fits and then fails
  if the writer must stop, or blocks.  A read takes from the front.
\<close>

definition queue_write :: "nat \<Rightarrow> 'a list \<Rightarrow> 'a list \<Rightarrow> bool \<Rightarrow> wr \<times> 'a list" where
  "queue_write cap q xs stop =
     (if length q + length xs \<le> cap then (Done, q @ xs)
      else (if stop then Fails else Blocks, q @ take (cap - length q) xs))"

definition waits :: "chan \<Rightarrow> proc \<Rightarrow> bool" where
  "waits ch q \<longleftrightarrow> pstate q = SLEEPING \<and> pchan q = Some ch"

lemma wakeup1_waits: "\<forall>q \<in> set (procs (wakeup1 ch s)). \<not> waits ch q"
  by (auto simp: wakeup1_def wake1_def waits_def)

lemma take_ubytes: "k \<le> n \<Longrightarrow> take k (ubytes s a n) = ubytes s a k"
  by (simp add: ubytes_def take_map)

text \<open>The result of a write, against the outcome \<open>w\<close> of the queue.\<close>

definition wrote :: "wr \<Rightarrow> int \<Rightarrow> u32 \<Rightarrow> nat \<Rightarrow> 'a kfile_scheme \<Rightarrow> (int, 'a kfile_scheme) res \<Rightarrow> 'a kfile_scheme \<Rightarrow> bool" where
  "wrote w n p i s m t \<longleftrightarrow>
     (case w of
        Done \<Rightarrow> m = Ok n t \<and> core t = core s \<and> (\<forall>q \<in> set (procs t). \<not> waits (Ch_nread p) q)
      | Fails \<Rightarrow> m = Ok (- 1) t \<and> core t = core s \<and> procs t = procs s
      | Blocks \<Rightarrow> m = Switch t \<and> core t = enter L_ptable (core s) \<and> waits (Ch_nwrite p) (procs t ! i) \<and>
          (\<forall>q \<in> set (procs t). \<not> waits (Ch_nread p) q))"

lemma asleep_no_reader:
  assumes "\<forall>q \<in> set (procs s). \<not> waits (Ch_nread p) q"
  shows "\<forall>q \<in> set (procs (upd_proc i (asleep (Ch_nwrite p) ie) s)). \<not> waits (Ch_nread p) q"
proof -
  have "\<not> waits (Ch_nread p) (asleep (Ch_nwrite p) ie q)" for q
    by (simp add: asleep_def waits_def)
  then show ?thesis
    using assms set_update_subset_insert [of "procs s" i] by (auto simp: upd_proc_def)
qed

text \<open>C8: \<open>pipewrite\<close> implements the write of a queue of 512 bytes, on every path and also when the unsigned
  counters wrap: with room for all \<open>n\<close> bytes of the user's buffer it returns \<open>n\<close>, has appended them and woken the
  readers; else it appends what fits, and then returns -1 if the reader has closed or the process was
  killed, or wakes the readers and sleeps until there is room, with the pipe unlocked.\<close>

theorem pipewrite_refines_queue:
  assumes idle: "pipe_idle p s" and ok: "pipe_ok (pipes s p)" and buf: "ubuf s a n"
    and me: "me_proc s = Some i" "i < length (procs s)" and ncli: "ncli (mc (core s)) = 0"
    and q: "queue_write PIPESIZE (pipe_contents (pipes s p)) (ubytes s a n) (\<not> readopen (pipes s p) \<or> killed (procs s ! i)) = (w, q)"
  shows "\<exists>t. wrote w (int n) p i s (pipewrite p a (int n) s) t \<and> pipe_ok (pipes t p) \<and> pipe_contents (pipes t p) = q"
proof -
  define k where "k = PIPESIZE - length (pipe_contents (pipes s p))"
  let ?x = "\<lambda>j. pipe_puts (ubytes s a j) (pipes s p)"
  have x: "pipe_ok (?x j) \<and> pipe_contents (?x j) = pipe_contents (pipes s p) @ ubytes s a j" if "j \<le> k" for j
  proof -
    have "length (pipe_contents (pipes s p)) + length (ubytes s a j) \<le> PIPESIZE"
      using that ok by (auto simp: k_def pipe_ok_def)
    from pipe_puts_ok [OF ok this] show ?thesis
      by blast
  qed
  show ?thesis
  proof (cases w)
    case Done
    then have "n \<le> k" "q = pipe_contents (pipes s p) @ ubytes s a n"
      using q ok by (auto simp: queue_write_def k_def pipe_ok_def split: if_splits)
    then show ?thesis
      using pipewrite_room [OF idle ok buf] x [of n] wakeup1_waits [of "Ch_nread p" "setpipe p (?x n) s"] ok Done
      by (intro exI [of _ "wakeup1 (Ch_nread p) (setpipe p (?x n) s)"]) (auto simp: wrote_def k_def pipe_ok_def wakeup1_def)
  next
    case Fails
    then have n: "k < n" "q = pipe_contents (pipes s p) @ ubytes s a k" "\<not> readopen (pipes s p) \<or> killed (procat (me_proc s) s)"
      using q me ok by (auto simp: queue_write_def k_def procat_def take_ubytes pipe_ok_def split: if_splits)
    then show ?thesis
      using pipewrite_fails [OF idle ok buf k_def n(1,3)] x [of k] Fails
      by (intro exI [of _ "setpipe p (?x k) s"]) (auto simp: wrote_def)
  next
    case Blocks
    then have n: "k < n" "q = pipe_contents (pipes s p) @ ubytes s a k" "readopen (pipes s p)" "\<not> killed (procs s ! i)"
      using q ok by (auto simp: queue_write_def k_def take_ubytes pipe_ok_def split: if_splits)
    let ?u = "wakeup1 (Ch_nread p) (setpipe p (?x k) (s\<lparr>core := enter L_ptable (core s)\<rparr>))"
    let ?t = "upd_proc i (asleep (Ch_nwrite p) (intena (mc (core s)))) ?u"
    have "waits (Ch_nwrite p) (procs ?t ! i)"
      using me by (simp add: upd_proc_def wakeup1_def waits_def asleep_def)
    moreover have "\<forall>q \<in> set (procs ?t). \<not> waits (Ch_nread p) q"
      by (rule asleep_no_reader) (rule wakeup1_waits)
    ultimately show ?thesis
      using pipewrite_blocks [OF idle ok buf k_def n(1,3) me n(4) ncli] x [of k] n(2) Blocks
      by (intro exI [of _ ?t]) (simp add: wrote_def, simp add: upd_proc_def wakeup1_def)
  qed
qed

lemma sample_idle: "pipe_idle p sample" "pipe_ok (pipes sample p)" "pipe_contents (pipes sample p) = []"
proof -
  show c: "pipe_contents (pipes sample p) = []"
    by (simp add: sample_simps empty_pipe_def pipe_contents_def)
  show "pipe_idle p sample" "pipe_ok (pipes sample p)"
    using c by (simp_all add: pipe_idle_def pipe_ok_def sample_simps sample_core_ok) (simp add: empty_pipe_def)
qed

theorem pipewrite_refines_queue_witness:
  "\<exists>t. pipewrite 0x8010A000 0x3000 3 sample = Ok 3 t \<and> pipe_contents (pipes t 0x8010A000) = ubytes sample 0x3000 3"
proof -
  have "queue_write PIPESIZE (pipe_contents (pipes sample 0x8010A000)) (ubytes sample 0x3000 3)
      (\<not> readopen (pipes sample 0x8010A000) \<or> killed (procs sample ! 0)) = (Done, ubytes sample 0x3000 3)"
    by (simp add: queue_write_def sample_idle)
  from pipewrite_refines_queue [OF sample_idle(1,2) sample_ubuf sample_simps(2) _ sample_simps(8) this]
  show ?thesis
    by (auto simp: wrote_def sample_simps)
qed

text \<open>C9: \<open>piperead\<close> takes from the front of the queue: if the pipe has data, or its writer has closed, it moves
  \<open>min n length\<close> bytes in order to the user's buffer, changes no other byte of memory and returns their number
  (0 is end of file); an open pipe without data makes the reader sleep until a write, or return -1 if it was killed.\<close>

theorem piperead_takes_front:
  assumes idle: "pipe_idle p s" and ok: "pipe_ok (pipes s p)" and as: "as_wf s (mypd s) fs" and buf: "ubuf s a n" "n < 2 ^ 32"
    and me: "me_proc s = Some i" "i < length (procs s)" and ncli: "ncli (mc (core s)) = 0"
    and q: "q = pipe_contents (pipes s p)" and k: "k = min n (length q)"
  shows "\<exists>t. if q = [] \<and> writeopen (pipes s p) then
       (if killed (procs s ! i) then piperead p a (int n) s = Ok (- 1) s
        else piperead p a (int n) s = Switch t \<and> waits (Ch_nread p) (procs t ! i) \<and> pipes t = pipes s)
     else piperead p a (int n) s = Ok (int k) t \<and> ubytes t a k = take k q \<and> pipe_contents (pipes t p) = drop k q \<and>
       pipe_ok (pipes t p) \<and> as_wf t (mypd s) fs \<and> {c. mem t c \<noteq> mem s c} \<subseteq> (\<lambda>j. uphys (mem s) (mypd s) (a + of_nat j)) ` {..<k}"
proof (cases "q = [] \<and> writeopen (pipes s p)")
  case True
  let ?t = "upd_proc i (asleep (Ch_nread p) (intena (mc (core s)))) (s\<lparr>core := enter L_ptable (core s)\<rparr>)"
  have "waits (Ch_nread p) (procs ?t ! i)" "pipes ?t = pipes s"
    using me by (simp_all add: upd_proc_def waits_def asleep_def)
  then show ?thesis
    using True piperead_blocks [OF idle _ _ me ncli] q by auto
next
  case False
  let ?m = "uput (mem s) (mypd s) a (take k q)"
  obtain x where x: "piperead p a (int n) s = Ok (int k) (wakeup1 (Ch_nwrite p) ((setpipe p x s)\<lparr>mem := ?m\<rparr>))"
    "pipe_ok x" "pipe_contents x = drop k q"
    using piperead_data [OF idle ok as buf(1) _ k [unfolded q]] False q by blast
  let ?t = "wakeup1 (Ch_nwrite p) ((setpipe p x s)\<lparr>mem := ?m\<rparr>)"
  have um: "umapped (mem s) (mypd s) a (length (take k q))" "length (take k q) < 2 ^ 32"
    using buf k by (simp_all add: ubuf_umapped umapped_def)
  have len: "length (take k q) = k"
    using k by simp
  note put = uput_ok [OF as um, unfolded len]
  have t: "mem ?t = ?m" "pipes ?t p = x" "kend ?t = kend (s\<lparr>mem := ?m\<rparr>)" "mem ?t = mem (s\<lparr>mem := ?m\<rparr>)"
    by (simp_all add: wakeup1_def)
  have pd: "mypd ?t = mypd s"
    using me by (simp add: mypd_def procat_def me_proc_def wakeup1_def wake1_def)
  have "ubytes ?t a k = take k q"
    using ubytes_uput [OF as um t(1) pd] by (simp only: len)
  moreover have "as_wf ?t (mypd s) fs"
    by (rule as_wf_cong [OF _ t(4,3)]) (use put in blast)
  moreover have "{c. mem ?t c \<noteq> mem s c} \<subseteq> (\<lambda>j. uphys (mem s) (mypd s) (a + of_nat j)) ` {..<k}"
    using put by (auto simp: t)
  ultimately show ?thesis
    using x t False by (intro exI [of _ ?t]) simp
qed

lemma sample_read_ready:
  "as_wf sample (mypd sample) [0x80103000]" "ubuf sample 0x3000 3" "(3 :: nat) < 2 ^ 32" "0 < length (procs sample)"
  "\<not> killed (procs sample ! 0)" "writeopen (pipes sample p)"
  using sample_as_wf sample_ubuf [of 3] by (simp_all add: sample_simps(3,7)) (simp_all add: sample_def first_proc_def zero_proc_def empty_pipe_def)

theorem piperead_takes_front_witness:
  "\<exists>t. piperead 0x8010A000 0x3000 3 sample = Switch t \<and> waits (Ch_nread 0x8010A000) (procs t ! 0)"
  using piperead_takes_front [OF sample_idle(1,2) sample_read_ready(1-3) sample_simps(2) sample_read_ready(4) sample_simps(8) refl refl,
      of "0x8010A000"] sample_read_ready(5,6)
  by (auto simp: sample_idle)

text \<open>C10: pipes transport bytes in order: what a process writes to a pipe that holds \<open>q\<close> comes out behind \<open>q\<close> when a
  process, in any later state in which the pipe has not been touched, reads with a large enough buffer.\<close>

theorem pipe_write_then_read:
  assumes idle: "pipe_idle p s" and ok: "pipe_ok (pipes s p)" and buf: "ubuf s a n"
    and q: "q = pipe_contents (pipes s p)" and n: "0 < n" "length q + n \<le> PIPESIZE"
    and written: "pipewrite p a (int n) s = Ok r t"
    and later: "pipe_idle p u" "pipes u p = pipes t p"
    and reader: "as_wf u (mypd u) fs" "ubuf u b m" "length q + n \<le> m" "m < 2 ^ 32"
      "me_proc u = Some i" "i < length (procs u)"
  shows "r = int n \<and> (\<exists>v. piperead p b (int m) u = Ok (int (length q + n)) v \<and>
    ubytes v b (length q + n) = q @ ubytes s a n \<and> pipe_contents (pipes v p) = [])"
proof -
  let ?k = "length q + n"
  let ?d = "q @ ubytes s a n"
  have w: "r = int n" "t = wakeup1 (Ch_nread p) (setpipe p (pipe_puts (ubytes s a n) (pipes s p)) s)"
    using written pipewrite_room [OF idle ok buf n(2) [unfolded q]] by simp_all
  have c: "pipe_contents (pipes u p) = ?d" "pipe_ok (pipes u p)"
    using pipe_puts_ok [OF ok, of "ubytes s a n"] n(2) by (simp_all add: later(2) w wakeup1_def q)
  have ne: "pipe_contents (pipes u p) \<noteq> [] \<or> \<not> writeopen (pipes u p)"
    using c(1) n(1) length_ubytes [of s a n] by (metis append_is_Nil_conv less_irrefl list.size(3))
  have k: "?k = min m (length (pipe_contents (pipes u p)))"
    using c(1) reader(3) by simp
  obtain x where x: "piperead p b (int m) u = Ok (int ?k)
      (wakeup1 (Ch_nwrite p) ((setpipe p x u)\<lparr>mem := uput (mem u) (mypd u) b (take ?k ?d)\<rparr>))"
    and px: "pipe_contents x = drop ?k ?d"
    using piperead_data [OF later(1) c(2) reader(1,2) ne k] unfolding c(1) by blast
  let ?v = "wakeup1 (Ch_nwrite p) ((setpipe p x u)\<lparr>mem := uput (mem u) (mypd u) b (take ?k ?d)\<rparr>)"
  have "umapped (mem u) (mypd u) b (length ?d)" "length ?d < 2 ^ 32"
    using reader by (simp_all add: ubuf_umapped umapped_def)
  note put = ubytes_uput [OF reader(1) this, of ?v]
  have pd: "mypd ?v = mypd u" "mem ?v = uput (mem u) (mypd u) b ?d" "pipes ?v p = x"
    using reader(5,6) by (simp_all add: mypd_def procat_def me_proc_def wakeup1_def wake1_def)
  have "ubytes ?v b ?k = ?d"
    using put pd by simp
  then show ?thesis
    using x w(1) px pd(3) by (intro conjI exI [of _ ?v]) simp_all
qed

theorem pipe_write_then_read_witness:
  "\<exists>t v. pipewrite 0x8010A000 0x3000 3 sample = Ok 3 t \<and> piperead 0x8010A000 0x3000 4 t = Ok 3 v \<and> ubytes v 0x3000 3 = ubytes sample 0x3000 3"
proof -
  let ?p = "0x8010A000 :: u32"
  let ?t = "wakeup1 (Ch_nread ?p) (setpipe ?p (pipe_puts (ubytes sample 0x3000 3) (pipes sample ?p)) sample)"
  have w: "pipewrite ?p 0x3000 (int 3) sample = Ok (int 3) ?t"
    by (rule pipewrite_room [OF sample_idle(1,2) sample_ubuf]) (simp_all add: sample_idle)
  have t: "core ?t = core sample" "mem ?t = mem sample" "kend ?t = kend sample" "me_proc ?t = Some 0" "mypd ?t = mypd sample" "0 < length (procs ?t)"
    using sample_simps(2) by (simp_all add: wakeup1_def me_proc_def mypd_def procat_def wake1_def sample_simps(7))
  have r: "pipe_idle ?p ?t" "as_wf ?t (mypd ?t) [0x80103000]" "ubuf ?t 0x3000 4"
    using sample_idle(1) [of ?p] sample_ubuf [of 4] as_wf_cong [OF sample_read_ready(1) t(2,3)]
    unfolding pipe_idle_def ubuf_def t by simp_all
  show ?thesis
    using pipe_write_then_read [OF sample_idle(1,2) sample_read_ready(2) refl _ _ w r(1) refl r(2,3) _ _ t(4,6)] w
    by (auto simp: sample_idle)
qed

end
