(* ===== verification/Life.thy ===== *)
theory Life
  imports Filepipe
begin

section \<open>The life of a process: the rest of proc.c, and exec.c\<close>

text \<open>
  The first process, \<open>fork\<close>, \<open>exit\<close>, the first return of a new process (\<open>forkret\<close>), and \<open>exec\<close> with the loader
  of \<open>vm.c\<close>.  The linker's symbols for the first program are arguments of \<open>userinit\<close>.  \<open>exec\<close> takes the
  path and the argument strings by value: they lie in the old address space, which stays as it is
  until the new one is complete.
\<close>

abbreviation (input) MAXARG :: nat where "MAXARG \<equiv> 32"

definition strcpy_name :: "(nat \<Rightarrow> u8) \<Rightarrow> proc \<Rightarrow> proc" where
  "strcpy_name t q = q\<lparr>pname := overlay 0 (safestrcpy t 16) (pname q)\<rparr>"

definition user_tf :: trapframe where
  "user_tf = \<lparr>t_edi = 0, t_esi = 0, t_ebp = 0, t_oesp = 0, t_ebx = 0, t_edx = 0, t_ecx = 0, t_eax = 0,
     t_gs = 0, t_fs = 0, t_es = 35, t_ds = 35, trapno = 0, t_err = 0, t_eip = 0, t_cs = 27,
     t_eflags = 0x200, t_esp = PGSIZE, t_ss = 35\<rparr>"

definition userinit :: "u32 \<Rightarrow> u32 \<Rightarrow> 'a kfile_scheme \<Rightarrow> (unit, 'a kfile_scheme) res" where
  "userinit initcode_start initcode_size s =
     bnd (allocproc s) (\<lambda>r s.
     let p = the r; s = s\<lparr>initproc := r\<rparr> in
     bnd (setupkvm s) (\<lambda>pd s.
     let s = upd_proc p (\<lambda>q. q\<lparr>pgdir := pd\<rparr>) s in
     if pd = 0 then Panic ''userinit: out of memory?'' else
     bnd (inituvm pd initcode_start initcode_size s) (\<lambda>_ s.
     let s = upd_proc p (\<lambda>q. q\<lparr>sz := PGSIZE, tf := user_tf\<rparr>) s;
         s = upd_proc p (strcpy_name (str_of (map of_char ''initcode''))) s in
     bnd (namei [47] s) (\<lambda>ip s.
     let s = upd_proc p (\<lambda>q. q\<lparr>cwd := ip\<rparr>) s in
     bnd (on_core (acquire L_ptable) s) (\<lambda>_ s.
     let s = upd_proc p (\<lambda>q. q\<lparr>pstate := RUNNABLE\<rparr>) s in
     on_core (release L_ptable) s)))))"

subsection \<open>fork\<close>

fun fork_files :: "nat list \<Rightarrow> nat option \<Rightarrow> nat \<Rightarrow> 'a kfile_scheme \<Rightarrow> (unit, 'a kfile_scheme) res" where
  "fork_files [] cp np s = Ok () s"
| "fork_files (i # is) cp np s =
     (case ofile (procat cp s) ! i of
        None \<Rightarrow> fork_files is cp np s
      | Some f \<Rightarrow>
          bnd (filedup f s) (\<lambda>f s.
          fork_files is cp np (upd_proc np (\<lambda>q. q\<lparr>ofile := (ofile q)[i := Some f]\<rparr>) s)))"

definition fork :: "'a kfile_scheme \<Rightarrow> (int, 'a kfile_scheme) res" where
  "fork s =
     bnd (cur s) (\<lambda>cp s.
     bnd (allocproc s) (\<lambda>r s.
     case r of None \<Rightarrow> Ok (- 1) s | Some np \<Rightarrow>
     bnd (copyuvm (pgdir (procat cp s)) (sz (procat cp s)) s) (\<lambda>pd s.
     let s = upd_proc np (\<lambda>q. q\<lparr>pgdir := pd\<rparr>) s in
     if pd = 0 then
       bnd (kfree (kstack (procs s ! np)) s) (\<lambda>_ s.
       Ok (- 1) (upd_proc np (\<lambda>q. q\<lparr>kstack := 0, pstate := UNUSED\<rparr>) s))
     else
       let c = procat cp s;
           s = upd_proc np (\<lambda>q. q\<lparr>sz := sz c, parent := cp, tf := (tf c)\<lparr>t_eax := 0\<rparr>\<rparr>) s in
       bnd (fork_files [0..<NOFILE] cp np s) (\<lambda>_ s.
       bnd (idup (the (cwd (procat cp s))) s) (\<lambda>ip s.
       let s = upd_proc np (\<lambda>q. q\<lparr>cwd := Some ip\<rparr>) s;
           s = upd_proc np (strcpy_name (str_of (pname (procat cp s)))) s;
           n = pid (procs s ! np) in
       bnd (on_core (acquire L_ptable) s) (\<lambda>_ s.
       let s = upd_proc np (\<lambda>q. q\<lparr>pstate := RUNNABLE\<rparr>) s in
       bnd (on_core (release L_ptable) s) (\<lambda>_ s. Ok n s)))))))"

subsection \<open>exit and the first return to user space\<close>

fun exit_files :: "nat list \<Rightarrow> nat option \<Rightarrow> 'a kfile_scheme \<Rightarrow> (unit, 'a kfile_scheme) res" where
  "exit_files [] cp s = Ok () s"
| "exit_files (fd # fds) cp s =
     (case ofile (procat cp s) ! fd of
        None \<Rightarrow> exit_files fds cp s
      | Some f \<Rightarrow>
          bnd (fileclose f s) (\<lambda>_ s.
          exit_files fds cp (upd_proc (the cp) (\<lambda>q. q\<lparr>ofile := (ofile q)[fd := None]\<rparr>) s)))"

definition exit :: "'a kfile_scheme \<Rightarrow> ('r, 'a kfile_scheme) res" where
  "exit s =
     bnd (cur s) (\<lambda>cp s.
     if cp = initproc s then Panic ''init exiting'' else
     bnd (exit_files [0..<NOFILE] cp s) (\<lambda>_ s.
     bnd (begin_op s) (\<lambda>_ s.
     bnd (iput (the (cwd (procat cp s))) s) (\<lambda>_ s.
     bnd (end_op s) (\<lambda>_ s.
     let s = upd_proc (the cp) (\<lambda>q. q\<lparr>cwd := None\<rparr>) s in
     exit_tail cp s)))))"

definition forkret :: "'a kfile_scheme \<Rightarrow> (unit, 'a kfile_scheme) res" where
  "forkret s =
     bnd (on_core (release L_ptable) s) (\<lambda>_ s.
     if first_run s then
       let s = s\<lparr>first_run := False\<rparr> in
       bnd (iinit ROOTDEV s) (\<lambda>_ s. initlog ROOTDEV s)
     else Ok () s)"

subsection \<open>exec\<close>

record elfhdr =
  e_magic :: u32
  e_entry :: u32
  e_phoff :: u32
  e_phnum :: u16

record proghdr =
  ph_type :: u32
  ph_off :: u32
  ph_vaddr :: u32
  ph_filesz :: u32
  ph_memsz :: u32

definition elf_of :: "u8 list \<Rightarrow> elfhdr" where
  "elf_of d = \<lparr>e_magic = get32 d 0, e_entry = get32 d 24, e_phoff = get32 d 28, e_phnum = get16 d 44\<rparr>"

definition ph_of :: "u8 list \<Rightarrow> proghdr" where
  "ph_of d = \<lparr>ph_type = get32 d 0, ph_off = get32 d 4, ph_vaddr = get32 d 8,
     ph_filesz = get32 d 16, ph_memsz = get32 d 20\<rparr>"

fun loaduvm_loop :: "nat \<Rightarrow> u32 \<Rightarrow> u32 \<Rightarrow> nat \<Rightarrow> u32 \<Rightarrow> u32 \<Rightarrow> u32 \<Rightarrow> 'a kfile_scheme \<Rightarrow> (int, 'a kfile_scheme) res" where
  "loaduvm_loop 0 pd a ip off n i s = Spin"
| "loaduvm_loop (Suc k) pd a ip off n i s =
     (if \<not> i < n then Ok 0 s else
      bnd (walkpgdir pd (a + i) False s) (\<lambda>pte s.
      if pte = 0 then Panic ''loaduvm: address should exist'' else
      let pa = PTE_ADDR (load32 (mem s) pte);
          m = (if n - i < PGSIZE then n - i else PGSIZE) in
      bnd (readi ip Kdst (off + i) m s) (\<lambda>r s.
      case r of None \<Rightarrow> Ok (- 1) s
      | Some xs \<Rightarrow>
          let s = s\<lparr>mem := put_bytes (P2V pa) xs (mem s)\<rparr> in
          if int (length xs) \<noteq> uint m then Ok (- 1) s
          else loaduvm_loop k pd a ip off n (i + PGSIZE) s)))"

definition loaduvm :: "u32 \<Rightarrow> u32 \<Rightarrow> nat \<Rightarrow> u32 \<Rightarrow> u32 \<Rightarrow> 'a kfile_scheme \<Rightarrow> (int, 'a kfile_scheme) res" where
  "loaduvm pd a ip off n s =
     (if a mod PGSIZE \<noteq> 0 then Panic ''loaduvm: addr must be page aligned''
      else loaduvm_loop (2 ^ 20 + 1) pd a ip off n 0 s)"

text \<open>The loop over the program headers: the new size, or \<open>None\<close> for a jump to \<open>bad\<close>.\<close>

fun exec_load :: "nat \<Rightarrow> u32 \<Rightarrow> u32 \<Rightarrow> u32 \<Rightarrow> nat \<Rightarrow> 'a kfile_scheme \<Rightarrow> (u32 option, 'a kfile_scheme) res" where
  "exec_load 0 off pd n ip s = Ok (Some n) s"
| "exec_load (Suc k) off pd n ip s =
     bnd (readi ip Kdst off 32 s) (\<lambda>r s.
     case r of None \<Rightarrow> Ok None s | Some d \<Rightarrow>
     if length d \<noteq> 32 then Ok None s else
     let ph = ph_of d in
     if ph_type ph \<noteq> 1 then exec_load k (off + 32) pd n ip s
     else if ph_memsz ph < ph_filesz ph then Ok None s
     else if ph_vaddr ph + ph_memsz ph < ph_vaddr ph then Ok None s
     else
       bnd (allocuvm pd n (ph_vaddr ph + ph_memsz ph) s) (\<lambda>n s.
       if n = 0 then Ok None s
       else if ph_vaddr ph mod PGSIZE \<noteq> 0 then Ok None s
       else
         bnd (loaduvm pd (ph_vaddr ph) ip (ph_off ph) (ph_filesz ph) s) (\<lambda>r s.
         if r < 0 then Ok None s else exec_load k (off + 32) pd n ip s)))"

text \<open>The loop over the arguments: the stack pointer and the addresses of the strings.\<close>

fun exec_args :: "u8 list list \<Rightarrow> nat \<Rightarrow> u32 \<Rightarrow> u32 \<Rightarrow> 'a mach_scheme \<Rightarrow> ((u32 \<times> u32 list) option, 'a mach_scheme) res" where
  "exec_args [] argc pd sp s = Ok (Some (sp, [])) s"
| "exec_args (a # as) argc pd sp s =
     (if argc \<ge> MAXARG then Ok None s else
      let sp = (sp - (of_nat (length a) + 1)) AND NOT 3 in
      bnd (copyout pd sp (a @ [0]) s) (\<lambda>r s.
      if r < 0 then Ok None s else
      bnd (exec_args as (argc + 1) pd sp s) (\<lambda>r s.
      Ok (map_option (\<lambda>(sp1, us). (sp1, sp # us)) r) s)))"

definition exec_stack :: "u8 list list \<Rightarrow> u32 \<Rightarrow> u32 \<Rightarrow> 'a mach_scheme \<Rightarrow> (u32 option, 'a mach_scheme) res" where
  "exec_stack argv pd sp s =
     bnd (exec_args argv 0 pd sp s) (\<lambda>r s.
     case r of None \<Rightarrow> Ok None s | Some (sp, us) \<Rightarrow>
     let argc = of_nat (length us) :: u32;
         ustack = [0xffffffff, argc, sp - (argc + 1) * 4] @ us @ [0];
         sp = sp - (3 + argc + 1) * 4 in
     bnd (copyout pd sp (concat (map bytes32 ustack)) s) (\<lambda>r s.
     Ok (if r < 0 then None else Some sp) s))"

fun last_elem :: "u8 list \<Rightarrow> u8 list \<Rightarrow> u8 list" where
  "last_elem [] l = l"
| "last_elem (c # s) l = last_elem s (if c = 47 then s else l)"

text \<open>The code from the label \<open>bad\<close> on.\<close>

definition exec_bad :: "u32 \<Rightarrow> nat option \<Rightarrow> 'a kfile_scheme \<Rightarrow> (int, 'a kfile_scheme) res" where
  "exec_bad pd ip s =
     bnd (if pd \<noteq> 0 then freevm pd s else Ok () s) (\<lambda>_ s.
     case ip of None \<Rightarrow> Ok (- 1) s
     | Some i \<Rightarrow> bnd (iunlockput i s) (\<lambda>_ s. bnd (end_op s) (\<lambda>_ s. Ok (- 1) s)))"

text \<open>From the point where the program is loaded.\<close>

definition exec_commit :: "u8 list \<Rightarrow> u8 list list \<Rightarrow> u32 \<Rightarrow> u32 \<Rightarrow> u32 \<Rightarrow> 'a kfile_scheme \<Rightarrow> (int, 'a kfile_scheme) res" where
  "exec_commit path argv pd entry n s =
     bnd (cur s) (\<lambda>cp s.
     bnd (allocuvm pd (PGROUNDUP n) (PGROUNDUP n + 2 * PGSIZE) s) (\<lambda>n s.
     if n = 0 then exec_bad pd None s else
     bnd (clearpteu pd (n - 2 * PGSIZE) s) (\<lambda>_ s.
     bnd (exec_stack argv pd n s) (\<lambda>r s.
     case r of None \<Rightarrow> exec_bad pd None s
     | Some sp \<Rightarrow>
         let s = upd_proc (the cp) (strcpy_name (str_of (last_elem path path))) s;
             oldpgdir = pgdir (procat cp s);
             s = upd_proc (the cp) (\<lambda>q. q\<lparr>pgdir := pd, sz := n, tf := (tf q)\<lparr>t_eip := entry, t_esp := sp\<rparr>\<rparr>) s in
         bnd (switchuvm cp s) (\<lambda>_ s.
         bnd (freevm oldpgdir s) (\<lambda>_ s. Ok 0 s))))))"

definition exec :: "u8 list \<Rightarrow> u8 list list \<Rightarrow> 'a kfile_scheme \<Rightarrow> (int, 'a kfile_scheme) res" where
  "exec path argv s =
     bnd (begin_op s) (\<lambda>_ s.
     bnd (namei path s) (\<lambda>r s.
     case r of None \<Rightarrow>
         bnd (end_op s) (\<lambda>_ s. bnd (cprintf ''exec: fail\<newline>'' [] s) (\<lambda>_ s. Ok (- 1) s))
     | Some ip \<Rightarrow>
         bnd (ilock (Some ip) s) (\<lambda>_ s.
         bnd (readi ip Kdst 0 52 s) (\<lambda>r s.
         case r of None \<Rightarrow> exec_bad 0 (Some ip) s
         | Some d \<Rightarrow>
             if length d \<noteq> 52 \<or> e_magic (elf_of d) \<noteq> 0x464C457F then exec_bad 0 (Some ip) s
             else
               bnd (setupkvm s) (\<lambda>pd s.
               if pd = 0 then exec_bad 0 (Some ip) s else
               bnd (exec_load (unat (e_phnum (elf_of d))) (e_phoff (elf_of d)) pd 0 ip s) (\<lambda>r s.
               case r of None \<Rightarrow> exec_bad pd (Some ip) s
               | Some n \<Rightarrow>
                   bnd (iunlockput ip s) (\<lambda>_ s.
                   bnd (end_op s) (\<lambda>_ s.
                   exec_commit path argv pd (e_entry (elf_of d)) n s))))))))"

end
