(* ===== verification/Sysfile.thy ===== *)
theory Sysfile
  imports Life
begin

section \<open>System calls on files: sysfile.c\<close>

text \<open>
  Every handler fetches its arguments from the user's stack, calls the layers below and returns the value
  for the user.  The local array \<open>name\<close> that \<open>nameiparent\<close> fills starts out as zeros.
\<close>

definition argfd :: "nat \<Rightarrow> 'a kfile_scheme \<Rightarrow> ((int \<times> nat) option, 'a kfile_scheme) res" where
  "argfd n s =
     bnd (argint n s) (\<lambda>r s.
     case r of None \<Rightarrow> Ok None s | Some w \<Rightarrow>
     let fd = sint w in
     if fd < 0 \<or> fd \<ge> int NOFILE then Ok None s else
     bnd (cur s) (\<lambda>p s.
     case ofile (procat p s) ! nat fd of None \<Rightarrow> Ok None s | Some f \<Rightarrow> Ok (Some (fd, f)) s))"

definition fdalloc :: "nat \<Rightarrow> 'a kfile_scheme \<Rightarrow> (int, 'a kfile_scheme) res" where
  "fdalloc f s =
     bnd (cur s) (\<lambda>p s.
     case find_idx (\<lambda>x. x = None) (take NOFILE (ofile (procat p s))) of
       None \<Rightarrow> Ok (- 1) s
     | Some fd \<Rightarrow> Ok (int fd) (upd_proc (the p) (\<lambda>q. q\<lparr>ofile := (ofile q)[fd := Some f]\<rparr>) s))"

definition sys_dup :: "'a kfile_scheme \<Rightarrow> (int, 'a kfile_scheme) res" where
  "sys_dup s =
     bnd (argfd 0 s) (\<lambda>r s.
     case r of None \<Rightarrow> Ok (- 1) s | Some (_, f) \<Rightarrow>
     bnd (fdalloc f s) (\<lambda>fd s.
     if fd < 0 then Ok (- 1) s else
     bnd (filedup f s) (\<lambda>_ s. Ok fd s)))"

text \<open>The arguments that \<open>sys_read\<close> and \<open>sys_write\<close> share: file, address and count.\<close>

definition rw_args :: "'a kfile_scheme \<Rightarrow> ((nat \<times> u32 \<times> int) option, 'a kfile_scheme) res" where
  "rw_args s =
     bnd (argfd 0 s) (\<lambda>r s.
     case r of None \<Rightarrow> Ok None s | Some (_, f) \<Rightarrow>
     bnd (argint 2 s) (\<lambda>r s.
     case r of None \<Rightarrow> Ok None s | Some n \<Rightarrow>
     bnd (argptr 1 (sint n) s) (\<lambda>r s.
     case r of None \<Rightarrow> Ok None s | Some p \<Rightarrow> Ok (Some (f, p, sint n)) s)))"

definition sys_read :: "'a kfile_scheme \<Rightarrow> (int, 'a kfile_scheme) res" where
  "sys_read s =
     bnd (rw_args s) (\<lambda>r s.
     case r of None \<Rightarrow> Ok (- 1) s | Some (f, p, n) \<Rightarrow> fileread f p n s)"

definition sys_write :: "'a kfile_scheme \<Rightarrow> (int, 'a kfile_scheme) res" where
  "sys_write s =
     bnd (rw_args s) (\<lambda>r s.
     case r of None \<Rightarrow> Ok (- 1) s | Some (f, p, n) \<Rightarrow> filewrite f p n s)"

definition sys_close :: "'a kfile_scheme \<Rightarrow> (int, 'a kfile_scheme) res" where
  "sys_close s =
     bnd (argfd 0 s) (\<lambda>r s.
     case r of None \<Rightarrow> Ok (- 1) s | Some (fd, f) \<Rightarrow>
     bnd (cur s) (\<lambda>p s.
     let s = upd_proc (the p) (\<lambda>q. q\<lparr>ofile := (ofile q)[nat fd := None]\<rparr>) s in
     bnd (fileclose f s) (\<lambda>_ s. Ok 0 s)))"

definition sys_fstat :: "'a kfile_scheme \<Rightarrow> (int, 'a kfile_scheme) res" where
  "sys_fstat s =
     bnd (argfd 0 s) (\<lambda>r s.
     case r of None \<Rightarrow> Ok (- 1) s | Some (_, f) \<Rightarrow>
     bnd (argptr 1 20 s) (\<lambda>r s.
     case r of None \<Rightarrow> Ok (- 1) s | Some st \<Rightarrow> filestat f st s))"

subsection \<open>Links\<close>

definition upd_nlink :: "int \<Rightarrow> nat \<Rightarrow> 'a kfile_scheme \<Rightarrow> 'a kfile_scheme" where
  "upd_nlink d ip s = upd_inode ip (\<lambda>x. x\<lparr>i_nlink := i_nlink x + word_of_int d\<rparr>) s"

definition link_bad :: "nat \<Rightarrow> 'a kfile_scheme \<Rightarrow> (int, 'a kfile_scheme) res" where
  "link_bad ip s =
     bnd (ilock (Some ip) s) (\<lambda>_ s.
     let s = upd_nlink (- 1) ip s in
     bnd (iupdate ip s) (\<lambda>_ s.
     bnd (iunlockput ip s) (\<lambda>_ s.
     bnd (end_op s) (\<lambda>_ s. Ok (- 1) s))))"

text \<open>The handler of \<open>link\<close> after the two paths are known.\<close>

definition do_link :: "u8 list \<Rightarrow> u8 list \<Rightarrow> 'a kfile_scheme \<Rightarrow> (int, 'a kfile_scheme) res" where
  "do_link old new s =
     bnd (begin_op s) (\<lambda>_ s.
     bnd (namei old s) (\<lambda>r s.
     case r of None \<Rightarrow> bnd (end_op s) (\<lambda>_ s. Ok (- 1) s) | Some ip \<Rightarrow>
     bnd (ilock (Some ip) s) (\<lambda>_ s.
     if i_type (icache s ! ip) = T_DIR then
       bnd (iunlockput ip s) (\<lambda>_ s. bnd (end_op s) (\<lambda>_ s. Ok (- 1) s))
     else
       let s = upd_nlink 1 ip s in
       bnd (iupdate ip s) (\<lambda>_ s.
       bnd (iunlock (Some ip) s) (\<lambda>_ s.
       bnd (nameiparent new (replicate DIRSIZ 0) s) (\<lambda>(r, name) s.
       case r of None \<Rightarrow> link_bad ip s | Some dp \<Rightarrow>
       bnd (ilock (Some dp) s) (\<lambda>_ s.
       bnd (if i_dev (icache s ! dp) \<noteq> i_dev (icache s ! ip) then Ok (- 1) s
            else dirlink dp (str_of name) (i_inum (icache s ! ip)) s) (\<lambda>n s.
       if n < 0 then bnd (iunlockput dp s) (\<lambda>_ s. link_bad ip s)
       else
         bnd (iunlockput dp s) (\<lambda>_ s.
         bnd (iput ip s) (\<lambda>_ s.
         bnd (end_op s) (\<lambda>_ s. Ok 0 s)))))))))))"

definition sys_link :: "'a kfile_scheme \<Rightarrow> (int, 'a kfile_scheme) res" where
  "sys_link s =
     bnd (argstr 0 s) (\<lambda>r s.
     case r of None \<Rightarrow> Ok (- 1) s | Some (_, old) \<Rightarrow>
     bnd (argstr 1 s) (\<lambda>r s.
     case r of None \<Rightarrow> Ok (- 1) s | Some (_, new) \<Rightarrow> do_link old new s))"

fun isdirempty_loop :: "u32 list \<Rightarrow> nat \<Rightarrow> 'a kfile_scheme \<Rightarrow> (bool, 'a kfile_scheme) res" where
  "isdirempty_loop [] dp s = Ok True s"
| "isdirempty_loop (off # offs) dp s =
     bnd (readi dp Kdst off 16 s) (\<lambda>r s.
     case r of None \<Rightarrow> Panic ''isdirempty: readi'' | Some de \<Rightarrow>
     if length de \<noteq> 16 then Panic ''isdirempty: readi''
     else if de_inum de \<noteq> 0 then Ok False s
     else isdirempty_loop offs dp s)"

definition isdirempty :: "nat \<Rightarrow> 'a kfile_scheme \<Rightarrow> (bool, 'a kfile_scheme) res" where
  "isdirempty dp s = isdirempty_loop (drop 2 (de_offsets (i_size (icache s ! dp)))) dp s"

definition unlink_bad :: "nat \<Rightarrow> 'a kfile_scheme \<Rightarrow> (int, 'a kfile_scheme) res" where
  "unlink_bad dp s = bnd (iunlockput dp s) (\<lambda>_ s. bnd (end_op s) (\<lambda>_ s. Ok (- 1) s))"

definition do_unlink :: "u8 list \<Rightarrow> 'a kfile_scheme \<Rightarrow> (int, 'a kfile_scheme) res" where
  "do_unlink path s =
     bnd (begin_op s) (\<lambda>_ s.
     bnd (nameiparent path (replicate DIRSIZ 0) s) (\<lambda>(r, name) s.
     case r of None \<Rightarrow> bnd (end_op s) (\<lambda>_ s. Ok (- 1) s) | Some dp \<Rightarrow>
     bnd (ilock (Some dp) s) (\<lambda>_ s.
     if namecmp (str_of name) (str_of [46]) = 0 \<or> namecmp (str_of name) (str_of [46, 46]) = 0 then unlink_bad dp s else
     bnd (dirlookup dp (str_of name) s) (\<lambda>r s.
     case r of None \<Rightarrow> unlink_bad dp s | Some (ip, off) \<Rightarrow>
     bnd (ilock (Some ip) s) (\<lambda>_ s.
     if sint (i_nlink (icache s ! ip)) < 1 then Panic ''unlink: nlink < 1'' else
     bnd (if i_type (icache s ! ip) = T_DIR then isdirempty ip s else Ok True s) (\<lambda>e s.
     if \<not> e then bnd (iunlockput ip s) (\<lambda>_ s. unlink_bad dp s) else
     bnd (writei dp (Ksrc (replicate 16 0)) off 16 s) (\<lambda>n s.
     if n \<noteq> 16 then Panic ''unlink: writei'' else
     bnd (if i_type (icache s ! ip) = T_DIR then
            let s = upd_nlink (- 1) dp s in iupdate dp s
          else Ok () s) (\<lambda>_ s.
     bnd (iunlockput dp s) (\<lambda>_ s.
     let s = upd_nlink (- 1) ip s in
     bnd (iupdate ip s) (\<lambda>_ s.
     bnd (iunlockput ip s) (\<lambda>_ s.
     bnd (end_op s) (\<lambda>_ s. Ok 0 s))))))))))))"

definition sys_unlink :: "'a kfile_scheme \<Rightarrow> (int, 'a kfile_scheme) res" where
  "sys_unlink s =
     bnd (argstr 0 s) (\<lambda>r s.
     case r of None \<Rightarrow> Ok (- 1) s | Some (_, path) \<Rightarrow> do_unlink path s)"

subsection \<open>Creating and opening\<close>

text \<open>\<open>create\<close> returns the inode locked.\<close>

definition create :: "u8 list \<Rightarrow> u16 \<Rightarrow> u16 \<Rightarrow> u16 \<Rightarrow> 'a kfile_scheme \<Rightarrow> (nat option, 'a kfile_scheme) res" where
  "create path ty major minor s =
     bnd (nameiparent path (replicate DIRSIZ 0) s) (\<lambda>(r, name) s.
     case r of None \<Rightarrow> Ok None s | Some dp \<Rightarrow>
     bnd (ilock (Some dp) s) (\<lambda>_ s.
     bnd (dirlookup dp (str_of name) s) (\<lambda>r s.
     case r of
       Some (ip, _) \<Rightarrow>
         bnd (iunlockput dp s) (\<lambda>_ s.
         bnd (ilock (Some ip) s) (\<lambda>_ s.
         if ty = T_FILE \<and> i_type (icache s ! ip) = T_FILE then Ok (Some ip) s
         else bnd (iunlockput ip s) (\<lambda>_ s. Ok None s)))
     | None \<Rightarrow>
         bnd (ialloc (i_dev (icache s ! dp)) ty s) (\<lambda>ip s.
         bnd (ilock (Some ip) s) (\<lambda>_ s.
         let s = upd_inode ip (\<lambda>x. x\<lparr>i_major := major, i_minor := minor, i_nlink := 1\<rparr>) s in
         bnd (iupdate ip s) (\<lambda>_ s.
         bnd (if ty = T_DIR then
                let s = upd_nlink 1 dp s in
                bnd (iupdate dp s) (\<lambda>_ s.
                bnd (dirlink ip (str_of [46]) (i_inum (icache s ! ip)) s) (\<lambda>n s.
                if n < 0 then Panic ''create dots'' else
                bnd (dirlink ip (str_of [46, 46]) (i_inum (icache s ! dp)) s) (\<lambda>n s.
                if n < 0 then Panic ''create dots'' else Ok () s)))
              else Ok () s) (\<lambda>_ s.
         bnd (dirlink dp (str_of name) (i_inum (icache s ! ip)) s) (\<lambda>n s.
         if n < 0 then Panic ''create: dirlink'' else
         bnd (iunlockput dp s) (\<lambda>_ s. Ok (Some ip) s)))))))))"

text \<open>The first half of \<open>open\<close>: the locked inode, or \<open>None\<close> when the operation has ended with \<open>-1\<close>.\<close>

definition open_inode :: "u8 list \<Rightarrow> u32 \<Rightarrow> 'a kfile_scheme \<Rightarrow> (nat option, 'a kfile_scheme) res" where
  "open_inode path omode s =
     (if omode AND 0x200 \<noteq> 0 then
        bnd (create path T_FILE 0 0 s) (\<lambda>r s.
        case r of None \<Rightarrow> bnd (end_op s) (\<lambda>_ s. Ok None s) | Some ip \<Rightarrow> Ok (Some ip) s)
      else
        bnd (namei path s) (\<lambda>r s.
        case r of None \<Rightarrow> bnd (end_op s) (\<lambda>_ s. Ok None s) | Some ip \<Rightarrow>
        bnd (ilock (Some ip) s) (\<lambda>_ s.
        if i_type (icache s ! ip) = T_DIR \<and> omode \<noteq> 0 then
          bnd (iunlockput ip s) (\<lambda>_ s. bnd (end_op s) (\<lambda>_ s. Ok None s))
        else Ok (Some ip) s)))"

definition do_open :: "u8 list \<Rightarrow> u32 \<Rightarrow> 'a kfile_scheme \<Rightarrow> (int, 'a kfile_scheme) res" where
  "do_open path omode s =
     bnd (begin_op s) (\<lambda>_ s.
     bnd (open_inode path omode s) (\<lambda>r s.
     case r of None \<Rightarrow> Ok (- 1) s | Some ip \<Rightarrow>
     bnd (filealloc s) (\<lambda>f s.
     bnd (case f of None \<Rightarrow> Ok (- 1) s | Some f \<Rightarrow> fdalloc f s) (\<lambda>fd s.
     if fd < 0 then
       bnd (case f of None \<Rightarrow> Ok () s | Some f \<Rightarrow> fileclose f s) (\<lambda>_ s.
       bnd (iunlockput ip s) (\<lambda>_ s.
       bnd (end_op s) (\<lambda>_ s. Ok (- 1) s)))
     else
       bnd (iunlock (Some ip) s) (\<lambda>_ s.
       bnd (end_op s) (\<lambda>_ s.
       Ok fd (upd_file (the f) (\<lambda>x. x\<lparr>f_type := FD_INODE, f_ip := Some ip, f_off := 0,
         f_readable := (omode AND 1 = 0), f_writable := (omode AND 1 \<noteq> 0 \<or> omode AND 2 \<noteq> 0)\<rparr>) s)))))))"

definition sys_open :: "'a kfile_scheme \<Rightarrow> (int, 'a kfile_scheme) res" where
  "sys_open s =
     bnd (argstr 0 s) (\<lambda>r s.
     case r of None \<Rightarrow> Ok (- 1) s | Some (_, path) \<Rightarrow>
     bnd (argint 1 s) (\<lambda>r s.
     case r of None \<Rightarrow> Ok (- 1) s | Some omode \<Rightarrow> do_open path omode s))"

definition made :: "nat option \<Rightarrow> 'a kfile_scheme \<Rightarrow> (int, 'a kfile_scheme) res" where
  "made r s =
     (case r of None \<Rightarrow> bnd (end_op s) (\<lambda>_ s. Ok (- 1) s)
      | Some ip \<Rightarrow> bnd (iunlockput ip s) (\<lambda>_ s. bnd (end_op s) (\<lambda>_ s. Ok 0 s)))"

definition sys_mkdir :: "'a kfile_scheme \<Rightarrow> (int, 'a kfile_scheme) res" where
  "sys_mkdir s =
     bnd (begin_op s) (\<lambda>_ s.
     bnd (argstr 0 s) (\<lambda>r s.
     case r of None \<Rightarrow> made None s | Some (_, path) \<Rightarrow>
     bnd (create path T_DIR 0 0 s) (\<lambda>r s. made r s)))"

definition sys_mknod :: "'a kfile_scheme \<Rightarrow> (int, 'a kfile_scheme) res" where
  "sys_mknod s =
     bnd (begin_op s) (\<lambda>_ s.
     bnd (argstr 0 s) (\<lambda>r s.
     case r of None \<Rightarrow> made None s | Some (_, path) \<Rightarrow>
     bnd (argint 1 s) (\<lambda>r s.
     case r of None \<Rightarrow> made None s | Some major \<Rightarrow>
     bnd (argint 2 s) (\<lambda>r s.
     case r of None \<Rightarrow> made None s | Some minor \<Rightarrow>
     bnd (create path T_DEV (ucast major) (ucast minor) s) (\<lambda>r s. made r s)))))"

definition do_chdir :: "u8 list \<Rightarrow> 'a kfile_scheme \<Rightarrow> (int, 'a kfile_scheme) res" where
  "do_chdir path s =
     bnd (cur s) (\<lambda>p s.
     bnd (namei path s) (\<lambda>r s.
     case r of None \<Rightarrow> bnd (end_op s) (\<lambda>_ s. Ok (- 1) s) | Some ip \<Rightarrow>
     bnd (ilock (Some ip) s) (\<lambda>_ s.
     if i_type (icache s ! ip) \<noteq> T_DIR then
       bnd (iunlockput ip s) (\<lambda>_ s. bnd (end_op s) (\<lambda>_ s. Ok (- 1) s))
     else
       bnd (iunlock (Some ip) s) (\<lambda>_ s.
       bnd (iput (the (cwd (procat p s))) s) (\<lambda>_ s.
       bnd (end_op s) (\<lambda>_ s.
       Ok 0 (upd_proc (the p) (\<lambda>q. q\<lparr>cwd := Some ip\<rparr>) s)))))))"

definition sys_chdir :: "'a kfile_scheme \<Rightarrow> (int, 'a kfile_scheme) res" where
  "sys_chdir s =
     bnd (begin_op s) (\<lambda>_ s.
     bnd (argstr 0 s) (\<lambda>r s.
     case r of None \<Rightarrow> bnd (end_op s) (\<lambda>_ s. Ok (- 1) s) | Some (_, path) \<Rightarrow> do_chdir path s))"

subsection \<open>exec and pipe\<close>

fun exec_argv :: "nat \<Rightarrow> u32 \<Rightarrow> 'a kfile_scheme \<Rightarrow> (u8 list list option, 'a kfile_scheme) res" where
  "exec_argv 0 uargv s = Ok None s"
| "exec_argv (Suc n) uargv s =
     bnd (fetchint uargv s) (\<lambda>r s.
     case r of None \<Rightarrow> Ok None s | Some uarg \<Rightarrow>
     if uarg = 0 then Ok (Some []) s else
     bnd (fetchstr uarg s) (\<lambda>r s.
     case r of None \<Rightarrow> Ok None s | Some (_, a) \<Rightarrow>
     bnd (exec_argv n (uargv + 4) s) (\<lambda>r s. Ok (map_option ((#) a) r) s)))"

definition sys_exec :: "'a kfile_scheme \<Rightarrow> (int, 'a kfile_scheme) res" where
  "sys_exec s =
     bnd (argstr 0 s) (\<lambda>r s.
     case r of None \<Rightarrow> Ok (- 1) s | Some (_, path) \<Rightarrow>
     bnd (argint 1 s) (\<lambda>r s.
     case r of None \<Rightarrow> Ok (- 1) s | Some uargv \<Rightarrow>
     bnd (exec_argv MAXARG uargv s) (\<lambda>r s.
     case r of None \<Rightarrow> Ok (- 1) s | Some argv \<Rightarrow> exec path argv s)))"

definition sys_pipe :: "'a kfile_scheme \<Rightarrow> (int, 'a kfile_scheme) res" where
  "sys_pipe s =
     bnd (argptr 0 8 s) (\<lambda>r s.
     case r of None \<Rightarrow> Ok (- 1) s | Some a \<Rightarrow>
     bnd (pipealloc s) (\<lambda>r s.
     case r of None \<Rightarrow> Ok (- 1) s | Some (rf, wfl) \<Rightarrow>
     bnd (fdalloc rf s) (\<lambda>fd0 s.
     bnd (if fd0 < 0 then Ok (- 1) s else fdalloc wfl s) (\<lambda>fd1 s.
     if fd1 < 0 then
       bnd (if fd0 \<ge> 0 then
              bnd (cur s) (\<lambda>p s. Ok () (upd_proc (the p) (\<lambda>q. q\<lparr>ofile := (ofile q)[nat fd0 := None]\<rparr>) s))
            else Ok () s) (\<lambda>_ s.
       bnd (fileclose rf s) (\<lambda>_ s.
       bnd (fileclose wfl s) (\<lambda>_ s. Ok (- 1) s)))
     else
       bnd (uwrite a (bytes32 (word_of_int fd0)) s) (\<lambda>_ s.
       bnd (uwrite (a + 4) (bytes32 (word_of_int fd1)) s) (\<lambda>_ s. Ok 0 s))))))"

end
