(* ===== verification/Tables.thy ===== *)
theory Tables
  imports Sysfile Sample
begin

section \<open>The tables of open files, descriptors and processes\<close>

text \<open>
  The three tables from which the kernel hands out the first free slot provide the interface \<open>slot_table\<close>:
  open files (\<open>filealloc\<close>), the descriptors of a process (\<open>fdalloc\<close>) and processes (\<open>allocproc\<close>).
  The lemmas of the interface then give what the three operations return.
\<close>

definition file_free :: "file_t \<Rightarrow> bool" where
  "file_free f \<longleftrightarrow> f_ref f = 0"

interpretation file_slots: slot_table file_free "\<lambda>f. f\<lparr>f_ref := 1\<rparr>"
  by unfold_locales (simp add: file_free_def)

interpretation fd_slots: slot_table "\<lambda>x. x = None" "\<lambda>_. Some (f :: nat)" for f
  by unfold_locales simp

definition proc_free :: "proc \<Rightarrow> bool" where
  "proc_free q \<longleftrightarrow> pstate q = UNUSED"

interpretation proc_slots: slot_table proc_free "\<lambda>q. q\<lparr>pstate := EMBRYO, pid := n\<rparr>" for n
  by unfold_locales (simp add: proc_free_def)

subsection \<open>Open files\<close>

lemma filealloc_ok:
  assumes "cpu_ok (core s)" and "lock_free L_ftable (core s)"
  shows "filealloc s = (case alloc_slot file_free (\<lambda>f. f\<lparr>f_ref := 1\<rparr>) (ftable s) of
     None \<Rightarrow> Ok None s | Some (i, fs) \<Rightarrow> Ok (Some i) (s\<lparr>ftable := fs\<rparr>))"
proof -
  have "(\<lambda>f. f_ref f = 0) = file_free"
    by (simp add: fun_eq_iff file_free_def)
  then show ?thesis
    using assms by (auto simp: filealloc_def quiet_simps alloc_slot_def upd_file_def Let_def split: option.splits)
qed

text \<open>C11: \<open>filealloc\<close> returns null exactly when all entries of the file table are in use; else it takes the first free
  entry, which then has one reference, changes no other entry, and one entry less is free.\<close>

theorem filealloc_takes_first_free:
  assumes "cpu_ok (core s)" and "lock_free L_ftable (core s)"
  shows "\<exists>r t. filealloc s = Ok r t \<and>
    (case r of
       None \<Rightarrow> t = s \<and> (\<forall>f \<in> set (ftable s). f_ref f \<noteq> 0)
     | Some i \<Rightarrow> i < length (ftable s) \<and> f_ref (ftable s ! i) = 0 \<and> (\<forall>j < i. f_ref (ftable s ! j) \<noteq> 0) \<and>
         f_ref (ftable t ! i) = 1 \<and> (\<forall>j. j \<noteq> i \<longrightarrow> ftable t ! j = ftable s ! j) \<and>
         free_slots file_free (ftable s) = Suc (free_slots file_free (ftable t)))"
proof (cases "alloc_slot file_free (\<lambda>f. f\<lparr>f_ref := 1\<rparr>) (ftable s)")
  case None
  then show ?thesis
    using filealloc_ok [OF assms] file_slots.alloc_None [of "ftable s"]
    by (simp add: free_slots_def filter_empty_conv file_free_def)
next
  case (Some r)
  then obtain i fs where a: "alloc_slot file_free (\<lambda>f. f\<lparr>f_ref := 1\<rparr>) (ftable s) = Some (i, fs)"
    by (cases r) auto
  note slot = file_slots.alloc_Some [OF a] file_slots.alloc_count [OF a] file_slots.alloc_others [OF a]
  then show ?thesis
    using filealloc_ok [OF assms] a by (auto simp: file_free_def)
qed

theorem filealloc_takes_first_free_witness:
  "\<exists>t. filealloc sample = Ok (Some 0) t \<and> f_ref (ftable t ! 0) = 1"
proof -
  have s: "f_ref (ftable sample ! 0) = 0" "empty_file \<in> set (ftable sample)" "f_ref empty_file = 0"
    by (simp_all add: sample_def empty_file_def)
  obtain r t where f: "filealloc sample = Ok r t" and r: "case r of
      None \<Rightarrow> t = sample \<and> (\<forall>f \<in> set (ftable sample). f_ref f \<noteq> 0)
    | Some i \<Rightarrow> (\<forall>j < i. f_ref (ftable sample ! j) \<noteq> 0) \<and> f_ref (ftable t ! i) = 1"
    using filealloc_takes_first_free [of sample] sample_core_ok(1,2)
    unfolding sample_simps(1) by (force split: option.splits)
  have "r = Some 0"
  proof (cases r)
    case (Some i)
    then show ?thesis
      using r s(1) by (cases i) auto
  qed (use r s in auto)
  then show ?thesis
    using f r by simp
qed

subsection \<open>Descriptors\<close>

lemma find_idx_slot: "find_idx free xs = map_option fst (alloc_slot free claim xs)"
  by (simp add: alloc_slot_def split: option.splits)

text \<open>C12: \<open>fdalloc\<close> gives the lowest descriptor that is not in use and enters the file there, keeping the other
  descriptors; it returns -1, without effect, exactly when all descriptors of the process are in use.\<close>

theorem fdalloc_lowest_free:
  assumes ok: "cpu_ok (core s)" and me: "me_proc s = Some i" "i < length (procs s)" and len: "length (ofile (procs s ! i)) = NOFILE"
  shows "\<exists>r t. fdalloc f s = Ok r t \<and>
    (if None \<in> set (ofile (procs s ! i)) then
       0 \<le> r \<and> r < int NOFILE \<and> ofile (procs s ! i) ! nat r = None \<and> (\<forall>j < nat r. ofile (procs s ! i) ! j \<noteq> None) \<and>
       ofile (procs t ! i) = (ofile (procs s ! i))[nat r := Some f] \<and> (\<forall>k. k \<noteq> i \<longrightarrow> procs t ! k = procs s ! k)
     else r = - 1 \<and> t = s)"
proof -
  let ?o = "ofile (procs s ! i)"
  let ?a = "alloc_slot (\<lambda>x. x = None) (\<lambda>_. Some f) ?o"
  have fd: "fdalloc f s = (case map_option fst ?a of None \<Rightarrow> Ok (- 1) s
     | Some fd \<Rightarrow> Ok (int fd) (upd_proc i (\<lambda>q. q\<lparr>ofile := (ofile q)[fd := Some f]\<rparr>) s))"
    using ok me len by (simp add: fdalloc_def quiet_simps procat_def find_idx_slot [of _ _ "\<lambda>_. Some f"] split: option.splits)
  show ?thesis
  proof (cases ?a)
    case None
    then have "None \<notin> set ?o"
      using fd_slots.alloc_None [of f ?o] by (auto simp: free_slots_def filter_empty_conv)
    then show ?thesis
      using fd None by auto
  next
    case (Some r)
    then obtain j os where a: "?a = Some (j, os)"
      by (cases r) auto
    note slot = fd_slots.alloc_Some [OF a]
    moreover from slot have "None \<in> set ?o"
      by (metis nth_mem)
    ultimately show ?thesis
      using fd a me len by (auto simp: upd_proc_def)
  qed
qed

theorem fdalloc_lowest_free_witness: "\<exists>t. fdalloc 7 sample = Ok 0 t \<and> ofile (procs t ! 0) ! 0 = Some 7"
proof -
  have o: "ofile (procs sample ! 0) = replicate NOFILE None" "cpu_ok (core sample)" "0 < length (procs sample)"
    by (simp_all add: sample_def first_proc_def zero_proc_def sample_core_ok)
  obtain r t where "fdalloc 7 sample = Ok r t" "0 \<le> r" "r < int NOFILE" "\<forall>j < nat r. replicate NOFILE None ! j \<noteq> (None :: nat option)"
    "ofile (procs t ! 0) = (replicate NOFILE None)[nat r := Some 7]"
    using fdalloc_lowest_free [OF o(2) sample_simps(2) o(3), of 7] by (auto simp: o(1))
  moreover from this have "nat r = 0"
    by (metis (no_types, lifting) gr0I nat_less_iff nth_replicate of_nat_less_iff order_less_trans zero_less_imp_eq_int)
  ultimately show ?thesis
    by auto
qed

subsection \<open>Processes\<close>

lemma kalloc_procs:
  assumes "kmem_quiet s"
  shows "\<exists>t. kalloc s = Ok (freelist s) t \<and> procs t = procs s \<and> nextpid t = nextpid s \<and> core t = core s"
  using assms by (simp add: quiet_simps)

lemma allocproc_slot:
  assumes "pt_quiet s" and "kmem_quiet s" and a: "alloc_slot proc_free (\<lambda>q. q\<lparr>pstate := EMBRYO, pid := nextpid s\<rparr>) (procs s) = Some (i, ps)"
  shows "\<exists>r t. allocproc s = Ok r t \<and> nextpid t = cint (nextpid s + 1) \<and> core t = core s \<and>
    (if freelist s = 0 then r = None \<and> procs t = ps[i := (ps ! i)\<lparr>kstack := 0, pstate := UNUSED\<rparr>]
     else r = Some i \<and> procs t = ps[i := (ps ! i)\<lparr>kstack := freelist s, ctx_ret := K_trapret, pcontext := zero_ctxt\<lparr>c_eip := K_forkret\<rparr>\<rparr>])"
proof -
  note slot = proc_slots.alloc_Some [OF a]
  let ?s = "upd_proc i (\<lambda>q. q\<lparr>pstate := EMBRYO, pid := nextpid s\<rparr>) s\<lparr>nextpid := cint (nextpid s + 1)\<rparr>"
  have f: "find_idx (\<lambda>p. pstate p = UNUSED) (procs s) = Some i"
    using a by (auto simp: alloc_slot_def proc_free_def [abs_def] split: option.splits)
  have q: "kmem_quiet ?s" "freelist ?s = freelist s"
    using assms(2) by (simp_all add: kmem_quiet_def upd_proc_def)
  obtain t where t: "kalloc ?s = Ok (freelist s) t" "procs t = ps" "nextpid t = cint (nextpid s + 1)" "core t = core s"
    using kalloc_procs [OF q(1)] q(2) slot by (auto simp: upd_proc_def)
  have "?s = s\<lparr>procs := ps, nextpid := cint (nextpid s + 1)\<rparr>"
    using slot by (simp add: upd_proc_def)
  then show ?thesis
    using assms(1) f t slot by (simp add: allocproc_def pt_quiet_def quiet_simps Let_def upd_proc_def)
qed

text \<open>C13: \<open>allocproc\<close> returns null without effect when no slot is unused.  Else it claims the first unused slot, with
  \<open>nextpid\<close> as its pid, and advances \<open>nextpid\<close>, which as a C int wraps at \<open>2\<^sup>31\<close>; if there is no page for the kernel stack it returns null and the slot is unused
  again, else it returns the slot, in state EMBRYO, set up to start in \<open>forkret\<close> on its new stack.  No other
  process changes.\<close>

theorem allocproc_outcome:
  assumes "pt_quiet s" and "kmem_quiet s"
  shows "\<exists>r t. allocproc s = Ok r t \<and>
    (case find_idx proc_free (procs s) of
       None \<Rightarrow> r = None \<and> t = s
     | Some i \<Rightarrow> nextpid t = cint (nextpid s + 1) \<and> pid (procs t ! i) = nextpid s \<and> (\<forall>j. j \<noteq> i \<longrightarrow> procs t ! j = procs s ! j) \<and>
         (if freelist s = 0 then r = None \<and> pstate (procs t ! i) = UNUSED
          else r = Some i \<and> pstate (procs t ! i) = EMBRYO \<and> kstack (procs t ! i) = freelist s \<and> c_eip (pcontext (procs t ! i)) = K_forkret))"
proof (cases "alloc_slot proc_free (\<lambda>q. q\<lparr>pstate := EMBRYO, pid := nextpid s\<rparr>) (procs s)")
  case None
  then have "find_idx proc_free (procs s) = None" "find_idx (\<lambda>p. pstate p = UNUSED) (procs s) = None"
    by (auto simp: alloc_slot_def proc_free_def [abs_def] split: option.splits)
  then show ?thesis
    using assms(1) by (simp add: allocproc_def pt_quiet_def quiet_simps)
next
  case (Some x)
  then obtain i ps where a: "alloc_slot proc_free (\<lambda>q. q\<lparr>pstate := EMBRYO, pid := nextpid s\<rparr>) (procs s) = Some (i, ps)"
    by (cases x) auto
  then have "find_idx proc_free (procs s) = Some i"
    by (auto simp: alloc_slot_def split: option.splits)
  then show ?thesis
    using allocproc_slot [OF assms a] proc_slots.alloc_Some [OF a] by (cases "freelist s = 0") auto
qed

theorem allocproc_outcome_witness:
  "\<exists>t. allocproc sample = Ok (Some 1) t \<and> pid (procs t ! 1) = 2 \<and> kstack (procs t ! 1) = 0x80103000"
proof -
  have f: "find_idx proc_free (procs sample) = Some 1"
    unfolding find_idx_Some by (simp add: sample_def proc_free_def first_proc_def zero_proc_def)
  have "pt_quiet sample" "kmem_quiet sample" "freelist sample = 0x80103000" "nextpid sample = 2"
    by (simp_all add: pt_quiet_def kmem_quiet_def sample_simps sample_core_ok) (simp_all add: sample_def)
  then show ?thesis
    using allocproc_outcome [of sample] by (auto simp: f)
qed

end
