(* ===== verification/Lazy.thy ===== *)
theory Lazy
  imports Sample
begin

section \<open>Lazily mapped memory\<close>

text \<open>
  The feature of this kernel: \<open>mmap\<close> only raises the size of the process, and the page fault handler supplies
  a zeroed page when an address is first touched.  The lemmas compose \<open>mmap\<close>, the trap on the first
  access, \<open>page_fault_handler\<close>, the message on the console and the reload of the page table.
\<close>

lemma new_pte:
  assumes "aligned p"
  shows "P2V (PTE_ADDR (V2P p OR 7)) = p" and "(V2P p OR 7) AND PTE_P \<noteq> 0"
proof -
  have "PTE_ADDR (V2P p OR 7) = V2P p"
    using assms by (intro PTE_ADDR_or) simp_all
  then show "P2V (PTE_ADDR (V2P p OR 7)) = p"
    by (simp add: P2V_def V2P_def)
  have "bit (V2P p OR 7) 0"
    by (simp add: bit_simps)
  then show "(V2P p OR 7) AND PTE_P \<noteq> 0"
    by (simp add: and_one_eq even_iff_mod_2_eq_zero bit_0)
qed

lemma fault_ok:
  assumes rep: "kmem_rep s xs" and as: "as_wf s pd xs" and len: "2 \<le> length xs" and va: "\<not> present (mem s) pd va"
  obtains p ys t where "page_fault_handler pd (PGROUNDDOWN va) s = Ok 1 t" "t = s\<lparr>freelist := freelist t, mem := mem t\<rparr>"
    "p \<in> set xs" "set ys \<subseteq> set xs - {p}" "kmem_rep t ys" "as_wf t pd ys"
    "pte (mem t) pd = (\<lambda>a. if PGROUNDDOWN a = PGROUNDDOWN va then V2P p OR 7 else pte (mem s) pd a)"
    "\<forall>b. PGROUNDDOWN b = p \<longrightarrow> mem t b = 0" "\<forall>b. PGROUNDDOWN b \<notin> tables (mem s) pd \<union> set xs \<longrightarrow> mem t b = mem s b"
proof -
  obtain x xs' where xs: "xs = x # xs'" "xs' \<noteq> []"
    using len by (cases xs; cases "tl xs") auto
  note rep' = rep [unfolded xs(1)] and wf = as_wfD(1) [OF as, unfolded xs(1)]
  note x = kmem_rep_Cons [OF rep'] and tz = take_zero_wf [OF rep' wf]
  have np: "pte (mem s) pd (PGROUNDDOWN va) AND PTE_P = 0"
    using va present_same_page [of "PGROUNDDOWN va" va] by (simp add: present_def)
  have room: "xs' \<noteq> [] \<or> has_pt (mem s) pd (PGROUNDDOWN va)"
    using xs(2) by simp
  obtain zs ys t where t: "page_fault_handler pd (PGROUNDDOWN va) s = Ok 1 t" "xs' = zs @ ys" "grown (take_zero x s) pd zs ys t"
    "pte (mem t) pd = (\<lambda>a. if PGROUNDDOWN a = PGROUNDDOWN va then V2P x OR 7 else pte (mem s) pd a)"
    by (rule page_fault_ok [OF rep' wf _ np room]) simp
  have fr: "mem t b = mem (take_zero x s) b" if "PGROUNDDOWN b \<notin> tables (mem s) pd \<union> set zs" for b
    using t(3) that tz(4) by (auto simp: grown_def)
  have zero: "\<forall>b. PGROUNDDOWN b = x \<longrightarrow> mem t b = 0"
    using fr tz(5) x(3) t(2) by (auto simp: take_zero_mem [OF x(2)])
  have same: "\<forall>b. PGROUNDDOWN b \<notin> tables (mem s) pd \<union> set xs \<longrightarrow> mem t b = mem s b"
    using fr xs t(2) by (auto simp: take_zero_mem [OF x(2)])
  have st: "t = s\<lparr>freelist := freelist t, mem := mem t\<rparr>"
    using t(3) by (simp add: grown_def take_zero_def)
  have tb: "tables (mem t) pd = tables (mem s) pd \<union> set zs"
    using t(3) tz(4) by (simp add: grown_def)
  have pr: "present (mem t) pd a \<longleftrightarrow> PGROUNDDOWN a = PGROUNDDOWN va \<or> present (mem s) pd a"
    and up: "upage (mem t) pd a = (if PGROUNDDOWN a = PGROUNDDOWN va then x else upage (mem s) pd a)" for a
    using new_pte [OF x(2)] by (simp_all add: present_def upage_def t(4))
  have old: "upage (mem s) pd a \<notin> set xs" "page_ok s (upage (mem s) pd a)" "upage (mem s) pd a \<notin> tables (mem s) pd"
    if "a < KERNBASE" "present (mem s) pd a" for a
    using as_wfD(3-5) [OF as that] by simp_all
  have pok: "page_ok t = page_ok s" "kend t = kend s"
    by (subst st, simp add: page_ok_def fun_eq_iff)+
  have "as_wf t pd ys"
    unfolding as_wf_def pok
  proof (intro conjI allI impI)
    fix a
    assume a: "a < KERNBASE" "present (mem t) pd a"
    show "page_ok s (upage (mem t) pd a)"
      using a x(1) old by (auto simp: pr up)
    show "upage (mem t) pd a \<notin> tables (mem t) pd" "upage (mem t) pd a \<notin> set ys"
      using a old [of a] tz(5) x(3) t(2) xs(1) by (auto simp: pr up tb)
  next
    fix a b
    assume "a < KERNBASE" "b < KERNBASE" "present (mem t) pd a" "present (mem t) pd b" "upage (mem t) pd a = upage (mem t) pd b"
    then show "PGROUNDDOWN a = PGROUNDDOWN b"
      using old [of a] old [of b] as_wfD(6) [OF as, of a b] xs(1) by (auto simp: pr up split: if_splits)
  qed (use grownD(2) [OF t(3)] as_wfD(2) [OF as] in auto)
  then show ?thesis
    using that [OF t(1) st _ _ grownD(1) [OF t(3)] _ t(4) zero same] x(3) xs(1) t(2) by auto
qed

subsection \<open>Reloading the page table\<close>

definition reload :: "u32 \<Rightarrow> segdesc \<Rightarrow> taskstate \<Rightarrow> core \<Rightarrow> core" where
  "reload v g tk c = lcr3 v (upd_cpu (the (me c)) (\<lambda>cp. cp\<lparr>gdt := (gdt cp)[SEG_TSS := g], ts := tk\<rparr>) c)"

lemma reload_same:
  assumes "cpu_ok c"
  shows "me (reload v g tk c) = me c" "locks (reload v g tk c) = locks c" "cpu_ok (reload v g tk c)"
    "cproc (mc (reload v g tk c)) = cproc (mc c)" "ncli (mc (reload v g tk c)) = ncli (mc c)"
    "intena (mc (reload v g tk c)) = intena (mc c)"
proof -
  show m: "me (reload v g tk c) = me c"
    by (simp add: reload_def lcr3_def)
  show "locks (reload v g tk c) = locks c"
    by (simp add: reload_def lcr3_def upd_cpu_def)
  have b: "the (me c) < length (cpus c)"
    using assms me_bound by (auto simp: cpu_ok_def)
  show mc: "cproc (mc (reload v g tk c)) = cproc (mc c)" "ncli (mc (reload v g tk c)) = ncli (mc c)"
    "intena (mc (reload v g tk c)) = intena (mc c)"
    unfolding mc_def m using b by (simp_all add: reload_def lcr3_def upd_cpu_def)
  have "readeflags (reload v g tk c) = readeflags c"
    by (simp add: reload_def)
  then show "cpu_ok (reload v g tk c)"
    using assms m mc by (simp add: cpu_ok_def)
qed

lemma pop_reload:
  assumes "cpu_ok c"
  shows "pop (reload v g tk (push c)) = reload v g tk c"
proof -
  from assms obtain i where i: "me c = Some i" "mc c = cpus c ! i" "i < length (cpus c)"
    and z: "ncli (mc c) = 0 \<Longrightarrow> intena (mc c) = readeflags c" "ncli (mc c) \<noteq> 0 \<Longrightarrow> \<not> readeflags c"
    by (auto elim: cpu_okE)
  have "eflags_if c (lapicid c) = (ncli (mc c) = 0 \<and> intena (mc c))"
    using z by (auto simp: readeflags_def)
  then have e: "(eflags_if c)(lapicid c := ncli (mc c) = 0 \<and> intena (mc c)) = eflags_if c"
    by (simp add: fun_upd_idem)
  note ok = cpu_ok_push(1) [OF assms]
  have m: "mc (reload v g tk (push c)) = (cpus c ! i)\<lparr>ncli := ncli (mc c) + 1, gdt := (gdt (cpus c ! i))[SEG_TSS := g], ts := tk\<rparr>"
    unfolding mc_def [of "reload _ _ _ _"] reload_same(1) [OF ok] unfolding reload_def me_simps i(1) option.sel using i
    by (simp add: lcr3_def upd_cpu_def push_def cli_def)
  show ?thesis
    unfolding pop_def reload_same(1) [OF ok] m unfolding reload_def me_simps i(1) option.sel using i e
    by (simp add: lcr3_def upd_cpu_def push_def cli_def)
qed

lemma switchuvm_reload:
  assumes "cpu_ok (core s)" and "kstack (procs s ! i) \<noteq> 0" and "pgdir (procs s ! i) \<noteq> 0"
  shows "\<exists>v g tk. switchuvm (Some i) s = Ok () (s\<lparr>core := reload v g tk (core s)\<rparr>)"
proof -
  from assms(1) obtain c where c: "me (core s) = Some c" "c < length (cpus (core s))" "0 \<le> ncli (mc (core s))"
    by (auto elim: cpu_okE)
  let ?g = "(SEG16 STS_T32A (ts_addr s c) 103 0)\<lparr>sd_s := 0\<rparr>"
  let ?t = "\<lparr>esp0 = kstack (procs s ! i) + KSTACKSIZE, ss0 = 16, iomb = 0xFFFF\<rparr>"
  let ?d = "reload (V2P (pgdir (procs s ! i))) ?g ?t (push (core s))"
  note ok = cpu_ok_push [OF assms(1)]
  have "popcli ?d = Ok () (pop ?d)"
    using c ok reload_same [OF ok(1)] by (intro popcli_ok [of _ c]) (simp_all add: reload_def)
  then have "switchuvm (Some i) s = Ok () (s\<lparr>core := pop ?d\<rparr>)"
    using assms c by (simp add: switchuvm_def on_core_def pushcli_ok mycpu_push Let_def reload_def)
  then show ?thesis
    using pop_reload [OF assms(1)] by auto
qed

subsection \<open>The first access to a page\<close>

definition runs :: "nat \<Rightarrow> 'a kproc_scheme \<Rightarrow> bool" where
  "runs i s \<longleftrightarrow> cpu_ok (core s) \<and> con_quiet s \<and> me_proc s = Some i \<and> i < length (procs s) \<and> kstack (procs s ! i) \<noteq> 0"

definition aspace :: "'a kproc_scheme \<Rightarrow> u32 list \<Rightarrow> bool" where
  "aspace s xs \<longleftrightarrow> kmem_rep s xs \<and> as_wf s (mypd s) xs"

lemma pagefault_ok:
  assumes r: "runs i s" and sp: "aspace s xs" and len: "2 \<le> length xs" and va: "\<not> present (mem s) (mypd s) va"
  obtains p ys t where "pagefault va s = Ok () t" "runs i t" "procs t = procs s" "mypd t = mypd s" "aspace t ys"
    "p \<in> set xs" "set ys \<subseteq> set xs - {p}" "\<forall>lk. lock_free lk (core t) = lock_free lk (core s)"
    "pte (mem t) (mypd s) = (\<lambda>a. if PGROUNDDOWN a = PGROUNDDOWN va then V2P p OR 7 else pte (mem s) (mypd s) a)"
    "\<forall>b. PGROUNDDOWN b = p \<longrightarrow> mem t b = 0" "\<forall>b. PGROUNDDOWN b \<notin> tables (mem s) (mypd s) \<union> set xs \<longrightarrow> mem t b = mem s b"
proof -
  have r': "cpu_ok (core s)" "con_quiet s" "me_proc s = Some i" "i < length (procs s)" "kstack (procs s ! i) \<noteq> 0"
    and sp': "kmem_rep s xs" "as_wf s (mypd s) xs"
    using r sp by (simp_all add: runs_def aspace_def)
  have pd: "mypd s = pgdir (procs s ! i)"
    using r' by (simp add: mypd_def procat_def)
  obtain p ys u where u: "page_fault_handler (mypd s) (PGROUNDDOWN va) s = Ok 1 u" "u = s\<lparr>freelist := freelist u, mem := mem u\<rparr>"
    and p: "p \<in> set xs" "set ys \<subseteq> set xs - {p}" and sp_u: "kmem_rep u ys" "as_wf u (mypd s) ys"
    and m: "pte (mem u) (mypd s) = (\<lambda>a. if PGROUNDDOWN a = PGROUNDDOWN va then V2P p OR 7 else pte (mem s) (mypd s) a)"
      "\<forall>b. PGROUNDDOWN b = p \<longrightarrow> mem u b = 0" "\<forall>b. PGROUNDDOWN b \<notin> tables (mem s) (mypd s) \<union> set xs \<longrightarrow> mem u b = mem s b"
    by (rule fault_ok [OF sp' len va]) blast
  have us: "core u = core s" "procs u = procs s" "con_quiet u = con_quiet s"
    by (subst u(2), simp add: con_quiet_def con_ok_def)+
  obtain w where w: "cprintf ''Page Fault Handler (1 = success, 0 = fail): %d\<newline>'' [KInt (word_of_int 1)] u = Ok () w" "con_same u w" "con_quiet w"
    by (rule cprintf_ok [of u]) (use us r' in auto)
  have ws: "core w = core s" "procs w = procs s" "mem w = mem u" "kend w = kend u"
    using con_same_simps [OF w(2)] us w(2) by (auto simp: con_same_def)
  have nz: "pgdir (procs w ! i) \<noteq> 0"
    using page_ok_nonzero vm_wfD(1) [OF as_wfD(1) [OF sp'(2)]] by (auto simp: ws pd)
  obtain v g tk where sw: "switchuvm (Some i) w = Ok () (w\<lparr>core := reload v g tk (core w)\<rparr>)"
    using switchuvm_reload [of w i] nz r' ws by auto
  define t where "t = w\<lparr>core := reload v g tk (core w)\<rparr>"
  note rs = reload_same [OF r'(1), of v g tk]
  have ts: "core t = reload v g tk (core s)" "procs t = procs s" "mem t = mem u"
    by (simp_all add: t_def ws)
  have lk: "\<forall>lk. lock_free lk (core t) = lock_free lk (core s)"
    by (simp add: ts lock_free_def rs)
  have me: "me_proc t = Some i"
    using r'(3) by (simp add: me_proc_def ts rs)
  have "pagefault va s = Ok () t"
    using u(1) w(1) sw r' pd by (simp add: pagefault_def quiet_simps procat_def t_def)
  moreover have "runs i t"
    using r' me w(3) rs by (simp add: runs_def ts con_quiet_def) (simp add: t_def con_ok_def lock_free_def ws)
  moreover have "aspace t ys"
  proof -
    have pd': "mypd t = mypd s"
      using me ts by (simp add: mypd_def procat_def r')
    have "as_wf t (mypd s) ys"
      by (rule as_wf_cong [OF sp_u(2)]) (simp_all add: t_def ws)
    moreover have "kmem_rep w ys"
      using con_same_rep(1) [OF w(2)] sp_u(1) by simp
    then have "kmem_rep t ys"
      using rs lk by (simp add: kmem_rep_def kmem_quiet_def free_list_def ts) (simp add: t_def page_ok_def ws)
    ultimately show ?thesis
      by (simp add: aspace_def pd')
  qed
  moreover have "mypd t = mypd s"
    using me ts by (simp add: mypd_def procat_def r')
  moreover note m [folded ts(3)]
  ultimately show ?thesis
    using that [of t ys p] p ts(2) lk by blast
qed

lemma uload_fresh:
  assumes r: "runs i s" and sp: "aspace s xs" and len: "2 \<le> length xs" and va: "va < KERNBASE" "\<not> present (mem s) (mypd s) va"
  obtains ys t where "uload va s = Ok 0 t" "runs i t" "procs t = procs s" "mypd t = mypd s" "aspace t ys" "set ys \<subset> set xs"
    "\<forall>b. PGROUNDDOWN b = PGROUNDDOWN va \<longrightarrow> present (mem t) (mypd s) b \<and> mem t (uphys (mem t) (mypd s) b) = 0"
    "\<forall>b. b < KERNBASE \<longrightarrow> present (mem s) (mypd s) b \<longrightarrow>
      present (mem t) (mypd s) b \<and> mem t (uphys (mem t) (mypd s) b) = mem s (uphys (mem s) (mypd s) b)"
proof -
  obtain p ys t where t: "pagefault va s = Ok () t" "runs i t" "procs t = procs s" "mypd t = mypd s" "aspace t ys"
    and p: "p \<in> set xs" "set ys \<subseteq> set xs - {p}"
    and m: "pte (mem t) (mypd s) = (\<lambda>a. if PGROUNDDOWN a = PGROUNDDOWN va then V2P p OR 7 else pte (mem s) (mypd s) a)"
      "\<forall>b. PGROUNDDOWN b = p \<longrightarrow> mem t b = 0" "\<forall>b. PGROUNDDOWN b \<notin> tables (mem s) (mypd s) \<union> set xs \<longrightarrow> mem t b = mem s b"
    by (rule pagefault_ok [OF r sp len va(2)])
  have as: "as_wf s (mypd s) xs" and al: "aligned p"
    using sp p(1) page_ok_aligned(1) by (auto simp: aspace_def kmem_rep_def free_list_def)
  have new: "present (mem t) (mypd s) b \<and> mem t (uphys (mem t) (mypd s) b) = 0" if "PGROUNDDOWN b = PGROUNDDOWN va" for b
  proof -
    have "upage (mem t) (mypd s) b = p" "present (mem t) (mypd s) b"
      using new_pte [OF al] that by (simp_all add: upage_def present_def m(1))
    then show ?thesis
      using m(2) PGROUNDDOWN_uphys [of "mem t" "mypd s" b] by simp
  qed
  have old: "present (mem t) (mypd s) b \<and> mem t (uphys (mem t) (mypd s) b) = mem s (uphys (mem s) (mypd s) b)"
    if b: "b < KERNBASE" "present (mem s) (mypd s) b" for b
  proof -
    have ne: "PGROUNDDOWN b \<noteq> PGROUNDDOWN va"
      using b(2) va(2) present_same_page by blast
    then have u: "uphys (mem t) (mypd s) b = uphys (mem s) (mypd s) b" "present (mem t) (mypd s) b"
      using b(2) by (simp_all add: uphys_def upage_def present_def m(1))
    have "PGROUNDDOWN (uphys (mem s) (mypd s) b) \<notin> tables (mem s) (mypd s) \<union> set xs"
      using as_wfD(4,5) [OF as b] by (simp add: PGROUNDDOWN_uphys)
    then show ?thesis
      using m(3) u by simp
  qed
  have "uload va s = Ok 0 t"
    using t va new [of va] r
    by (simp add: uload_def uaddr_def runs_def quiet_simps present_at_eq mypd_def procat_def not_le [symmetric])
  moreover have "set ys \<subset> set xs"
    using p by auto
  ultimately show ?thesis
    using t new old that by blast
qed

text \<open>C7: \<open>mmap\<close> allocates nothing: it returns the old size of the process and adds \<open>n\<close> to it.  The first access to an
  address that is not mapped then traps, and comes back with a page of zeroes of its own at this address;
  what the process had in memory keeps its place and value, and the invariants of page tables and free list hold.\<close>

theorem mmap_maps_on_first_access:
  assumes r: "runs i s" and sp: "aspace s xs" and len: "2 \<le> length xs" and va: "va < KERNBASE" "\<not> present (mem s) (mypd s) va"
  shows "\<exists>u t ys. mmap n s = Ok (sint (sz (procs s ! i))) u \<and> u = upd_proc i (\<lambda>q. q\<lparr>sz := sz q + word_of_int n\<rparr>) s \<and>
    uload va u = Ok 0 t \<and> runs i t \<and> aspace t ys \<and> set ys \<subset> set xs \<and>
    (\<forall>b. PGROUNDDOWN b = PGROUNDDOWN va \<longrightarrow> present (mem t) (mypd s) b \<and> mem t (uphys (mem t) (mypd s) b) = 0) \<and>
    (\<forall>b. b < KERNBASE \<longrightarrow> present (mem s) (mypd s) b \<longrightarrow>
      present (mem t) (mypd s) b \<and> mem t (uphys (mem t) (mypd s) b) = mem s (uphys (mem s) (mypd s) b))"
proof -
  let ?u = "upd_proc i (\<lambda>q. q\<lparr>sz := sz q + word_of_int n\<rparr>) s"
  have me: "cpu_ok (core s)" "me_proc s = Some i" "i < length (procs s)"
    using r by (simp_all add: runs_def)
  have mm: "mmap n s = Ok (sint (sz (procs s ! i))) ?u"
    using me by (simp add: mmap_def quiet_simps procat_def Let_def)
  have u: "core ?u = core s" "mem ?u = mem s" "kend ?u = kend s" "freelist ?u = freelist s" "use_lock ?u = use_lock s" "me_proc ?u = Some i"
    using me by (simp_all add: upd_proc_def me_proc_def)
  have pd: "mypd ?u = mypd s"
    using me u by (simp add: mypd_def procat_def) (simp add: upd_proc_def)
  have ru: "runs i ?u"
    using r u by (simp add: runs_def con_quiet_def con_ok_def) (simp add: upd_proc_def)
  have "as_wf ?u (mypd s) xs"
    by (rule as_wf_cong [of s]) (use sp u in \<open>simp_all add: aspace_def\<close>)
  then have su: "aspace ?u xs"
    using sp u pd by (simp add: aspace_def kmem_rep_def kmem_quiet_def free_list_def page_ok_def)
  have vu: "\<not> present (mem ?u) (mypd ?u) va"
    using va(2) u pd by simp
  obtain ys t where "uload va ?u = Ok 0 t" "runs i t" "procs t = procs ?u" "mypd t = mypd ?u" "aspace t ys" "set ys \<subset> set xs"
    "\<forall>b. PGROUNDDOWN b = PGROUNDDOWN va \<longrightarrow> present (mem t) (mypd ?u) b \<and> mem t (uphys (mem t) (mypd ?u) b) = 0"
    "\<forall>b. b < KERNBASE \<longrightarrow> present (mem ?u) (mypd ?u) b \<longrightarrow>
      present (mem t) (mypd ?u) b \<and> mem t (uphys (mem t) (mypd ?u) b) = mem ?u (uphys (mem ?u) (mypd ?u) b)"
    by (rule uload_fresh [OF ru su len va(1) vu])
  then show ?thesis
    using mm unfolding pd u(2) by blast
qed

text \<open>The sample state with an empty address space and two free pages.\<close>

definition sample_two :: kfile where
  "sample_two = sample\<lparr>mem := mem two_free, freelist := 0x80102000\<rparr>"

lemma sample_two_empty: "\<not> present (mem sample_two) pd va" if "pd = 0x80101000"
  using that by (simp add: sample_two_def present_def pte_def two_free_no_pt)

lemma sample_two_runs: "runs 0 sample_two" "mypd sample_two = 0x80101000"
  using sample_simps(2,3) sample_core_ok
  by (simp_all add: runs_def sample_two_def con_quiet_def con_ok_def me_proc_def mypd_def procat_def)
     (simp_all add: sample_def first_proc_def)

lemma sample_two_aspace: "aspace sample_two [0x80102000, 0x80103000]"
proof -
  have m: "mem sample_two = mem two_free" "kend sample_two = kend two_free" "freelist sample_two = freelist two_free"
    by (simp_all add: sample_two_def sample_simps two_free_def boot_con_def)
  have pok: "page_ok sample_two = page_ok two_free"
    by (simp add: fun_eq_iff page_ok_def m)
  have vw: "vm_wf sample_two 0x80101000 [0x80102000, 0x80103000]"
    using two_free_wf unfolding vm_wf_def m pok .
  have "kmem_quiet sample_two"
    by (simp add: kmem_quiet_def sample_two_def sample_simps sample_core_ok)
  then have "kmem_rep sample_two [0x80102000, 0x80103000]"
    using two_free_rep by (simp add: kmem_rep_def free_list_def m pok)
  moreover have "KERNBASE < kend sample_two"
    by (simp add: m two_free_def boot_con_def)
  ultimately show ?thesis
    using vw sample_two_empty by (simp add: aspace_def as_wf_def sample_two_runs)
qed

theorem mmap_maps_on_first_access_witness:
  "\<exists>u t. mmap 8192 sample_two = Ok 0x4000 u \<and> uload 0x5000 u = Ok 0 t \<and> present (mem t) 0x80101000 0x5000"
proof -
  have "sz (procs sample_two ! 0) = 0x4000"
    by (simp add: sample_two_def sample_def)
  then show ?thesis
    using mmap_maps_on_first_access [OF sample_two_runs(1) sample_two_aspace, of "0x5000" 8192] sample_two_empty
    unfolding sample_two_runs(2) by auto
qed

subsection \<open>Out of memory\<close>

text \<open>The page fault branch of \<open>trap\<close> when no page is free: it reports the failure and returns, and nothing but the console and
  the registers of the processor has changed.\<close>

definition no_memory_message :: "u8 list" where
  "no_memory_message = map of_char ''out of memory'' @ [10] @ map of_char ''Page Fault Handler (1 = success, 0 = fail): 0'' @ [10]"

lemma no_memory_chars:
  "map word_of_int (chars_of ''out of memory\<newline>'' []) @
   map word_of_int (chars_of ''Page Fault Handler (1 = success, 0 = fail): %d\<newline>'' [KInt (word_of_int 0)]) = no_memory_message"
  by (simp add: no_memory_message_def arg_word_def number_def digits_of.simps digit_char_def)

lemma pagefault_no_memory:
  assumes r: "runs i s" and sp: "aspace s []" and ua: "uart s"
  obtains t where "pagefault va s = Ok () t" "runs i t" "aspace t []" "procs t = procs s" "mem t = mem s" "mypd t = mypd s"
    "freelist t = freelist s" "uart t" "uartout t = uartout s @ no_memory_message"
proof -
  have r': "cpu_ok (core s)" "con_quiet s" "me_proc s = Some i" "i < length (procs s)" "kstack (procs s ! i) \<noteq> 0"
    and sp': "kmem_rep s []" "as_wf s (mypd s) []"
    using r sp by (simp_all add: runs_def aspace_def)
  have pd: "mypd s = pgdir (procs s ! i)"
    using r' by (simp add: mypd_def procat_def)
  obtain u where u: "cprintf ''out of memory\<newline>'' [] s = Ok () u" "con_same s u" "con_quiet u"
    "uartout u = uartout s @ map word_of_int (chars_of ''out of memory\<newline>'' [])"
    by (rule cprintf_sends [OF r'(2) ua])
  have uu: "uart u"
    using con_same_simps [OF u(2)] ua by simp
  obtain w where w: "cprintf ''Page Fault Handler (1 = success, 0 = fail): %d\<newline>'' [KInt (word_of_int 0)] u = Ok () w" "con_same u w" "con_quiet w"
    "uartout w = uartout u @ map word_of_int (chars_of ''Page Fault Handler (1 = success, 0 = fail): %d\<newline>'' [KInt (word_of_int 0)])"
    by (rule cprintf_sends [OF u(3) uu])
  note sw = con_same_trans [OF u(2) w(2)]
  have ws: "core w = core s" "procs w = procs s" "mem w = mem s" "kend w = kend s" "freelist w = freelist s"
    using con_same_simps [OF sw] sw by (auto simp: con_same_def)
  have "pgdir (procs w ! i) \<noteq> 0"
    using page_ok_nonzero vm_wfD(1) [OF as_wfD(1) [OF sp'(2)]] by (auto simp: ws pd)
  then obtain v g tk where sv: "switchuvm (Some i) w = Ok () (w\<lparr>core := reload v g tk (core w)\<rparr>)"
    using switchuvm_reload [of w i] r' ws by auto
  define t where "t = w\<lparr>core := reload v g tk (core w)\<rparr>"
  note rs = reload_same [OF r'(1), of v g tk]
  have ts: "core t = reload v g tk (core s)" "procs t = procs s" "mem t = mem s" "freelist t = freelist s" "uart t"
    using con_same_simps [OF sw] ua by (simp_all add: t_def ws)
  have out: "uartout t = uartout s @ no_memory_message"
    unfolding no_memory_chars [symmetric] by (simp add: t_def u(4) w(4))
  have me: "me_proc t = Some i"
    using r'(3) by (simp add: me_proc_def ts rs)
  have "page_fault_handler (mypd s) (PGROUNDDOWN va) s = Ok 0 u"
    using sp'(1) u(1) by (simp add: page_fault_handler_def kmem_rep_def kalloc_empty)
  then have f: "pagefault va s = Ok () t"
    using w(1) sv r' pd by (simp add: pagefault_def quiet_simps procat_def t_def)
  have rt: "runs i t"
    using r' me w(3) rs by (simp add: runs_def ts con_quiet_def) (simp add: t_def con_ok_def lock_free_def ws)
  have pd': "mypd t = mypd s"
    using me ts by (simp add: mypd_def procat_def r')
  have "as_wf t (mypd s) []"
    by (rule as_wf_cong [OF sp'(2)]) (simp_all add: t_def ws)
  moreover have "kmem_rep w []"
    using con_same_rep(1) [OF sw] sp'(1) by simp
  then have "kmem_rep t []"
    using rs by (simp add: kmem_rep_def kmem_quiet_def free_list_def ts lock_free_def) (simp add: t_def page_ok_def ws)
  ultimately show ?thesis
    using that [OF f rt _ ts(2,3) pd' ts(4,5) out] by (simp add: aspace_def pd')
qed

lemma as_wf_fewer:
  assumes "as_wf s pd xs" and "set ys \<subseteq> set xs"
  shows "as_wf s pd ys"
  using assms unfolding as_wf_def vm_wf_def by blast

definition sample_full :: kfile where
  "sample_full = sample\<lparr>freelist := 0\<rparr>"

lemma sample_full_ok:
  "runs 0 sample_full" "aspace sample_full []" "mypd sample_full = 0x80101000" "\<not> present (mem sample_full) 0x80101000 0x5000"
proof -
  have me: "me_proc sample_full = Some 0" "mypd sample_full = 0x80101000"
    using sample_simps(2,3) by (simp_all add: sample_full_def me_proc_def mypd_def procat_def)
  show "mypd sample_full = 0x80101000"
    by (rule me(2))
  show "runs 0 sample_full"
    unfolding runs_def me using sample_core_ok
    by (simp add: sample_full_def con_quiet_def con_ok_def) (simp add: sample_def first_proc_def)
  have "as_wf sample_full 0x80101000 [0x80103000]"
    by (rule as_wf_cong [OF sample_as_wf]) (simp_all add: sample_full_def)
  then have "as_wf sample_full 0x80101000 []"
    by (rule as_wf_fewer) simp
  then show "aspace sample_full []"
    by (simp add: aspace_def me kmem_rep_def kmem_quiet_def free_list_def) (simp add: sample_full_def sample_simps sample_core_ok)
  show "\<not> present (mem sample_full) 0x80101000 0x5000"
    by (simp add: sample_full_def sample_simps present_def one_mapped_pte PGROUNDDOWN_def)
qed

subsection \<open>Untouched pages and other parts of the kernel\<close>

text \<open>\<open>fork\<close> copies the address space up to its size page by page; the first page that was never touched stops the machine.\<close>

lemma copyuvm_untouched_panics:
  assumes "i < z" and "\<not> present (mem s) pd i"
  shows "\<exists>e. copyuvm_loop (Suc n) pd d z i s = Panic e"
  using assms by (simp add: walkpgdir_def Let_def present_def pte_def has_pt_def pdev_def ptab_def split: if_splits)

text \<open>C15: giving back all memory with \<open>sbrk\<close> frees the pages and yet reports an error, because the new size 0 is taken for a
  failure of \<open>deallocuvm\<close>.  Every page that was mapped below the size is back on the free list (\<open>ys\<close>, in front of what was
  free before) and no longer mapped; the call returns -1 without another change, so that the recorded size still covers
  the freed pages and the page table is not reloaded.\<close>

theorem growproc_to_zero_fails:
  assumes r: "runs i s" and sp: "aspace s xs" and z: "sz (procs s ! i) = of_nat n" "0 < n" "n \<le> 0x80000000"
  shows "\<exists>t ys. growproc (- int n) s = Ok (- 1) t \<and> t = s\<lparr>freelist := freelist t, mem := mem t\<rparr> \<and> sz (procs t ! i) = of_nat n \<and>
    set ys = upage (mem s) (mypd s) ` {va. PGROUNDDOWN va < of_nat n \<and> present (mem s) (mypd s) va} \<and>
    aspace t (ys @ xs) \<and> (\<forall>va. PGROUNDDOWN va < of_nat n \<longrightarrow> \<not> present (mem t) (mypd s) va)"
proof -
  have me: "cpu_ok (core s)" "me_proc s = Some i" and sp': "as_wf s (mypd s) xs" "kmem_rep s xs" and pd: "mypd s = pgdir (procs s ! i)"
    using r sp by (simp_all add: runs_def aspace_def mypd_def procat_def)
  have n: "unat (of_nat n :: u32) = n"
    using z by (simp add: unat_of_nat)
  have b: "sz (procs s ! i) \<le> KERNBASE" "0 < sz (procs s ! i)"
    using z n by (simp_all add: word_le_nat_alt word_less_nat_alt)
  obtain t ys where t: "deallocuvm (mypd s) (sz (procs s ! i)) 0 s = Ok 0 t"
    "shrunk s (mypd s) (urange (PGROUNDUP 0) (sz (procs s ! i))) t ys" "as_wf t (mypd s) (ys @ xs)" "kmem_rep t (ys @ xs)"
    by (rule deallocuvm_ok [OF sp' b])
  have ur: "urange (PGROUNDUP 0) (sz (procs s ! i)) = {va. PGROUNDDOWN va < of_nat n}"
    by (simp add: urange_def PGROUNDUP_def z)
  have "sz (procs s ! i) + word_of_int (- int n) = 0"
    using z by simp
  then have g: "growproc (- int n) s = Ok (- 1) t"
    using me z t(1) pd by (simp add: growproc_def quiet_simps Let_def)
  have st: "t = s\<lparr>freelist := freelist t, mem := mem t\<rparr>"
    using t(2) by (simp add: shrunk_def)
  have ts: "procs t = procs s" "core t = core s"
    by (subst st, simp)+
  then have "mypd t = mypd s"
    using me(2) by (simp add: mypd_def me_proc_def procat_def)
  then have "aspace t (ys @ xs)"
    using t(3,4) by (simp add: aspace_def)
  moreover have "set ys = upage (mem s) (mypd s) ` {va. PGROUNDDOWN va < of_nat n \<and> present (mem s) (mypd s) va}"
    using t(2) by (simp add: shrunk_def ur)
  moreover have "\<not> present (mem t) (mypd s) va" if "PGROUNDDOWN va < of_nat n" for va
    using t(2) that by (auto simp: shrunk_def ur present_def)
  moreover have "sz (procs t ! i) = of_nat n"
    by (simp only: ts z)
  ultimately show ?thesis
    using g st by blast
qed

lemma sample_runs: "runs 0 sample"
  unfolding runs_def sample_simps using sample_core_ok
  by (simp add: con_quiet_def con_ok_def) (simp add: sample_def first_proc_def)

lemma sample_rep: "kmem_rep sample [0x80103000]"
proof -
  have "page_ok sample = page_ok one_mapped" "freelist sample = freelist one_mapped"
    by (simp_all add: fun_eq_iff page_ok_def sample_simps one_mapped_def boot_con_def) (simp add: sample_def)
  moreover have "kmem_quiet sample"
    by (simp add: kmem_quiet_def sample_simps sample_core_ok)
  ultimately show ?thesis
    using one_mapped_rep by (simp add: kmem_rep_def free_list_def sample_simps)
qed

theorem growproc_to_zero_fails_witness:
  "\<exists>t ys. growproc (- 16384) sample = Ok (- 1) t \<and> sz (procs t ! 0) = 0x4000 \<and> set ys = {0x80104000} \<and> aspace t (ys @ [0x80103000])"
proof -
  have z: "sz (procs sample ! 0) = of_nat 16384"
    by (simp add: sample_def)
  have "aspace sample [0x80103000]"
    using sample_rep sample_as_wf by (simp add: aspace_def sample_simps(3))
  note g = growproc_to_zero_fails [OF sample_runs this z]
  have "{va. PGROUNDDOWN va < of_nat 16384 \<and> present (mem sample) 0x80101000 va} = {va. PGROUNDDOWN va = 0x3000}"
    by (auto simp: sample_simps(4) present_def one_mapped_pte)
  moreover have "upage (mem sample) 0x80101000 ` {va. PGROUNDDOWN va = 0x3000} = {0x80104000}"
  proof -
    have "upage (mem sample) 0x80101000 va = 0x80104000" if "PGROUNDDOWN va = 0x3000" for va
      using that by (simp add: upage_def sample_simps(4) one_mapped_pte P2V_def PTE_ADDR_def)
    moreover have "PGROUNDDOWN (0x3000 :: u32) = 0x3000"
      by (simp add: PGROUNDDOWN_def)
    ultimately show ?thesis
      by (auto intro!: image_eqI [of _ _ "0x3000"])
  qed
  ultimately show ?thesis
    using g unfolding sample_simps(3) by auto
qed

end
