(* ===== verification/Trap.thy ===== *)
theory Trap
  imports Sysfile
begin

section \<open>Traps and the system call table: trap.c, syscall.c and sysproc.c\<close>

text \<open>
  What comes from outside a trap handler is in the record \<open>trap_in\<close>: the faulting address (register \<open>cr2\<close>),
  the bytes that keyboard and serial port deliver, the call chains for \<open>procdump\<close> and the characters
  that the uninitialised pointer of \<open>sys_helloYou\<close> happens to point to when its argument cannot be fetched.
  \<open>lapiceoi\<close> acknowledges the interrupt and has no effect in the model.
\<close>

record trap_in =
  cr2 :: u32
  kbd_bytes :: "u8 list"
  uart_bytes :: "u8 list"
  call_chain :: "proc \<Rightarrow> u32 list"
  junk :: "u8 list"

definition tvinit :: "(nat \<Rightarrow> u32) \<Rightarrow> 'a kfile_scheme \<Rightarrow> 'a kfile_scheme" where
  "tvinit vectors s =
     (let t = map (\<lambda>i. SETGATE (idt s ! i) False 8 (vectors i) 0) [0..<256];
          t = t[64 := SETGATE (t ! 64) True 8 (vectors 64) 3] in
      s\<lparr>idt := t, core := initlock L_ticks (core s)\<rparr>)"

subsection \<open>System calls on processes\<close>

definition sys_kill :: "'a kfile_scheme \<Rightarrow> (int, 'a kfile_scheme) res" where
  "sys_kill s =
     bnd (argint 0 s) (\<lambda>r s.
     case r of None \<Rightarrow> Ok (- 1) s | Some n \<Rightarrow> kill (sint n) s)"

definition sys_getpid :: "'a kfile_scheme \<Rightarrow> (int, 'a kfile_scheme) res" where
  "sys_getpid s = bnd (cur s) (\<lambda>p s. Ok (pid (procat p s)) s)"

definition sys_sbrk :: "'a kfile_scheme \<Rightarrow> (int, 'a kfile_scheme) res" where
  "sys_sbrk s =
     bnd (argint 0 s) (\<lambda>r s.
     case r of None \<Rightarrow> Ok (- 1) s | Some n \<Rightarrow>
     bnd (cur s) (\<lambda>p s.
     let a = sint (sz (procat p s)) in
     bnd (growproc (sint n) s) (\<lambda>r s. Ok (if r < 0 then - 1 else a) s)))"

definition sleep_round :: "u32 \<Rightarrow> u32 \<Rightarrow> 'a kfile_scheme \<Rightarrow> (int, 'a kfile_scheme) res" where
  "sleep_round ticks0 n s =
     (if ticks s - ticks0 < n then
        bnd (cur s) (\<lambda>p s.
        if killed (procat p s) then bnd (on_core (release L_ticks) s) (\<lambda>_ s. Ok (- 1) s)
        else sleep Ch_ticks L_ticks s)
      else bnd (on_core (release L_ticks) s) (\<lambda>_ s. Ok 0 s))"

definition sys_sleep :: "'a kfile_scheme \<Rightarrow> (int, 'a kfile_scheme) res" where
  "sys_sleep s =
     bnd (argint 0 s) (\<lambda>r s.
     case r of None \<Rightarrow> Ok (- 1) s | Some n \<Rightarrow>
     bnd (on_core (acquire L_ticks) s) (\<lambda>_ s. sleep_round (ticks s) n s))"

definition sys_sleep_resume :: "u32 \<Rightarrow> u32 \<Rightarrow> 'a kfile_scheme \<Rightarrow> (int, 'a kfile_scheme) res" where
  "sys_sleep_resume ticks0 n s = bnd (sleep_resume L_ticks s) (\<lambda>_ s. sleep_round ticks0 n s)"

definition sys_uptime :: "'a kfile_scheme \<Rightarrow> (int, 'a kfile_scheme) res" where
  "sys_uptime s =
     bnd (on_core (acquire L_ticks) s) (\<lambda>_ s.
     let xticks = ticks s in
     bnd (on_core (release L_ticks) s) (\<lambda>_ s. Ok (sint xticks) s))"

definition sys_hello :: "'a kfile_scheme \<Rightarrow> (int, 'a kfile_scheme) res" where
  "sys_hello s = bnd (cprintf ''Hello\<newline>'' [] s) (\<lambda>_ s. Ok 0 s)"

definition sys_helloYou :: "u8 list \<Rightarrow> 'a kfile_scheme \<Rightarrow> (int, 'a kfile_scheme) res" where
  "sys_helloYou left s =
     bnd (argstr 0 s) (\<lambda>r s.
     bnd (cprintf ''%s\<newline>'' [KStr (Some (case r of None \<Rightarrow> left | Some (_, name) \<Rightarrow> name))] s) (\<lambda>_ s.
     Ok 0 s))"

definition sys_getNumProc :: "'a kfile_scheme \<Rightarrow> (int, 'a kfile_scheme) res" where
  "sys_getNumProc s = Ok (getNumProc s) s"

definition sys_showAncestry :: "'a kfile_scheme \<Rightarrow> (int, 'a kfile_scheme) res" where
  "sys_showAncestry s = bnd (showAncestry s) (\<lambda>_ s. Ok 0 s)"

definition sys_numvp :: "'a kfile_scheme \<Rightarrow> (int, 'a kfile_scheme) res" where
  "sys_numvp s = bnd (numvp s) (\<lambda>n s. Ok (sint n) s)"

definition sys_mmap :: "'a kfile_scheme \<Rightarrow> (int, 'a kfile_scheme) res" where
  "sys_mmap s =
     bnd (argint 0 s) (\<lambda>r s.
     case r of None \<Rightarrow> Ok 0 s | Some w \<Rightarrow>
     let n = sint w in
     if n < 0 \<or> n mod 4096 \<noteq> 0 then Ok 0 s else mmap n s)"

subsection \<open>Dispatch\<close>

definition syscalls :: "u8 list \<Rightarrow> int \<Rightarrow> ('a kfile_scheme \<Rightarrow> (int, 'a kfile_scheme) res) option" where
  "syscalls left n = map_of
     [(1, fork), (2, exit), (3, wait), (4, sys_pipe), (5, sys_read), (6, sys_kill), (7, sys_exec),
      (8, sys_fstat), (9, sys_chdir), (10, sys_dup), (11, sys_getpid), (12, sys_sbrk), (13, sys_sleep),
      (14, sys_uptime), (15, sys_open), (16, sys_write), (17, sys_mknod), (18, sys_unlink),
      (19, sys_link), (20, sys_mkdir), (21, sys_close), (22, sys_hello), (23, sys_helloYou left),
      (24, sys_getNumProc), (25, sys_showAncestry), (26, sys_numvp), (27, numpp), (28, sys_mmap)] n"

definition set_eax :: "nat option \<Rightarrow> int \<Rightarrow> 'a kfile_scheme \<Rightarrow> 'a kfile_scheme" where
  "set_eax p v s = upd_proc (the p) (\<lambda>q. q\<lparr>tf := (tf q)\<lparr>t_eax := word_of_int v\<rparr>\<rparr>) s"

definition syscall :: "u8 list \<Rightarrow> 'a kfile_scheme \<Rightarrow> (unit, 'a kfile_scheme) res" where
  "syscall left s =
     bnd (cur s) (\<lambda>p s.
     let num = sint (t_eax (tf (procat p s))) in
     case syscalls left num of
       Some f \<Rightarrow> bnd (f s) (\<lambda>v s. Ok () (set_eax p v s))
     | None \<Rightarrow>
         bnd (cprintf ''%d %s: unknown sys call %d\<newline>''
                [KInt (word_of_int (pid (procat p s))), KStr (Some (pname (procat p s))), KInt (word_of_int num)] s) (\<lambda>_ s.
         Ok () (set_eax p (- 1) s)))"

subsection \<open>Traps\<close>

definition timer_tick :: "'a kfile_scheme \<Rightarrow> (unit, 'a kfile_scheme) res" where
  "timer_tick s =
     bnd (on_core cpuid s) (\<lambda>c s.
     if c = 0 then
       bnd (on_core (acquire L_ticks) s) (\<lambda>_ s.
       let s = s\<lparr>ticks := ticks s + 1\<rparr> in
       bnd (wakeup Ch_ticks s) (\<lambda>_ s.
       on_core (release L_ticks) s))
     else Ok () s)"

definition trap_other :: "trap_in \<Rightarrow> trapframe \<Rightarrow> 'a kfile_scheme \<Rightarrow> (unit, 'a kfile_scheme) res" where
  "trap_other inp t s =
     bnd (cur s) (\<lambda>p s.
     bnd (on_core cpuid s) (\<lambda>c s.
     if p = None \<or> t_cs t AND 3 = 0 then
       bnd (cprintf ''unexpected trap %d from cpu %d eip %x (cr2=0x%x)\<newline>''
              [KInt (trapno t), KInt (of_nat c), KInt (t_eip t), KInt (cr2 inp)] s) (\<lambda>_ s.
       Panic ''trap'')
     else
       bnd (cprintf ''pid %d %s: trap %d err %d on cpu %d eip 0x%x addr 0x%x--kill proc\<newline>''
              [KInt (word_of_int (pid (procat p s))), KStr (Some (pname (procat p s))), KInt (trapno t),
               KInt (t_err t), KInt (of_nat c), KInt (t_eip t), KInt (cr2 inp)] s) (\<lambda>_ s.
       Ok () (upd_proc (the p) (\<lambda>q. q\<lparr>killed := True\<rparr>) s))))"

definition trap_switch :: "trap_in \<Rightarrow> trapframe \<Rightarrow> 'a kfile_scheme \<Rightarrow> (unit, 'a kfile_scheme) res" where
  "trap_switch inp t s =
     (let n = trapno t in
      if n = 32 then timer_tick s
      else if n = 46 then Ok () (ideintr s)
      else if n = 47 then Ok () s
      else if n = 33 then kbdintr (kbd_bytes inp) (call_chain inp) s
      else if n = 36 then uartintr (uart_bytes inp) (call_chain inp) s
      else if n = 39 \<or> n = 63 then
        bnd (on_core cpuid s) (\<lambda>c s.
        cprintf ''cpu%d: spurious interrupt at %x:%x\<newline>'' [KInt (of_nat c), KInt (ucast (t_cs t)), KInt (t_eip t)] s)
      else if n = 14 then pagefault (cr2 inp) s
      else trap_other inp t s)"

definition exit_if_killed :: "trapframe \<Rightarrow> 'a kfile_scheme \<Rightarrow> (unit, 'a kfile_scheme) res" where
  "exit_if_killed t s =
     bnd (cur s) (\<lambda>p s.
     if p \<noteq> None \<and> killed (procat p s) \<and> t_cs t AND 3 = 3 then exit s else Ok () s)"

definition trap :: "trap_in \<Rightarrow> trapframe \<Rightarrow> 'a kfile_scheme \<Rightarrow> (unit, 'a kfile_scheme) res" where
  "trap inp t s =
     (if trapno t = 64 then
        bnd (cur s) (\<lambda>p s.
        bnd (if killed (procat p s) then exit s else Ok () s) (\<lambda>_ s.
        let s = upd_proc (the p) (\<lambda>q. q\<lparr>tf := t\<rparr>) s in
        bnd (syscall (junk inp) s) (\<lambda>_ s.
        if killed (procat p s) then exit s else Ok () s)))
      else
        bnd (trap_switch inp t s) (\<lambda>_ s.
        bnd (exit_if_killed t s) (\<lambda>_ s.
        bnd (cur s) (\<lambda>p s.
        bnd (if p \<noteq> None \<and> pstate (procat p s) = RUNNING \<and> trapno t = 32 then yield s else Ok () s) (\<lambda>_ s.
        exit_if_killed t s)))))"

text \<open>What a trap handler that has yielded the processor does when it runs again.\<close>

definition trap_resume :: "trapframe \<Rightarrow> 'a kfile_scheme \<Rightarrow> (unit, 'a kfile_scheme) res" where
  "trap_resume t s = bnd (yield_resume s) (\<lambda>_ s. exit_if_killed t s)"

end
