(* ===== verification/Entry.thy ===== *)
theory Entry
  imports Trap Sample
begin

section \<open>Entering the kernel: gates, system calls and their arguments\<close>

text \<open>
  The lemmas about the way into the kernel: the interrupt descriptor table that \<open>tvinit\<close> builds, the dispatch of
  system calls, and what the checks of \<open>argptr\<close> are worth.
\<close>

subsection \<open>The interrupt descriptor table\<close>

lemma SETGATE_simps [simp]:
  "gd_cs (SETGATE g t sel off d) = sel" "gd_dpl (SETGATE g t sel off d) = d" "gd_p (SETGATE g t sel off d) = 1"
  "gd_type (SETGATE g t sel off d) = (if t then STS_TG32 else STS_IG32)" "gd_s (SETGATE g t sel off d) = 0"
  by (simp_all add: SETGATE_def)

text \<open>C18: after \<open>tvinit\<close> the table has 256 well-formed gates: gate \<open>i\<close> is present, a system descriptor, leads to vector \<open>i\<close>
  in the kernel's code segment, is an interrupt gate that only the kernel may call, except the system call gate
  64, which is a trap gate that user code may call.\<close>

theorem tvinit_gates:
  assumes "i < 256"
  shows "length (idt (tvinit vectors s)) = 256 \<and>
    (let g = idt (tvinit vectors s) ! i in
       gd_p g = 1 \<and> gd_s g = 0 \<and> gd_cs g = 8 \<and> gate_off g = vectors i \<and>
       (if i = 64 then gd_type g = STS_TG32 \<and> gd_dpl g = 3 else gd_type g = STS_IG32 \<and> gd_dpl g = 0))"
  using assms by (simp add: tvinit_def Let_def gate_off_SETGATE nth_list_update)

theorem tvinit_gates_witness:
  "gd_dpl (idt (tvinit (\<lambda>i. 0x80100000 + of_nat i) sample) ! 64) = 3 \<and> gd_dpl (idt (tvinit (\<lambda>i. 0x80100000 + of_nat i) sample) ! 32) = 0"
  using tvinit_gates [of 64 "\<lambda>i. 0x80100000 + of_nat i" sample] tvinit_gates [of 32 "\<lambda>i. 0x80100000 + of_nat i" sample]
  by (simp add: Let_def)

subsection \<open>Dispatch\<close>

lemma syscalls_None: "syscalls l n = None \<longleftrightarrow> n < 1 \<or> 28 < n"
proof -
  have "syscalls l n = None \<longleftrightarrow> n \<notin> set [1..28]"
    unfolding syscalls_def map_of_eq_None_iff by (simp add: upto.simps)
  then show ?thesis
    by auto
qed

text \<open>The bytes of the message about an unknown call \<open>n\<close>: the pid in decimal, a blank, the name up to its null byte, the fixed
  text, the number in decimal with its sign, and a newline.\<close>

definition unknown_call_message :: "proc \<Rightarrow> u32 \<Rightarrow> u8 list" where
  "unknown_call_message p n =
     map word_of_int (number (word_of_int (pid p)) 10 True) @ [32] @ takeWhile (\<lambda>b. b \<noteq> 0) (pname p) @
     map of_char '': unknown sys call '' @ map word_of_int (number n 10 True) @ [10]"

lemma unknown_call_chars:
  "map word_of_int (chars_of ''%d %s: unknown sys call %d\<newline>''
     [KInt (word_of_int (pid p)), KStr (Some (pname p)), KInt n]) = unknown_call_message p n"
  by (simp add: unknown_call_message_def arg_word_def arg_str_def comp_def)

text \<open>C19: a system call number that the table does not have, negative ones included, is answered with -1: \<open>syscall\<close> returns, and
  the state differs from the one before in exactly two ways: the message with pid, name and number has gone
  to the console, that is to the serial line and to the screen, and the saved \<open>eax\<close> of the caller is -1.\<close>

theorem syscall_unknown_number:
  fixes s :: "'a kfile_scheme"
  assumes me: "cpu_ok (core s)" "con_quiet s" "uart s" "me_proc s = Some i"
    and n: "n = sint (t_eax (tf (procs s ! i)))" "n < 1 \<or> 28 < n"
  shows "\<exists>b c. syscall j s = Ok () (s\<lparr>
    uartout := uartout s @ unknown_call_message (procs s ! i) (t_eax (tf (procs s ! i))), cga_pos := b, crt := c,
    procs := (procs s)[i := (procs s ! i)\<lparr>tf := (tf (procs s ! i))\<lparr>t_eax := - 1\<rparr>\<rparr>]\<rparr>)"
proof -
  have w: "word_of_int n = t_eax (tf (procs s ! i))"
    by (simp add: n(1))
  obtain t where t: "cprintf ''%d %s: unknown sys call %d\<newline>''
      [KInt (word_of_int (pid (procs s ! i))), KStr (Some (pname (procs s ! i))), KInt (word_of_int n)] s = Ok () t" "con_same s t"
    and out: "uartout t = uartout s @ unknown_call_message (procs s ! i) (t_eax (tf (procs s ! i)))"
    unfolding w unknown_call_chars [symmetric] by (rule cprintf_sends [OF me(2,3)])
  from t(2) obtain a b c where abc: "t = s\<lparr>uartout := a, cga_pos := b, crt := c\<rparr>"
    by (auto simp: con_same_def)
  have "(syscalls j n :: ('a kfile_scheme \<Rightarrow> (int, 'a kfile_scheme) res) option) = None"
    using n(2) by (simp only: syscalls_None)
  then have "syscall j s = Ok () (set_eax (Some i) (- 1) t)"
    using me n t(1) by (simp add: syscall_def quiet_simps procat_def Let_def)
  also have "set_eax (Some i) (- 1) t = s\<lparr>
      uartout := uartout s @ unknown_call_message (procs s ! i) (t_eax (tf (procs s ! i))), cga_pos := b, crt := c,
      procs := (procs s)[i := (procs s ! i)\<lparr>tf := (tf (procs s ! i))\<lparr>t_eax := - 1\<rparr>\<rparr>]\<rparr>"
    using out by (simp add: set_eax_def upd_proc_def abc)
  finally show ?thesis
    by blast
qed

theorem syscall_unknown_number_witness:
  "\<exists>t. syscall [] sample = Ok () t \<and> t_eax (tf (procs t ! 0)) = - 1 \<and>
    uartout t = map of_char ''1 : unknown sys call 0'' @ [10]"
proof -
  have q: "con_quiet sample" "uart sample" "sint (t_eax (tf (procs sample ! 0))) = 0"
    using sample_core_ok by (simp_all add: con_quiet_def con_ok_def sample_def first_proc_def zero_proc_def zero_tf_def)
  have m: "unknown_call_message (procs sample ! 0) (t_eax (tf (procs sample ! 0))) = map of_char ''1 : unknown sys call 0'' @ [10]"
    "uartout sample = []" "0 < length (procs sample)"
    by (simp_all add: unknown_call_message_def sample_def first_proc_def zero_proc_def zero_tf_def number_def digits_of.simps digit_char_def)
  then show ?thesis
    using syscall_unknown_number [of sample 0 0 "[]"] q sample_core_ok(1) by (auto simp: sample_simps)
qed

subsection \<open>Pointer arguments\<close>

lemma uread_ok: "cpu_ok (core s) \<Longrightarrow> ubuf s va n \<Longrightarrow> uread va n s = Ok (ubytes s va n) s"
proof (induction n arbitrary: va)
  case 0
  then show ?case
    by (simp add: ubytes_def)
next
  case (Suc n)
  then show ?case
    by (simp add: ubuf_Suc uload_ok ubytes_Suc)
qed

lemma uint_add_int:
  fixes a :: u32
  assumes "0 \<le> n" and "uint a + n < 2 ^ 32"
  shows "uint (a + word_of_int n) = uint a + n"
proof -
  have "n < 2 ^ 32"
    using assms(2) uint_ge_0 [of a] by linarith
  then have "uint (word_of_int n :: u32) = n"
    using assms(1) by (simp add: uint_word_of_int)
  then show ?thesis
    using assms by (simp add: uint_word_ariths uint_ge_0)
qed

text \<open>C16: when \<open>argptr\<close> accepts a pointer for \<open>len\<close> bytes and the process is not larger than user space, the whole
  buffer lies inside the process: the sum that \<open>argptr\<close> compares does not wrap, and no kernel address passes.\<close>

theorem argptr_in_bounds:
  assumes me: "cpu_ok (core s)" "me_proc s = Some i" and len: "len < 2 ^ 31"
    and a: "argptr n len s = Ok (Some a) t" and sz: "sz (procs t ! i) \<le> KERNBASE"
  shows "0 \<le> len \<and> uint a + len \<le> uint (sz (procs t ! i)) \<and> a < KERNBASE"
proof -
  have c: "0 \<le> len" "a < sz (procs t ! i)" "a + word_of_int len \<le> sz (procs t ! i)"
    using a me by (auto simp: argptr_def quiet_simps procat_def not_le not_less elim!: bnd_OkE split: option.splits if_splits)
  then have b: "a < KERNBASE"
    using sz by simp
  then have "uint (a + word_of_int len) = uint a + len"
    using c(1) len by (intro uint_add_int) (simp_all add: word_less_def)
  then show ?thesis
    using b c by (simp add: word_le_def)
qed

lemma argint_ok:
  assumes "cpu_ok (core s)" and "me_proc s = Some i" and "adr = t_esp (tf (procs s ! i)) + 4 + 4 * of_nat n"
    and "adr < sz (procs s ! i)" "adr + 4 \<le> sz (procs s ! i)" "ubuf s adr 4"
  shows "argint n s = Ok (Some (get32 (ubytes s adr 4) 0)) s"
  using assms by (simp add: argint_def fetchint_def quiet_simps procat_def uread_ok not_le not_less)

text \<open>C17: once a process has called \<open>mmap\<close> often enough to be larger than user space, \<open>argptr\<close> accepts kernel addresses:
  every pointer below the new size passes, and the kernel's access to it goes to kernel memory.\<close>

theorem mmap_admits_kernel_pointers:
  assumes me: "cpu_ok (core s)" "me_proc s = Some i" "i < length (procs s)"
    and arg: "adr = t_esp (tf (procs s ! i)) + 4 + 4 * of_nat n" "adr + 4 \<le> sz (procs s ! i)" "adr < adr + 4" "ubuf s adr 4"
      "a = get32 (ubytes s adr 4) 0"
    and m: "0 \<le> m" "m < 2 ^ 31" "uint (sz (procs s ! i)) + m < 2 ^ 32"
    and a: "KERNBASE \<le> a" "0 \<le> len" "0 < m" "uint a + len < uint (sz (procs s ! i)) + m"
  shows "\<exists>u. mmap m s = Ok (sint (sz (procs s ! i))) u \<and> argptr n len u = Ok (Some a) u \<and> uaddr a u = Ok a u"
proof -
  let ?u = "upd_proc i (\<lambda>q. q\<lparr>sz := sz q + word_of_int m\<rparr>) s"
  have mm: "mmap m s = Ok (sint (sz (procs s ! i))) ?u"
    using me by (simp add: mmap_def quiet_simps procat_def Let_def)
  have u: "core ?u = core s" "mem ?u = mem s" "me_proc ?u = Some i" "tf (procs ?u ! i) = tf (procs s ! i)"
    "sz (procs ?u ! i) = sz (procs s ! i) + word_of_int m" "pgdir (procs ?u ! i) = pgdir (procs s ! i)"
    using me by (simp_all add: upd_proc_def me_proc_def)
  have b: "mypd ?u = mypd s"
    using me(2) u by (simp add: mypd_def procat_def)
  then have bb: "ubuf ?u adr 4" "ubytes ?u adr 4 = ubytes s adr 4"
    using arg(4) u(2) by (simp_all only: ubuf_def ubytes_def)
  have z: "uint (sz (procs s ! i) + word_of_int m) = uint (sz (procs s ! i)) + m"
    using m(1,3) by (rule uint_add_int)
  have big: "adr < sz (procs ?u ! i)" "adr + 4 \<le> sz (procs ?u ! i)"
    using arg(2,3) a(3) unfolding u(5) word_less_def word_le_def z by linarith+
  have "uint (a + word_of_int len) = uint a + len"
    using a m by (intro uint_add_int) simp_all
  then have ok: "a < sz (procs ?u ! i)" "a + word_of_int len \<le> sz (procs ?u ! i)"
    using a(2,4) unfolding u(5) word_less_def word_le_def z by linarith+
  have "argint n ?u = Ok (Some a) ?u"
    using argint_ok [of ?u i adr n] me(1) u arg(1,5) big bb by simp
  then have "argptr n len ?u = Ok (Some a) ?u"
    using me(1) u(1,3) ok a(2) by (simp add: argptr_def quiet_simps procat_def not_le not_less)
  then show ?thesis
    using mm a(1) by (simp add: uaddr_def)
qed

text \<open>The sample process with a word \<open>v\<close>, given as its four bytes, as the argument of a system call.\<close>

definition sample_arg :: "u8 list \<Rightarrow> kfile" where
  "sample_arg bs = upd_proc 0 (\<lambda>q. q\<lparr>tf := (tf q)\<lparr>t_esp := 0x3000\<rparr>\<rparr>) (sample\<lparr>mem := uput (mem sample) 0x80101000 0x3004 bs\<rparr>)"

lemma sample_arg_simps:
  "core (sample_arg bs) = sample_core" "me_proc (sample_arg bs) = Some 0" "0 < length (procs (sample_arg bs))"
  "t_esp (tf (procs (sample_arg bs) ! 0)) = 0x3000" "sz (procs (sample_arg bs) ! 0) = 0x4000" "mypd (sample_arg bs) = 0x80101000"
  "mem (sample_arg bs) = uput (mem sample) 0x80101000 0x3004 bs"
  using sample_core_ok(5)
  by (simp_all add: sample_arg_def upd_proc_def me_proc_def mypd_def procat_def) (simp_all add: sample_def first_proc_def)

lemma sample_arg_buf:
  assumes "length bs = 4"
  shows "ubuf (sample_arg bs) 0x3004 4" and "ubytes (sample_arg bs) 0x3004 4 = bs"
proof -
  have n: "umapped (mem sample) 0x80101000 0x3004 (length bs)"
  proof -
    have "ubuf sample 0x3000 8"
      by (rule sample_ubuf) simp
    then have "0x3000 + of_nat (4 + k) < KERNBASE \<and> present (mem sample) 0x80101000 (0x3000 + of_nat (4 + k))" if "k < 4" for k
      using that unfolding ubuf_def sample_simps by (metis add_less_cancel_left numeral_Bit0)
    then show ?thesis
      using assms by (simp add: umapped_def add.assoc [symmetric])
  qed
  have l: "length bs < 2 ^ 32"
    using assms by simp
  show "ubytes (sample_arg bs) 0x3004 4 = bs"
    using ubytes_uput [OF sample_as_wf n l sample_arg_simps(7,6)] assms by simp
  have "present (mem (sample_arg bs)) 0x80101000 = present (mem sample) 0x80101000"
    using uput_ok [OF sample_as_wf n l] by (simp add: sample_arg_simps)
  then show "ubuf (sample_arg bs) 0x3004 4"
    using n assms unfolding ubuf_umapped sample_arg_simps by (simp add: umapped_def sample_arg_simps)
qed

theorem argptr_in_bounds_witness:
  "argptr 0 16 (sample_arg [0, 0x20, 0, 0]) = Ok (Some 0x2000) (sample_arg [0, 0x20, 0, 0]) \<and> uint (0x2000 :: u32) + 16 \<le> 0x4000"
proof -
  let ?s = "sample_arg [0, 0x20, 0, 0]"
  have "argint 0 ?s = Ok (Some (get32 (ubytes ?s 0x3004 4) 0)) ?s"
    by (rule argint_ok [of _ 0]) (simp_all add: sample_arg_simps sample_core_ok sample_arg_buf)
  then have "argptr 0 16 ?s = Ok (Some 0x2000) ?s"
    by (simp add: argptr_def quiet_simps sample_arg_simps sample_core_ok procat_def sample_arg_buf get32_def word32_def)
  moreover from this have "uint (0x2000 :: u32) + 16 \<le> 0x4000"
    using argptr_in_bounds [of ?s 0 16 0 "0x2000" ?s] by (simp add: sample_arg_simps sample_core_ok)
  ultimately show ?thesis
    by simp
qed

theorem mmap_admits_kernel_pointers_witness:
  "\<exists>u. mmap 0x7FFFF000 (sample_arg [0, 0, 0, 0x80]) = Ok 0x4000 u \<and> argptr 0 16 u = Ok (Some 0x80000000) u"
proof -
  let ?s = "sample_arg [0, 0, 0, 0x80]"
  have "get32 (ubytes ?s 0x3004 4) 0 = 0x80000000" "ubuf ?s 0x3004 4"
    by (simp_all add: sample_arg_buf get32_def word32_def)
  then show ?thesis
    using mmap_admits_kernel_pointers [of ?s 0 "0x3004" 0 "0x80000000" "0x7FFFF000" 16] sample_arg_simps(3)
    by (auto simp: sample_arg_simps(1,2,4-) sample_core_ok)
qed

end
