(* ===== verification/Refault.thy ===== *)
theory Refault
  imports Lazy Entry
begin

section \<open>Page faults without memory\<close>

text \<open>
  What \<open>trap()\<close> makes of a page fault when no page is free.  The processor repeats the instruction that faulted as soon as
  \<open>trap()\<close> returns; \<open>traps\<close> is the sequence of the \<open>n\<close> traps that this leads to when nothing else runs in between.
\<close>

fun traps :: "trap_in \<Rightarrow> trapframe \<Rightarrow> nat \<Rightarrow> 'a kfile_scheme \<Rightarrow> (unit, 'a kfile_scheme) res" where
  "traps inp t 0 s = Ok () s"
| "traps inp t (Suc n) s = bnd (trap inp t s) (\<lambda>_ s. traps inp t n s)"

lemma exit_if_killed_skip:
  assumes "runs i s" and "\<not> killed (procs s ! i)"
  shows "exit_if_killed t s = Ok () s"
  using assms by (simp add: exit_if_killed_def runs_def quiet_simps procat_def)

lemma trap_no_memory:
  assumes "runs i s" and "aspace s []" and "uart s" and "\<not> killed (procs s ! i)" and "trapno t = 14"
  obtains u where "trap inp t s = Ok () u" "runs i u" "aspace u []" "procs u = procs s" "mem u = mem s" "mypd u = mypd s"
    "freelist u = freelist s" "uart u" "uartout u = uartout s @ no_memory_message"
proof -
  obtain u where u: "pagefault (cr2 inp) s = Ok () u" "runs i u" "aspace u []" "procs u = procs s" "mem u = mem s" "mypd u = mypd s"
    "freelist u = freelist s" "uart u" "uartout u = uartout s @ no_memory_message"
    by (rule pagefault_no_memory [OF assms(1-3)])
  have e: "exit_if_killed t u = Ok () u"
    using exit_if_killed_skip [OF u(2)] assms(4) u(4) by simp
  have "cur u = Ok (Some i) u"
    using u(2) by (simp add: runs_def quiet_simps)
  then have "trap inp t s = Ok () u"
    using assms(5) u(1) e by (simp add: trap_def trap_switch_def)
  then show ?thesis
    using that u by blast
qed

text \<open>C14: when no page is free, \<open>trap()\<close> gives a process no way forward from a page fault, and no way out: it neither supplies the page nor
  kills the process.  However often the access is repeated while nothing else runs, every trap reports the failure on the
  console and returns; the process table is as before, the process still on its processor and not killed, memory and free
  list are unchanged, the invariants hold, and the page is still missing, so that the access faults again.\<close>

theorem fault_without_memory_repeats:
  assumes r: "runs i s" and sp: "aspace s []" and ua: "uart s" and k: "\<not> killed (procs s ! i)" and tn: "trapno t = 14"
    and va: "cr2 inp = va" "\<not> present (mem s) (mypd s) va"
  shows "\<exists>u. traps inp t n s = Ok () u \<and> procs u = procs s \<and> me_proc u = Some i \<and> \<not> killed (procs u ! i) \<and>
    mem u = mem s \<and> freelist u = freelist s \<and> runs i u \<and> aspace u [] \<and> \<not> present (mem u) (mypd u) va \<and>
    uartout u = uartout s @ concat (replicate n no_memory_message)"
  using r sp ua k va(2)
proof (induction n arbitrary: s)
  case 0
  then show ?case
    by (simp add: runs_def)
next
  case (Suc n)
  obtain w where w: "trap inp t s = Ok () w" "runs i w" "aspace w []" "procs w = procs s" "mem w = mem s" "mypd w = mypd s"
    "freelist w = freelist s" "uart w" "uartout w = uartout s @ no_memory_message"
    by (rule trap_no_memory [OF Suc.prems(1-4) tn])
  have "\<not> killed (procs w ! i)" "\<not> present (mem w) (mypd w) va"
    using Suc.prems w by simp_all
  from Suc.IH [OF w(2,3,8) this] show ?case
    using w by simp
qed

theorem fault_without_memory_repeats_witness:
  "\<exists>u. traps \<lparr>cr2 = 0x5000, kbd_bytes = [], uart_bytes = [], call_chain = \<lambda>_. [], junk = []\<rparr> (zero_tf\<lparr>trapno := 14\<rparr>) 3 sample_full = Ok () u \<and>
    procs u = procs sample_full \<and> \<not> present (mem u) 0x80101000 0x5000 \<and> uartout u = concat (replicate 3 no_memory_message)"
proof -
  have s: "uart sample_full" "\<not> killed (procs sample_full ! 0)" "uartout sample_full = []"
    by (simp_all add: sample_full_def sample_def first_proc_def zero_proc_def)
  show ?thesis
    using fault_without_memory_repeats [OF sample_full_ok(1,2) s(1,2), of "zero_tf\<lparr>trapno := 14\<rparr>"
        "\<lparr>cr2 = 0x5000, kbd_bytes = [], uart_bytes = [], call_chain = \<lambda>_. [], junk = []\<rparr>" "0x5000" 3] sample_full_ok(3,4) s(3)
    by (auto simp: mypd_def runs_def)
qed

end
