(* ===== verification/Fsdata.thy ===== *)
theory Fsdata
  imports Dir
begin

section \<open>Names, paths and inodes on disk\<close>

text \<open>
  What the file system stores comes back: directory entries with names cut to 14 bytes, the fields of an
  inode among the eight inodes of a block, and the elements of a path.
\<close>

subsection \<open>Directory entries\<close>

text \<open>C24: the entry that \<open>dirlink\<close> writes for a name has 16 bytes, gives back the inode number, and \<open>namecmp\<close>
  finds it under exactly the names that agree with the name in the first 14 bytes, up to the terminating zero.\<close>

theorem dirent_roundtrip:
  "length (mk_dirent inum (strncpy name DIRSIZ)) = 16 \<and> de_inum (mk_dirent inum (strncpy name DIRSIZ)) = inum \<and>
   (namecmp q (str_of (de_name (mk_dirent inum (strncpy name DIRSIZ)))) = 0 \<longleftrightarrow> cstr DIRSIZ q = cstr DIRSIZ name)"
proof -
  have "de_name (mk_dirent inum (strncpy name DIRSIZ)) = strncpy name DIRSIZ"
    by (simp add: de_name_def mk_dirent_def)
  moreover have "de_inum (mk_dirent inum (strncpy name DIRSIZ)) = inum"
    by (simp add: de_inum_def mk_dirent_def get16_def bytes16_def)
  ultimately show ?thesis
    by (simp only: namecmp_def strncmp_eq_0 cstr_strncpy) (simp add: mk_dirent_def)
qed

subsection \<open>Inodes in a block\<close>

definition same_dinode :: "inode \<Rightarrow> inode \<Rightarrow> bool" where
  "same_dinode x y \<longleftrightarrow> i_type x = i_type y \<and> i_major x = i_major y \<and> i_minor x = i_minor y \<and> i_nlink x = i_nlink y \<and>
     i_size x = i_size y \<and> i_addrs x = i_addrs y"

lemma length_concat32 [simp]: "length (concat (map bytes32 xs)) = 4 * length xs"
  by (induction xs) simp_all

lemma get32_concat: "k < length xs \<Longrightarrow> get32 (concat (map bytes32 xs)) (4 * k) = xs ! k"
proof (induction xs arbitrary: k)
  case (Cons x xs)
  have sh: "get32 (bytes32 x @ ys) (4 + j) = get32 ys j" for ys j
    by (simp add: get32_def nth_append add.commute)
  show ?case
  proof (cases k)
    case 0
    then show ?thesis
      by (simp add: get32_def nth_append bytes32_def)
  next
    case (Suc j)
    then show ?thesis
      using Cons sh [of "concat (map bytes32 xs)" "4 * j"] by simp
  qed
qed simp

lemma length_put_dinode:
  assumes "off + 64 \<le> length d" and "length (i_addrs x) = NDIRECT + 1"
  shows "length (put_dinode x off d) = length d"
  using assms by (simp add: put_dinode_def Let_def)

text \<open>The stores of the fields are together one store of 64 bytes.\<close>

definition dinode_bytes :: "inode \<Rightarrow> u8 list" where
  "dinode_bytes x = bytes16 (i_type x) @ bytes16 (i_major x) @ bytes16 (i_minor x) @ bytes16 (i_nlink x) @ bytes32 (i_size x) @
     concat (map bytes32 (i_addrs x))"

lemma overlay_adjacent:
  assumes "k = i + length ys" and "i + length ys + length zs \<le> length xs"
  shows "overlay k zs (overlay i ys xs) = overlay i (ys @ zs) xs"
  using assms by (simp add: overlay_def ac_simps)

lemma put_dinode_overlay:
  assumes "off + 64 \<le> length d" and "length (i_addrs x) = NDIRECT + 1"
  shows "put_dinode x off d = overlay off (dinode_bytes x) d" and "length (dinode_bytes x) = 64"
proof -
  have e: "overlay (off + 2) b (overlay off a d) = overlay off (a @ b) d" if "length a = 2" "length b = 2" for a b
    using that assms by (intro overlay_adjacent) simp_all
  have e4: "overlay (off + 4) b (overlay off a d) = overlay off (a @ b) d" if "length a = 4" "length b = 2" for a b
    using that assms by (intro overlay_adjacent) simp_all
  have e6: "overlay (off + 6) b (overlay off a d) = overlay off (a @ b) d" if "length a = 6" "length b = 2" for a b
    using that assms by (intro overlay_adjacent) simp_all
  have e8: "overlay (off + 8) b (overlay off a d) = overlay off (a @ b) d" if "length a = 8" "length b = 4" for a b
    using that assms by (intro overlay_adjacent) simp_all
  have e12: "overlay (off + 12) b (overlay off a d) = overlay off (a @ b) d" if "length a = 12" "length b = 52" for a b
    using that assms by (intro overlay_adjacent) simp_all
  show "put_dinode x off d = overlay off (dinode_bytes x) d"
    unfolding put_dinode_def Let_def dinode_bytes_def
    by (subst e, simp, simp, subst e4, simp, simp, subst e6, simp, simp, subst e8, simp, simp, subst e12, simp, simp add: assms(2))
       (simp only: append_assoc)
  show "length (dinode_bytes x) = 64"
    using assms(2) by (simp add: dinode_bytes_def)
qed

lemma slice_put_dinode:
  assumes "off + 64 \<le> length d" and "length (i_addrs x) = NDIRECT + 1" and "k + n \<le> length d" and "k + n \<le> off \<or> off + 64 \<le> k"
  shows "slice k n (put_dinode x off d) = slice k n d"
  unfolding put_dinode_overlay(1) [OF assms(1,2)]
  by (rule slice_overlay_disjoint) (use assms put_dinode_overlay(2) [OF assms(1,2)] in simp_all)

lemma get_dinode_slice:
  assumes "slice o1 64 d = slice o2 64 e" and "o1 + 64 \<le> length d" "o2 + 64 \<le> length e"
  shows "same_dinode (get_dinode d o1 x) (get_dinode e o2 y)"
proof -
  have n: "d ! (o1 + k) = e ! (o2 + k)" if "k < 64" for k
    using that assms nth_slice [of o1 64 d k] nth_slice [of o2 64 e k] by simp
  have "get16 d (o1 + k) = get16 e (o2 + k)" if "k < 63" for k
    using n [of k] n [of "Suc k"] that by (simp add: get16_def)
  moreover have "get32 d (o1 + k) = get32 e (o2 + k)" if "k < 61" for k
    using n [of k] n [of "k + 1"] n [of "k + 2"] n [of "k + 3"] that by (simp add: get32_def add.assoc)
  ultimately show ?thesis
    by (simp add: same_dinode_def get_dinode_def add.assoc del: add_2_eq_Suc') (metis add_0_right zero_less_numeral)
qed

lemma get_dinode_bytes:
  assumes "length (i_addrs x) = NDIRECT + 1"
  shows "same_dinode (get_dinode (dinode_bytes x) 0 y) x"
proof -
  let ?h = "bytes16 (i_type x) @ bytes16 (i_major x) @ bytes16 (i_minor x) @ bytes16 (i_nlink x) @ bytes32 (i_size x)"
  have sh: "get32 (?h @ ys) (12 + j) = get32 ys j" for ys j
    by (simp add: get32_def nth_append add.commute)
  have b: "dinode_bytes x = ?h @ concat (map bytes32 (i_addrs x))"
    by (simp add: dinode_bytes_def)
  have "map (\<lambda>k. get32 (dinode_bytes x) (12 + 4 * k)) [0..<NDIRECT + 1] = i_addrs x"
    unfolding b sh using assms by (intro nth_equalityI) (simp_all add: get32_concat)
  moreover have "get16 (dinode_bytes x) 0 = i_type x" "get16 (dinode_bytes x) 2 = i_major x" "get16 (dinode_bytes x) 4 = i_minor x"
    "get16 (dinode_bytes x) 6 = i_nlink x" "get32 (dinode_bytes x) 8 = i_size x"
    by (simp_all add: dinode_bytes_def get16_def get32_def bytes16_def bytes32_def)
  ultimately show ?thesis
    by (simp add: same_dinode_def get_dinode_def numeral_2_eq_2)
qed

lemma get_put_dinode:
  assumes "off + 64 \<le> length d" and "length (i_addrs x) = NDIRECT + 1"
  shows "same_dinode (get_dinode (put_dinode x off d) off y) x"
proof -
  note p = put_dinode_overlay [OF assms]
  have "same_dinode (get_dinode (put_dinode x off d) off y) (get_dinode (dinode_bytes x) 0 y)"
    by (rule get_dinode_slice) (use assms p in \<open>simp_all add: slice_overlay slice_def [of 0]\<close>)
  then show ?thesis
    using get_dinode_bytes [OF assms(2), of y] by (simp add: same_dinode_def)
qed

text \<open>C23: \<open>iupdate\<close>'s copy of an inode into its place in a block and \<open>ilock\<close>'s copy from there are inverse in all six
  fields, and the other seven inodes of the block keep their bytes.\<close>

theorem dinode_roundtrip:
  assumes "length d = BSIZE" and "length (i_addrs x) = NDIRECT + 1"
  shows "same_dinode (get_dinode (put_dinode x (dinode_off inum) d) (dinode_off inum) y) x \<and>
    length (put_dinode x (dinode_off inum) d) = BSIZE \<and>
    (\<forall>j. dinode_off j \<noteq> dinode_off inum \<longrightarrow> slice (dinode_off j) 64 (put_dinode x (dinode_off inum) d) = slice (dinode_off j) 64 d)"
proof -
  have off: "dinode_off j + 64 \<le> BSIZE" for j
    by (simp add: dinode_off_def)
  have far: "dinode_off j + 64 \<le> dinode_off inum \<or> dinode_off inum + 64 \<le> dinode_off j" if "dinode_off j \<noteq> dinode_off inum" for j
    using that by (auto simp: dinode_off_def)
  show ?thesis
    using assms off far get_put_dinode [of "dinode_off inum" d x y] length_put_dinode [of "dinode_off inum" d x]
      slice_put_dinode [of "dinode_off inum" d x] by simp
qed

definition some_inode :: inode where
  "some_inode = \<lparr>i_dev = 1, i_inum = 3, i_ref = 1, i_valid = True, i_type = T_FILE, i_major = 0, i_minor = 0, i_nlink = 1, i_size = 700,
     i_addrs = replicate 13 60\<rparr>"

theorem dinode_roundtrip_witness:
  "same_dinode (get_dinode (put_dinode some_inode (dinode_off 3) (replicate BSIZE 7)) (dinode_off 3) (some_inode\<lparr>i_size := 0\<rparr>)) some_inode"
  using dinode_roundtrip [of "replicate BSIZE 7" some_inode 3 "some_inode\<lparr>i_size := 0\<rparr>"] by (simp add: some_inode_def)

subsection \<open>Paths\<close>

text \<open>The elements of a path: the nonempty pieces between the slashes.\<close>

function elems :: "u8 list \<Rightarrow> u8 list list" where
  "elems p = (case dropWhile (\<lambda>c. c = 47) p of
      [] \<Rightarrow> []
    | c # cs \<Rightarrow> takeWhile (\<lambda>c. c \<noteq> 47) (c # cs) # elems (dropWhile (\<lambda>c. c \<noteq> 47) (c # cs)))"
  by pat_completeness auto

termination elems
proof (relation "measure length", goal_cases)
  case (2 p c cs)
  have "c \<noteq> 47"
    using hd_dropWhile [of "\<lambda>c. c = (47 :: u8)" p] 2 by auto
  then have "length (dropWhile (\<lambda>c. c \<noteq> 47) (c # cs)) \<le> length cs"
    by (simp add: length_dropWhile_le)
  also have "length cs < length (dropWhile (\<lambda>c. c = (47 :: u8)) p)"
    using 2 by simp
  also have "\<dots> \<le> length p"
    by (rule length_dropWhile_le)
  finally show ?case
    by simp
qed simp

declare elems.simps [simp del]

lemma elems_dropWhile: "elems (dropWhile (\<lambda>c. c = 47) p) = elems p"
  by (simp add: elems.simps [of "dropWhile (\<lambda>c. c = 47) p"] elems.simps [of p] dropWhile_idem)

lemma elems_Nil_iff: "elems p = [] \<longleftrightarrow> dropWhile (\<lambda>c. c = 47) p = []"
  by (subst elems.simps, cases "dropWhile (\<lambda>c. c = 47) p") (simp_all only: list.case list.distinct simp_thms)

lemma cstr_overlay:
  assumes "length name = DIRSIZ" and "0 \<notin> set e"
  shows "cstr DIRSIZ (str_of (if length e \<ge> DIRSIZ then overlay 0 (take DIRSIZ e) name else (overlay 0 e name)[length e := 0])) = take DIRSIZ e"
proof (cases "length e \<ge> DIRSIZ")
  case True
  then have "overlay 0 (take DIRSIZ e) name = take DIRSIZ e"
    using assms(1) by (simp add: overlay_def)
  moreover have "map (str_of (take DIRSIZ e)) [0..<DIRSIZ] = take DIRSIZ e"
    using True by (intro nth_equalityI) (simp_all add: str_of_def)
  moreover have "takeWhile (\<lambda>c. c \<noteq> 0) (take DIRSIZ e) = take DIRSIZ e"
    using assms(2) by (subst takeWhile_eq_all_conv) (auto dest: in_set_takeD)
  ultimately show ?thesis
    using True by (simp add: cstr_takeWhile)
next
  case False
  let ?n = "(overlay 0 e name)[length e := 0]"
  have n: "?n = e @ 0 # drop (Suc (length e)) name"
    using False assms(1) Cons_nth_drop_Suc [of "length e" name, symmetric] by (simp add: overlay_def)
  have "length ?n = DIRSIZ"
    using False assms(1) by simp
  then have "map (str_of ?n) [0..<DIRSIZ] = ?n"
    by (intro nth_equalityI) (simp_all add: str_of_def)
  moreover have "takeWhile (\<lambda>c. c \<noteq> 0) ?n = e"
    unfolding n using assms(2) by (subst takeWhile_append2) auto
  ultimately show ?thesis
    using False by (simp add: cstr_takeWhile)
qed

text \<open>C22: \<open>skipelem\<close> walks the elements of a path: it returns null exactly when none is left, else the name buffer holds
  the first element, cut to 14 bytes, and the rest of the path has the remaining elements and is empty
  exactly when there are none, so that \<open>nameiparent\<close> stops at the last one.\<close>

theorem skipelem_elems:
  assumes "length name = DIRSIZ" and "0 \<notin> set path"
  shows "case elems path of
      [] \<Rightarrow> skipelem path name = None
    | e # es \<Rightarrow> \<exists>path' name'. skipelem path name = Some (path', name') \<and> elems path' = es \<and> (path' = [] \<longleftrightarrow> es = []) \<and>
        cstr DIRSIZ (str_of name') = take DIRSIZ e \<and> length name' = DIRSIZ \<and> 0 \<notin> set path'"
proof (cases "dropWhile (\<lambda>c. c = 47) path")
  case Nil
  then have "elems path = []"
    by (simp only: elems_Nil_iff)
  then show ?thesis
    using Nil by (simp add: skipelem_def)
next
  case (Cons c cs)
  let ?e = "takeWhile (\<lambda>c. c \<noteq> 47) (c # cs)"
  let ?r = "dropWhile (\<lambda>c. c \<noteq> 47) (c # cs)"
  let ?p = "dropWhile (\<lambda>c. c = 47) ?r"
  let ?n = "if length ?e \<ge> DIRSIZ then overlay 0 (take DIRSIZ ?e) name else (overlay 0 ?e name)[length ?e := 0]"
  have el: "elems path = ?e # elems ?r"
    by (subst elems.simps) (simp only: Cons list.case)
  have sub: "set (c # cs) \<subseteq> set path"
    using set_dropWhileD [of _ "\<lambda>c. c = 47" path] unfolding Cons by blast
  have sk: "skipelem path name = Some (?p, ?n)"
    unfolding skipelem_def Let_def Cons by simp
  have "0 \<notin> set ?e" "0 \<notin> set ?p"
    using sub assms(2) by (meson set_takeWhileD set_dropWhileD subsetD)+
  moreover have "?p = [] \<longleftrightarrow> elems ?r = []"
    by (simp only: elems_Nil_iff)
  moreover have "length ?n = DIRSIZ"
    using assms(1) by (simp del: takeWhile.simps)
  ultimately show ?thesis
    using cstr_overlay [OF assms(1), of ?e] sk elems_dropWhile [of ?r] unfolding el list.case by blast
qed

theorem skipelem_elems_witness:
  "\<exists>path' name'. skipelem (map of_char ''/usr//bin/ls'') (replicate DIRSIZ 0) = Some (path', name') \<and>
     elems path' = [map of_char ''bin'', map of_char ''ls''] \<and> cstr DIRSIZ (str_of name') = map of_char ''usr''"
proof -
  have e: "elems (map of_char ''/usr//bin/ls'') = [map of_char ''usr'', map of_char ''bin'', map of_char ''ls'']"
    by (simp add: elems.simps)
  then show ?thesis
    using skipelem_elems [of "replicate DIRSIZ 0" "map of_char ''/usr//bin/ls''"] by auto
qed

end
