(* ===== verification/Mkfs.thy ===== *)
theory Mkfs
  imports Fsdata
begin

section \<open>Building a file system image: mkfs.c\<close>

text \<open>
  The program that builds the initial disk, run on the host.  The image file is the list of its blocks; writing
  behind its end fills the gap with zeroes, reading there fails and the program exits.  A failed
  \<open>assert\<close> and every \<open>exit(1)\<close> is the outcome \<open>Panic\<close>.  The host is little-endian, so that \<open>xshort\<close> and \<open>xint\<close>
  store and load in the same order.  The command line and the host's files are an argument: for each file its name and
  the results of the successive calls of \<open>read\<close>, an empty one at the end of the file, or \<open>None\<close> if it cannot be opened; the
  image file itself is taken to be opened and written without an error.
\<close>

abbreviation (input) FSSIZE :: nat where "FSSIZE \<equiv> 1000"
abbreviation (input) NINODES :: nat where "NINODES \<equiv> 200"
abbreviation (input) LOGSIZE :: nat where "LOGSIZE \<equiv> 30"

record dinode =
  d_type :: u16
  d_major :: u16
  d_minor :: u16
  d_nlink :: u16
  d_size :: u32
  d_addrs :: "u32 list"

record mk =
  img :: "u8 list list"
  freeinode :: u32
  freeblock :: u32
  msb :: superblock

definition xshort :: "u16 \<Rightarrow> u16" where
  "xshort x = word16 (ucast x) (ucast (drop_bit 8 x))"

definition xint :: "u32 \<Rightarrow> u32" where
  "xint x = word32 (ucast x) (ucast (drop_bit 8 x)) (ucast (drop_bit 16 x)) (ucast (drop_bit 24 x))"

definition nbitmap :: nat where "nbitmap = FSSIZE div (BSIZE * 8) + 1"
definition ninodeblocks :: nat where "ninodeblocks = NINODES div IPB + 1"
definition nmeta :: nat where "nmeta = 2 + LOGSIZE + ninodeblocks + nbitmap"

text \<open>The block that the file position \<open>sec * BSIZE\<close> is in; the product wraps like the code's.\<close>

definition sect :: "u32 \<Rightarrow> nat" where
  "sect sec = unat (sec * of_nat BSIZE) div BSIZE"

definition wsect :: "u32 \<Rightarrow> u8 list \<Rightarrow> mk \<Rightarrow> (unit, mk) res" where
  "wsect sec b s = Ok () (s\<lparr>img := (img s @ replicate (Suc (sect sec) - length (img s)) (replicate BSIZE 0))[sect sec := b]\<rparr>)"

definition rsect :: "u32 \<Rightarrow> mk \<Rightarrow> (u8 list, mk) res" where
  "rsect sec s = (if sect sec < length (img s) then Ok (img s ! sect sec) s else Panic ''read'')"

definition din_bytes :: "dinode \<Rightarrow> u8 list" where
  "din_bytes x = bytes16 (d_type x) @ bytes16 (d_major x) @ bytes16 (d_minor x) @ bytes16 (d_nlink x) @ bytes32 (d_size x) @
     concat (map bytes32 (d_addrs x))"

definition din_at :: "u8 list \<Rightarrow> nat \<Rightarrow> dinode" where
  "din_at d o1 = \<lparr>d_type = get16 d o1, d_major = get16 d (o1 + 2), d_minor = get16 d (o1 + 4), d_nlink = get16 d (o1 + 6),
     d_size = get32 d (o1 + 8), d_addrs = map (\<lambda>k. get32 d (o1 + 12 + 4 * k)) [0..<NDIRECT + 1]\<rparr>"

definition winode :: "u32 \<Rightarrow> dinode \<Rightarrow> mk \<Rightarrow> (unit, mk) res" where
  "winode inum ip s =
     (let bn = IBLOCK inum (msb s) in
      bnd (rsect bn s) (\<lambda>buf s.
      wsect bn (overlay (dinode_off inum) (din_bytes ip) buf) s))"

definition rinode :: "u32 \<Rightarrow> mk \<Rightarrow> (dinode, mk) res" where
  "rinode inum s =
     (let bn = IBLOCK inum (msb s) in
      bnd (rsect bn s) (\<lambda>buf s. Ok (din_at buf (dinode_off inum)) s))"

definition mk_ialloc :: "u16 \<Rightarrow> mk \<Rightarrow> (u32, mk) res" where
  "mk_ialloc type s =
     (let inum = freeinode s;
          s = s\<lparr>freeinode := freeinode s + 1\<rparr>;
          din = \<lparr>d_type = xshort type, d_major = 0, d_minor = 0, d_nlink = xshort 1, d_size = xint 0, d_addrs = replicate (NDIRECT + 1) 0\<rparr> in
      bnd (winode inum din s) (\<lambda>_ s. Ok inum s))"

definition mk_balloc :: "nat \<Rightarrow> mk \<Rightarrow> (unit, mk) res" where
  "mk_balloc used s =
     (if \<not> used < BSIZE * 8 then Panic ''assert''
      else
        let buf = foldl (\<lambda>b i. b[i div 8 := b ! (i div 8) OR push_bit (i mod 8) 1]) (replicate BSIZE 0) [0..<used] in
        wsect (bmapstart (msb s)) buf s)"

text \<open>Taking the next free block.\<close>

definition new_block :: "mk \<Rightarrow> u32 \<times> mk" where
  "new_block s = (xint (freeblock s), s\<lparr>freeblock := freeblock s + 1\<rparr>)"

text \<open>The block that holds block \<open>fbn\<close> of the file, allocated if there is none.\<close>

definition iappend_block :: "nat \<Rightarrow> dinode \<Rightarrow> mk \<Rightarrow> (u32 \<times> dinode, mk) res" where
  "iappend_block fbn din s =
     (if fbn < NDIRECT then
        let (din, s) = (if xint (d_addrs din ! fbn) = 0 then
              let (b, s) = new_block s in (din\<lparr>d_addrs := (d_addrs din)[fbn := b]\<rparr>, s)
            else (din, s)) in
        Ok (xint (d_addrs din ! fbn), din) s
      else
        let (din, s) = (if xint (d_addrs din ! NDIRECT) = 0 then
              let (b, s) = new_block s in (din\<lparr>d_addrs := (d_addrs din)[NDIRECT := b]\<rparr>, s)
            else (din, s)) in
        bnd (rsect (xint (d_addrs din ! NDIRECT)) s) (\<lambda>indirect s.
        bnd (if get32 indirect (4 * (fbn - NDIRECT)) = 0 then
               let (b, s) = new_block s;
                   indirect = overlay (4 * (fbn - NDIRECT)) (bytes32 b) indirect in
               bnd (wsect (xint (d_addrs din ! NDIRECT)) indirect s) (\<lambda>_ s. Ok indirect s)
             else Ok indirect s) (\<lambda>indirect s.
        Ok (xint (get32 indirect (4 * (fbn - NDIRECT))), din) s)))"

function iappend_loop :: "dinode \<Rightarrow> u32 \<Rightarrow> u8 list \<Rightarrow> mk \<Rightarrow> (dinode \<times> u32, mk) res" where
  "iappend_loop din off p s =
     (if p = [] then Ok (din, off) s
      else
        let fbn = unat off div BSIZE in
        if \<not> fbn < MAXFILE then Panic ''assert'' else
        bnd (iappend_block fbn din s) (\<lambda>(x, din) s.
        let n1 = min (length p) ((fbn + 1) * BSIZE - unat off) in
        bnd (rsect x s) (\<lambda>buf s.
        bnd (wsect x (overlay (unat off - fbn * BSIZE) (take n1 p) buf) s) (\<lambda>_ s.
        iappend_loop din (off + of_nat n1) (drop n1 p) s))))"
  by pat_completeness auto

termination iappend_loop
proof (relation "measure (\<lambda>(_, _, p, _). length p)", goal_cases)
  case (2 din off p s)
  have "unat off div BSIZE * BSIZE \<le> unat off"
    by (rule div_times_less_eq_dividend)
  moreover have "unat off < (unat off div BSIZE + 1) * BSIZE"
    by (simp add: dividend_less_div_times)
  ultimately show ?case
    using 2 by (auto simp: algebra_simps)
qed simp

declare iappend_loop.simps [simp del]

definition iappend :: "u32 \<Rightarrow> u8 list \<Rightarrow> mk \<Rightarrow> (unit, mk) res" where
  "iappend inum p s =
     bnd (rinode inum s) (\<lambda>din s.
     bnd (iappend_loop din (xint (d_size din)) p s) (\<lambda>(din, off) s.
     winode inum (din\<lparr>d_size := xint off\<rparr>) s))"

subsection \<open>The main program\<close>

fun write_zeroes :: "nat list \<Rightarrow> mk \<Rightarrow> (unit, mk) res" where
  "write_zeroes [] s = Ok () s"
| "write_zeroes (i # is) s = bnd (wsect (of_nat i) (replicate BSIZE 0) s) (\<lambda>_ s. write_zeroes is s)"

definition the_super :: superblock where
  "the_super = \<lparr>sb_size = xint (of_nat FSSIZE), nblocks = xint (of_nat (FSSIZE - nmeta)), ninodes = xint (of_nat NINODES),
     nlog = xint (of_nat LOGSIZE), logstart = xint 2, inodestart = xint (of_nat (2 + LOGSIZE)),
     bmapstart = xint (of_nat (2 + LOGSIZE + ninodeblocks))\<rparr>"

definition sb_bytes :: "superblock \<Rightarrow> u8 list" where
  "sb_bytes b = bytes32 (sb_size b) @ bytes32 (nblocks b) @ bytes32 (ninodes b) @ bytes32 (nlog b) @ bytes32 (logstart b) @
     bytes32 (inodestart b) @ bytes32 (bmapstart b)"

definition add_entry :: "u32 \<Rightarrow> u32 \<Rightarrow> u8 list \<Rightarrow> mk \<Rightarrow> (unit, mk) res" where
  "add_entry dir inum name s = iappend dir (mk_dirent (xshort (ucast inum)) (strncpy (str_of name) DIRSIZ)) s"

fun copy_file :: "u32 \<Rightarrow> u8 list list \<Rightarrow> mk \<Rightarrow> (unit, mk) res" where
  "copy_file inum [] s = Ok () s"
| "copy_file inum (b # bs) s = (if b = [] then Ok () s else bnd (iappend inum b s) (\<lambda>_ s. copy_file inum bs s))"

fun copy_files :: "u32 \<Rightarrow> (u8 list \<times> u8 list list option) list \<Rightarrow> mk \<Rightarrow> (unit, mk) res" where
  "copy_files rootino [] s = Ok () s"
| "copy_files rootino ((name, body) # fs) s =
     (if 47 \<in> set name then Panic ''assert''
      else case body of None \<Rightarrow> Panic ''open'' | Some bs \<Rightarrow>
        let name = (if name \<noteq> [] \<and> hd name = 95 then tl name else name) in
        bnd (mk_ialloc T_FILE s) (\<lambda>inum s.
        bnd (add_entry rootino inum name s) (\<lambda>_ s.
        bnd (copy_file inum bs s) (\<lambda>_ s.
        copy_files rootino fs s))))"

definition fix_root :: "u32 \<Rightarrow> mk \<Rightarrow> (unit, mk) res" where
  "fix_root rootino s =
     bnd (rinode rootino s) (\<lambda>din s.
     let off = xint (d_size din);
         off = (off div of_nat BSIZE + 1) * of_nat BSIZE in
     winode rootino (din\<lparr>d_size := xint off\<rparr>) s)"

definition mkfs :: "(u8 list \<times> u8 list list option) list \<Rightarrow> (unit, mk) res" where
  "mkfs fs =
     (let s = \<lparr>img = [], freeinode = 1, freeblock = of_nat nmeta, msb = the_super\<rparr> in
      bnd (write_zeroes [0..<FSSIZE] s) (\<lambda>_ s.
      bnd (wsect 1 (overlay 0 (sb_bytes (msb s)) (replicate BSIZE 0)) s) (\<lambda>_ s.
      bnd (mk_ialloc T_DIR s) (\<lambda>rootino s.
      if rootino \<noteq> ROOTINO then Panic ''assert'' else
      bnd (add_entry rootino rootino [46] s) (\<lambda>_ s.
      bnd (add_entry rootino rootino [46, 46] s) (\<lambda>_ s.
      bnd (copy_files rootino fs s) (\<lambda>_ s.
      bnd (fix_root rootino s) (\<lambda>_ s.
      mk_balloc (unat (freeblock s)) s))))))))"

end
