(* ===== verification/Mkblocks.thy ===== *)
theory Mkblocks
  imports Mkfs
begin

section \<open>The blocks of one file of the image\<close>

text \<open>
  The bytes of a file are found through its direct and indirect block numbers (\<open>faddr\<close>, \<open>fbyte\<close>).  \<open>bwf\<close> is the
  invariant of the block numbers of one file.  \<open>loop_appends\<close>: the loop of \<open>iappend\<close> appends to the file, keeps
  the blocks of all others and uses exactly the new blocks that the longer file needs.
\<close>

lemma xint_id [simp]: "xint x = x" "xshort y = y"
  by (simp_all add: xint_def xshort_def)

lemma meta_sizes: "nmeta = 59" "ninodeblocks = 26" "nbitmap = 1"
  by (simp_all add: nmeta_def ninodeblocks_def nbitmap_def)

lemma sect_small: "unat b < 2 ^ 23 \<Longrightarrow> sect b = unat b"
proof -
  assume "unat b < 2 ^ 23"
  then have "unat (b * of_nat BSIZE) = unat b * 512"
    by (simp add: unat_word_ariths)
  then show ?thesis
    by (simp add: sect_def)
qed

definition geo :: "u8 list list \<Rightarrow> bool" where
  "geo im \<longleftrightarrow> length im = FSSIZE \<and> (\<forall>b \<in> set im. length b = BSIZE)"

lemma geo_nth: "geo im \<Longrightarrow> b < FSSIZE \<Longrightarrow> length (im ! b) = BSIZE"
  by (simp add: geo_def)

lemma geo_upd [simp]: "geo im \<Longrightarrow> length x = BSIZE \<Longrightarrow> geo (im[b := x])"
  using set_update_subset_insert [of im b x] by (auto simp: geo_def)

lemma wsect_ok: "geo (img s) \<Longrightarrow> unat b < FSSIZE \<Longrightarrow> wsect b x s = Ok () (s\<lparr>img := (img s)[unat b := x]\<rparr>)"
  by (simp add: wsect_def sect_small geo_def)

lemma rsect_ok: "geo (img s) \<Longrightarrow> unat b < FSSIZE \<Longrightarrow> rsect b s = Ok (img s ! unat b) s"
  by (simp add: rsect_def sect_small geo_def)

subsection \<open>The blocks of a file\<close>

definition iblk :: "dinode \<Rightarrow> nat" where
  "iblk d = unat (d_addrs d ! NDIRECT)"

definition faddr :: "u8 list list \<Rightarrow> dinode \<Rightarrow> nat \<Rightarrow> nat" where
  "faddr im d k = (if k < NDIRECT then unat (d_addrs d ! k)
     else if iblk d = 0 then 0 else unat (get32 (im ! iblk d) (4 * (k - NDIRECT))))"

text \<open>\<open>bwf fb im d m\<close>: the file has \<open>m\<close> blocks, all different, taken from the data blocks below \<open>fb\<close>.\<close>

definition bwf :: "nat \<Rightarrow> u8 list list \<Rightarrow> dinode \<Rightarrow> nat \<Rightarrow> bool" where
  "bwf fb im d m \<longleftrightarrow> length (d_addrs d) = NDIRECT + 1 \<and> m \<le> MAXFILE \<and>
     (\<forall>k < m. 59 \<le> faddr im d k \<and> faddr im d k < fb) \<and> (\<forall>k. m \<le> k \<longrightarrow> k < MAXFILE \<longrightarrow> faddr im d k = 0) \<and>
     (if NDIRECT < m then 59 \<le> iblk d \<and> iblk d < fb else iblk d = 0) \<and>
     inj_on (faddr im d) {..<m} \<and> iblk d \<notin> faddr im d ` {..<m}"

definition owned :: "u8 list list \<Rightarrow> dinode \<Rightarrow> nat \<Rightarrow> nat set" where
  "owned im d m = faddr im d ` {..<m} \<union> (if NDIRECT < m then {iblk d} else {})"

definition fresh :: "nat \<Rightarrow> u8 list list \<Rightarrow> bool" where
  "fresh fb im \<longleftrightarrow> (\<forall>b. fb \<le> b \<longrightarrow> b < FSSIZE \<longrightarrow> im ! b = replicate BSIZE 0)"

lemma bwfD:
  assumes "bwf fb im d m"
  shows "length (d_addrs d) = NDIRECT + 1" "m \<le> MAXFILE" "k < m \<Longrightarrow> 59 \<le> faddr im d k" "k < m \<Longrightarrow> faddr im d k < fb"
    "m \<le> k \<Longrightarrow> k < MAXFILE \<Longrightarrow> faddr im d k = 0" "NDIRECT < m \<Longrightarrow> 59 \<le> iblk d" "NDIRECT < m \<Longrightarrow> iblk d < fb"
    "m \<le> NDIRECT \<Longrightarrow> iblk d = 0" "k < m \<Longrightarrow> j < m \<Longrightarrow> faddr im d k = faddr im d j \<Longrightarrow> k = j" "k < m \<Longrightarrow> faddr im d k \<noteq> iblk d"
proof -
  show "k < m \<Longrightarrow> faddr im d k \<noteq> iblk d"
    using assms unfolding bwf_def by (metis imageI lessThan_iff)
qed (use assms in \<open>auto simp: bwf_def inj_on_def split: if_splits\<close>)

text \<open>Only the indirect block of the image matters.\<close>

lemma faddr_cong: "NDIRECT < m \<and> im' ! iblk d = im ! iblk d \<or> iblk d = 0 \<Longrightarrow> faddr im' d = faddr im d"
  by (auto simp: fun_eq_iff faddr_def)

lemma bwf_frame:
  assumes "bwf fb im d m" and "\<forall>b \<in> owned im d m. im' ! b = im ! b" and "fb \<le> fb'"
  shows "faddr im' d = faddr im d" "bwf fb' im' d m" "owned im' d m = owned im d m"
proof -
  show f: "faddr im' d = faddr im d"
    using assms(1,2) by (intro faddr_cong [of m]) (auto simp: bwf_def owned_def split: if_splits)
  show "bwf fb' im' d m"
    using assms(1,3) unfolding bwf_def f by (auto split: if_splits)
  show "owned im' d m = owned im d m"
    by (simp add: owned_def f)
qed

subsection \<open>Finding or allocating a block\<close>

lemma block_old:
  assumes g: "geo (img s)" and w: "bwf fb (img s) d m" and fb: "fb \<le> FSSIZE" and k: "k < m"
  shows "\<exists>x. iappend_block k d s = Ok (x, d) s \<and> unat x = faddr (img s) d k"
proof (cases "k < NDIRECT")
  case True
  then have "d_addrs d ! k \<noteq> 0"
    using bwfD(3) [OF w k] by (auto simp: faddr_def)
  then show ?thesis
    using True by (simp add: iappend_block_def faddr_def)
next
  case False
  then have i: "59 \<le> iblk d" "iblk d < fb"
    using bwfD(6,7) [OF w] k by auto
  have r: "rsect (d_addrs d ! NDIRECT) s = Ok (img s ! iblk d) s"
    using rsect_ok [OF g, of "d_addrs d ! NDIRECT"] i fb by (simp add: iblk_def)
  have f: "faddr (img s) d k = unat (get32 (img s ! iblk d) (4 * (k - NDIRECT)))"
    using False i by (simp add: faddr_def)
  then have nz: "get32 (img s ! iblk d) (4 * (k - NDIRECT)) \<noteq> 0"
    using bwfD(3) [OF w k] by auto
  have "d_addrs d ! NDIRECT \<noteq> 0"
    using i by (auto simp: iblk_def)
  then show ?thesis
    using False r f nz by (simp add: iappend_block_def)
qed

lemma bwf_extend:
  assumes w: "bwf fb im d m" and m: "m < MAXFILE" and len: "length (d_addrs d') = NDIRECT + 1"
    and old: "\<forall>k < m. faddr im' d' k = faddr im d k" and new: "fb \<le> faddr im' d' m" "faddr im' d' m < fb'"
    and none: "\<forall>k. m < k \<longrightarrow> k < MAXFILE \<longrightarrow> faddr im' d' k = 0" and fb: "59 \<le> fb"
    and ind: "if m < NDIRECT then iblk d' = 0 else if m = NDIRECT then fb \<le> iblk d' \<and> iblk d' < faddr im' d' m else iblk d' = iblk d"
  shows "bwf fb' im' d' (Suc m)"
proof -
  have lt: "faddr im' d' k < fb" "59 \<le> faddr im' d' k" if "k < m" for k
    using old bwfD(3,4) [OF w] that by auto
  have inj: "inj_on (faddr im' d') {..<Suc m}"
  proof (rule inj_onI)
    fix k j
    assume "k \<in> {..<Suc m}" "j \<in> {..<Suc m}" "faddr im' d' k = faddr im' d' j"
    then show "k = j"
      using bwfD(9) [OF w, of k j] old lt new(1) by (auto simp: less_Suc_eq) (metis not_le)+
  qed
  have i: "iblk d' \<noteq> faddr im' d' k" if "k < Suc m" for k
  proof (cases "k = m")
    case True
    then show ?thesis
      using ind new bwfD(7) [OF w] fb by (auto split: if_splits)
  next
    case False
    then have "k < m"
      using that by simp
    then show ?thesis
      using ind lt [of k] old bwfD(10) [OF w, of k] by (auto split: if_splits)
  qed
  have "if NDIRECT < Suc m then 59 \<le> iblk d' \<and> iblk d' < fb' else iblk d' = 0"
    using ind new fb bwfD(6,7) [OF w] by (auto split: if_splits)
  moreover have "\<forall>k < Suc m. 59 \<le> faddr im' d' k \<and> faddr im' d' k < fb'"
    using lt new fb by (auto simp: less_Suc_eq) (meson less_trans less_le_trans not_le)+
  moreover have "iblk d' \<notin> faddr im' d' ` {..<Suc m}"
    using i by auto
  ultimately show ?thesis
    using m len none inj unfolding bwf_def by (auto simp: Suc_le_eq)
qed

lemma get32_zeroes: "4 * k + 4 \<le> BSIZE \<Longrightarrow> get32 (replicate BSIZE 0) (4 * k) = 0"
  by (simp add: get32_def)

text \<open>A block behind the last one.\<close>

definition blocks_added :: "nat \<Rightarrow> nat" where
  "blocks_added m = (if m = NDIRECT then 2 else 1)"

definition new_post :: "nat \<Rightarrow> nat \<Rightarrow> dinode \<Rightarrow> mk \<Rightarrow> u32 \<Rightarrow> dinode \<Rightarrow> u8 list list \<Rightarrow> bool" where
  "new_post fb m d s x d' im' \<longleftrightarrow>
     iappend_block m d s = Ok (x, d') (s\<lparr>img := im', freeblock := of_nat (fb + blocks_added m)\<rparr>) \<and>
     bwf (fb + blocks_added m) im' d' (Suc m) \<and> unat x = faddr im' d' m \<and> fb \<le> unat x \<and>
     (\<forall>k < m. faddr im' d' k = faddr (img s) d k) \<and>
     (if m < NDIRECT then im' = img s
      else iblk d' \<in> owned (img s) d m \<union> {fb..<fb + blocks_added m} \<and> (\<forall>b. b \<noteq> iblk d' \<longrightarrow> im' ! b = img s ! b)) \<and>
     geo im' \<and> d' = d\<lparr>d_addrs := d_addrs d'\<rparr>"

lemma of_nat_block: "n \<le> FSSIZE \<Longrightarrow> unat (of_nat n :: u32) = n"
  by (simp add: unat_of_nat)

lemma block_new_direct:
  assumes g: "geo (img s)" and w: "bwf fb (img s) d m" and m: "m < NDIRECT"
    and fb: "59 \<le> fb" "fb + blocks_added m \<le> FSSIZE" "freeblock s = of_nat fb"
  shows "\<exists>x d' im'. new_post fb m d s x d' im'"
proof -
  have fb: "59 \<le> fb" "fb + 1 \<le> FSSIZE" "freeblock s = of_nat fb"
    using fb m by (simp_all add: blocks_added_def)
  let ?d = "d\<lparr>d_addrs := (d_addrs d)[m := of_nat fb]\<rparr>"
  have z: "d_addrs d ! m = 0" "length (d_addrs d) = 13" "iblk d = 0"
    using bwfD(5) [OF w, of m] bwfD(1,8) [OF w] m by (auto simp: faddr_def unat_eq_0)
  have i: "iblk ?d = 0"
    using z(3) m by (simp add: iblk_def)
  have fa: "faddr (img s) ?d k = (if k = m then fb else faddr (img s) d k)" for k
    using z m i of_nat_block [of fb] fb by (auto simp: faddr_def nth_list_update)
  have "iappend_block m d s = Ok (of_nat fb, ?d) (s\<lparr>img := img s, freeblock := of_nat (fb + 1)\<rparr>)"
    using m z fb(3) by (simp add: iappend_block_def new_block_def)
  moreover have "bwf (fb + 1) (img s) ?d (Suc m)"
    by (rule bwf_extend [OF w]) (use m z i fb fa bwfD(5) [OF w] in auto)
  ultimately show ?thesis
    using m g fa of_nat_block [of fb] fb
    by (intro exI [of _ "of_nat fb"] exI [of _ ?d] exI [of _ "img s"]) (auto simp: new_post_def blocks_added_def)
qed

lemma block_new_second:
  assumes g: "geo (img s)" and w: "bwf fb (img s) d m" and m: "m = NDIRECT" and f: "fresh fb (img s)"
    and fb: "59 \<le> fb" "fb + blocks_added m \<le> FSSIZE" "freeblock s = of_nat fb"
  shows "\<exists>x d' im'. new_post fb m d s x d' im'"
proof -
  have fb: "59 \<le> fb" "fb + 2 \<le> FSSIZE" "freeblock s = of_nat fb"
    using fb m by (simp_all add: blocks_added_def)
  let ?d = "d\<lparr>d_addrs := (d_addrs d)[NDIRECT := of_nat fb]\<rparr>"
  let ?b = "overlay 0 (bytes32 (of_nat (fb + 1))) (replicate BSIZE 0)"
  let ?im = "(img s)[fb := ?b]"
  have z: "length (d_addrs d) = 13" "iblk d = 0"
    using bwfD(1,8) [OF w] m by auto
  have u: "unat (of_nat fb :: u32) = fb" "unat (of_nat (fb + 1) :: u32) = fb + 1"
    using fb m by (intro of_nat_block; simp)+
  have zero: "img s ! fb = replicate BSIZE 0"
    using f fb m by (simp add: fresh_def)
  have len: "length (img s) = FSSIZE"
    using g by (simp add: geo_def)
  have i: "iblk ?d = fb"
    using z u by (simp add: iblk_def)
  have gb: "get32 ?b 0 = of_nat (fb + 1)" "get32 ?b (4 * j) = 0" if "0 < j" "j < 128" for j
    using that by (simp_all add: get32_overlay get32_overlay_disjoint get32_zeroes)
  have fa: "faddr ?im ?d k = (if k = NDIRECT then fb + 1 else faddr (img s) d k)" if "k < MAXFILE" for k
    using that z i len fb u gb [of 1] gb(2) [of "k - NDIRECT"] by (auto simp: faddr_def)
  have r: "rsect (of_nat fb) (s\<lparr>freeblock := freeblock s + 1\<rparr>) = Ok (replicate BSIZE 0) (s\<lparr>freeblock := freeblock s + 1\<rparr>)"
    using rsect_ok [of "s\<lparr>freeblock := freeblock s + 1\<rparr>" "of_nat fb"] g u fb zero by simp
  have wr: "wsect (of_nat fb) ?b (s\<lparr>freeblock := of_nat (fb + 2)\<rparr>) = Ok () (s\<lparr>img := ?im, freeblock := of_nat (fb + 2)\<rparr>)"
    using wsect_ok [of "s\<lparr>freeblock := of_nat (fb + 2)\<rparr>" "of_nat fb" ?b] g u fb by simp
  have "iappend_block m d s = Ok (of_nat (fb + 1), ?d) (s\<lparr>img := ?im, freeblock := of_nat (fb + 2)\<rparr>)"
    using m z r wr fb(3) get32_zeroes [of 0] gb(1) [of 1]
    by (simp add: iappend_block_def new_block_def iblk_def unat_eq_0 add.commute Let_def)
  moreover have "bwf (fb + 2) ?im ?d (Suc m)"
    by (rule bwf_extend [OF w]) (use m z i fb fa bwfD(5) [OF w] in auto)
  ultimately show ?thesis
    using m g fa u fb i
    by (intro exI [of _ "of_nat (fb + 1)"] exI [of _ ?d] exI [of _ ?im]) (auto simp: new_post_def blocks_added_def)
qed

lemma block_new_later:
  assumes g: "geo (img s)" and w: "bwf fb (img s) d m" and m: "NDIRECT < m" "m < MAXFILE"
    and fb: "59 \<le> fb" "fb + blocks_added m \<le> FSSIZE" "freeblock s = of_nat fb"
  shows "\<exists>x d' im'. new_post fb m d s x d' im'"
proof -
  have fb: "59 \<le> fb" "fb + 1 \<le> FSSIZE" "freeblock s = of_nat fb"
    using fb m by (simp_all add: blocks_added_def)
  let ?i = "iblk d" and ?o = "4 * (m - NDIRECT)"
  let ?b = "overlay ?o (bytes32 (of_nat fb)) (img s ! ?i)"
  let ?im = "(img s)[?i := ?b]"
  have u: "unat (of_nat fb :: u32) = fb"
    using fb by (simp only: of_nat_block)
  have z: "length (d_addrs d) = 13" "59 \<le> ?i" "?i < fb"
    using bwfD(1) [OF w] bwfD(6,7) [OF w] m by auto
  have i: "unat (d_addrs d ! NDIRECT) = ?i"
    by (simp add: iblk_def)
  have nz: "d_addrs d ! NDIRECT \<noteq> 0"
    using z(2) by (auto simp: iblk_def)
  have len: "length (img s) = FSSIZE" "length (img s ! ?i) = BSIZE"
    using g z fb by (auto simp: geo_def)
  have old: "get32 (img s ! ?i) ?o = 0"
    using bwfD(5) [OF w, of m] m z(2) by (simp add: faddr_def unat_eq_0)
  have gb: "get32 ?b (4 * j) = (if 4 * j = ?o then of_nat fb else get32 (img s ! ?i) (4 * j))" if "j < 128" for j
    using that m len by (cases j "m - NDIRECT" rule: linorder_cases) (simp_all add: get32_overlay get32_overlay_disjoint)
  have fa: "faddr ?im d k = (if k = m then fb else faddr (img s) d k)" if "k < MAXFILE" for k
    using that z len fb u m gb [of "k - NDIRECT"] by (auto simp: faddr_def)
  have r: "rsect (d_addrs d ! NDIRECT) s = Ok (img s ! ?i) s"
    using rsect_ok [of s "d_addrs d ! NDIRECT"] g i z fb by simp
  have wr: "wsect (d_addrs d ! NDIRECT) ?b (s\<lparr>freeblock := of_nat (fb + 1)\<rparr>) = Ok () (s\<lparr>img := ?im, freeblock := of_nat (fb + 1)\<rparr>)"
    using wsect_ok [of "s\<lparr>freeblock := of_nat (fb + 1)\<rparr>" "d_addrs d ! NDIRECT" ?b] g i z fb len by simp
  have "iappend_block m d s = Ok (of_nat fb, d) (s\<lparr>img := ?im, freeblock := of_nat (fb + 1)\<rparr>)"
    using m r wr fb(3) old gb [of "m - NDIRECT"] nz
    by (simp add: iappend_block_def new_block_def Let_def add.commute)
  moreover have "bwf (fb + 1) ?im d (Suc m)"
    by (rule bwf_extend [OF w]) (use m z fb fa bwfD(5) [OF w] in auto)
  moreover have "?i \<in> owned (img s) d m"
    using m by (simp add: owned_def)
  ultimately show ?thesis
    using m g fa u fb len
    by (intro exI [of _ "of_nat fb"] exI [of _ d] exI [of _ ?im]) (auto simp: new_post_def blocks_added_def)
qed

lemma block_new:
  assumes "geo (img s)" "bwf fb (img s) d m" "m < MAXFILE" "fresh fb (img s)"
    "59 \<le> fb" "fb + blocks_added m \<le> FSSIZE" "freeblock s = of_nat fb"
  obtains x d' im' where "new_post fb m d s x d' im'"
  using block_new_direct [of s fb d m] block_new_second [of s fb d m] block_new_later [of s fb d m] assms
  by (cases m NDIRECT rule: linorder_cases) blast+

subsection \<open>Appending to a file\<close>

definition fbyte :: "u8 list list \<Rightarrow> dinode \<Rightarrow> nat \<Rightarrow> u8" where
  "fbyte im d i = im ! faddr im d (i div BSIZE) ! (i mod BSIZE)"

definition nblks :: "nat \<Rightarrow> nat" where
  "nblks n = (n + 511) div BSIZE"

text \<open>The blocks of a file of \<open>n\<close> bytes, the indirect block included.\<close>

definition blocks_total :: "nat \<Rightarrow> nat" where
  "blocks_total n = nblks n + (if NDIRECT < nblks n then 1 else 0)"

lemma bwf_cong: "faddr im' d = faddr im d \<Longrightarrow> bwf fb im' d m = bwf fb im d m"
  by (simp add: bwf_def)

lemma nblks_eqI: "512 * m < n + 512 \<Longrightarrow> n \<le> 512 * m \<Longrightarrow> nblks n = m"
  unfolding nblks_def by (rule div_nat_eqI) (simp_all add: mult.commute)

lemma nblks_div: "nblks n = (if n mod BSIZE = 0 then n div BSIZE else Suc (n div BSIZE))"
proof -
  define q r where "q = n div 512" "r = n mod 512"
  then have n: "n = 512 * q + r" "r < 512"
    by simp_all
  have "nblks n = (if r = 0 then q else Suc q)"
    by (rule nblks_eqI) (use n in auto)
  then show ?thesis
    by (simp add: q_r_def)
qed

lemma nblks_step:
  assumes "0 < n1" "n + n1 \<le> (n div BSIZE + 1) * BSIZE"
  shows "nblks (n + n1) = Suc (n div BSIZE)"
proof (rule nblks_eqI)
  have "512 * (n div 512) \<le> n"
    by simp
  then show "512 * Suc (n div BSIZE) < n + n1 + 512"
    using assms(1) by simp
  show "n + n1 \<le> 512 * Suc (n div BSIZE)"
    using assms(2) by simp
qed

text \<open>What appending \<open>p\<close> to a file of \<open>n\<close> bytes does to the image.\<close>

definition app_post :: "nat \<Rightarrow> u8 list list \<Rightarrow> dinode \<Rightarrow> nat \<Rightarrow> u8 list \<Rightarrow> nat \<Rightarrow> u8 list list \<Rightarrow> dinode \<Rightarrow> bool" where
  "app_post fb im d n p fb' im' d' \<longleftrightarrow>
     bwf fb' im' d' (nblks (n + length p)) \<and> geo im' \<and> fresh fb' im' \<and> d' = d\<lparr>d_addrs := d_addrs d'\<rparr> \<and>
     fb' + blocks_total n = fb + blocks_total (n + length p) \<and> fb \<le> fb' \<and>
     (\<forall>i < n. fbyte im' d' i = fbyte im d i) \<and> (\<forall>j < length p. fbyte im' d' (n + j) = p ! j) \<and>
     owned im' d' (nblks (n + length p)) \<subseteq> owned im d (nblks n) \<union> {fb..<fb'} \<and>
     (\<forall>b. b \<notin> owned im d (nblks n) \<union> {fb..<fb'} \<longrightarrow> im' ! b = im ! b)"

lemma app_post_Nil: "bwf fb im d (nblks n) \<Longrightarrow> geo im \<Longrightarrow> fresh fb im \<Longrightarrow> app_post fb im d n [] fb im d"
  by (simp add: app_post_def)

lemma app_postD:
  assumes "app_post fb im d n p fb' im' d'"
  shows "bwf fb' im' d' (nblks (n + length p))" "geo im'" "fresh fb' im'" "d' = d\<lparr>d_addrs := d_addrs d'\<rparr>"
    "fb' + blocks_total n = fb + blocks_total (n + length p)" "fb \<le> fb'" "i < n \<Longrightarrow> fbyte im' d' i = fbyte im d i"
    "j < length p \<Longrightarrow> fbyte im' d' (n + j) = p ! j"
    "owned im' d' (nblks (n + length p)) \<subseteq> owned im d (nblks n) \<union> {fb..<fb'}"
    "b \<notin> owned im d (nblks n) \<union> {fb..<fb'} \<Longrightarrow> im' ! b = im ! b"
  using assms unfolding app_post_def by blast+

lemma app_post_trans:
  assumes a: "app_post fb im d n p fb' im' d'" and b: "app_post fb' im' d' (n + length p) q fb'' im'' d''"
  shows "app_post fb im d n (p @ q) fb'' im'' d''"
proof -
  note o = app_postD(9) [OF a] app_postD(6) [OF a] app_postD(6) [OF b]
  have len: "n + length (p @ q) = n + length p + length q"
    by simp
  have "fbyte im'' d'' i = fbyte im d i" if "i < n" for i
    using that app_postD(7) [OF a] app_postD(7) [OF b] by simp
  moreover have "fbyte im'' d'' (n + j) = (p @ q) ! j" if "j < length (p @ q)" for j
  proof (cases "j < length p")
    case True
    then show ?thesis
      using app_postD(8) [OF a True] app_postD(7) [OF b] by (simp add: nth_append)
  next
    case False
    then have "n + j = n + length p + (j - length p)" "j - length p < length q"
      using that by auto
    then show ?thesis
      using app_postD(8) [OF b, of "j - length p"] False by (simp add: nth_append)
  qed
  moreover have "owned im'' d'' (nblks (n + length p + length q)) \<subseteq> owned im d (nblks n) \<union> {fb..<fb''}"
    using app_postD(9) [OF b] o by fastforce
  moreover have "im'' ! b = im ! b" if "b \<notin> owned im d (nblks n) \<union> {fb..<fb''}" for b
  proof -
    have "b \<notin> owned im d (nblks n) \<union> {fb..<fb'}" "b \<notin> owned im' d' (nblks (n + length p)) \<union> {fb'..<fb''}"
      using that o by auto
    then show ?thesis
      using app_postD(10) [OF a] app_postD(10) [OF b] by metis
  qed
  moreover have "d'' = d\<lparr>d_addrs := d_addrs d''\<rparr>"
    using arg_cong [OF app_postD(4) [OF b], of "\<lambda>x. x\<lparr>d_addrs := d_addrs d''\<rparr>"] by (subst app_postD(4) [OF b], subst app_postD(4) [OF a]) simp
  moreover have "fb'' + blocks_total n = fb + blocks_total (n + length p + length q)" "fb \<le> fb''"
    using app_postD(5,6) [OF a] app_postD(5,6) [OF b] by linarith+
  ultimately show ?thesis
    using app_postD(1-3) [OF b] unfolding app_post_def len by blast
qed

text \<open>Finding the block: the last block of the file if it has room, else a new one.\<close>

definition mid_post :: "nat \<Rightarrow> nat \<Rightarrow> dinode \<Rightarrow> mk \<Rightarrow> u32 \<Rightarrow> nat \<Rightarrow> u8 list list \<Rightarrow> dinode \<Rightarrow> bool" where
  "mid_post fb n d s x fb' im' d' \<longleftrightarrow>
     iappend_block (n div BSIZE) d s = Ok (x, d') (s\<lparr>img := im', freeblock := of_nat fb'\<rparr>) \<and>
     bwf fb' im' d' (Suc (n div BSIZE)) \<and> geo im' \<and> fresh fb' im' \<and> d' = d\<lparr>d_addrs := d_addrs d'\<rparr> \<and>
     unat x = faddr im' d' (n div BSIZE) \<and> fb' + blocks_total n = fb + Suc (n div BSIZE) + (if NDIRECT \<le> n div BSIZE then 1 else 0) \<and> fb \<le> fb' \<and>
     (\<forall>i < n. fbyte im' d' i = fbyte (img s) d i) \<and>
     owned im' d' (Suc (n div BSIZE)) \<subseteq> owned (img s) d (nblks n) \<union> {fb..<fb'} \<and>
     (\<forall>b. b \<notin> owned (img s) d (nblks n) \<union> {fb..<fb'} \<longrightarrow> im' ! b = img s ! b)"

lemma mid_old:
  assumes g: "geo (img s)" and w: "bwf fb (img s) d (nblks n)" and f: "fresh fb (img s)"
    and fb: "fb \<le> FSSIZE" "freeblock s = of_nat fb" and n: "n mod BSIZE \<noteq> 0"
  shows "\<exists>x fb' im' d'. mid_post fb n d s x fb' im' d'"
proof -
  have m: "nblks n = Suc (n div BSIZE)"
    using n by (simp add: nblks_div)
  obtain x where x: "iappend_block (n div BSIZE) d s = Ok (x, d) s" "unat x = faddr (img s) d (n div BSIZE)"
    using block_old [OF g w fb(1), of "n div BSIZE"] m by auto
  have "s = s\<lparr>img := img s, freeblock := of_nat fb\<rparr>"
    using fb(2) by simp
  then show ?thesis
    using x w g f m by (intro exI [of _ x] exI [of _ fb] exI [of _ "img s"] exI [of _ d]) (simp add: mid_post_def blocks_total_def)
qed

lemma mid_new:
  assumes g: "geo (img s)" and w: "bwf fb (img s) d (nblks n)" and f: "fresh fb (img s)"
    and fb: "59 \<le> fb" "fb + blocks_added (n div BSIZE) \<le> FSSIZE" "freeblock s = of_nat fb" and n: "n mod BSIZE = 0" "n < MAXFILE * BSIZE"
  shows "\<exists>x fb' im' d'. mid_post fb n d s x fb' im' d'"
proof -
  let ?m = "n div BSIZE" and ?fb = "fb + blocks_added (n div BSIZE)"
  have m: "nblks n = ?m" "?m < MAXFILE"
    using n by (simp_all add: nblks_div div_less_iff_less_mult)
  then obtain x d' im' where x: "new_post fb ?m d s x d' im'"
    using block_new [of s fb d ?m] g w f fb by metis
  have b: "bwf ?fb im' d' (Suc ?m)" and old: "\<forall>k < ?m. faddr im' d' k = faddr (img s) d k" and xa: "unat x = faddr im' d' ?m" "fb \<le> unat x"
    and fr: "if ?m < NDIRECT then im' = img s else iblk d' \<in> owned (img s) d ?m \<union> {fb..<?fb} \<and> (\<forall>b. b \<noteq> iblk d' \<longrightarrow> im' ! b = img s ! b)"
    using x unfolding new_post_def by blast+
  have keep: "im' ! b = img s ! b" if "?m < NDIRECT \<or> b \<noteq> iblk d'" for b
    using fr that by (auto split: if_splits)
  have "fbyte im' d' i = fbyte (img s) d i" if "i < n" for i
  proof -
    have "?m * BSIZE = n"
      using n(1) by (simp add: mod_eq_0_iff_dvd)
    then have k: "i div BSIZE < ?m"
      using that by (simp add: div_less_iff_less_mult)
    then show ?thesis
      using old keep [of "faddr im' d' (i div BSIZE)"] bwfD(10) [OF b, of "i div BSIZE"] by (auto simp: fbyte_def)
  qed
  moreover have "fresh ?fb im'"
    unfolding fresh_def
  proof (intro allI impI)
    fix c
    assume c: "?fb \<le> c" "c < FSSIZE"
    then have "im' ! c = img s ! c"
      using keep [of c] bwfD(7) [OF b] by (cases "?m < NDIRECT") auto
    then show "im' ! c = replicate BSIZE 0"
      using f c by (simp add: fresh_def)
  qed
  moreover have "owned im' d' (Suc ?m) \<subseteq> owned (img s) d ?m \<union> {fb..<?fb}"
  proof -
    have "faddr im' d' ` {..<Suc ?m} = insert (unat x) (faddr (img s) d ` {..<?m})"
      using old xa(1) image_cong [of "{..<?m}" "{..<?m}" "faddr im' d'" "faddr (img s) d"] by (simp add: lessThan_Suc)
    moreover have "unat x \<in> {fb..<?fb}"
      using xa bwfD(4) [OF b, of ?m] by simp
    moreover have "iblk d' \<in> owned (img s) d ?m \<union> {fb..<?fb}" if "NDIRECT \<le> ?m"
      using fr that by (simp split: if_splits)
    ultimately show ?thesis
      by (auto simp: owned_def split: if_splits)
  qed
  moreover have "im' ! b = img s ! b" if "b \<notin> owned (img s) d ?m \<union> {fb..<?fb}" for b
    using keep [of b] fr that by (cases "b = iblk d'") (auto split: if_splits)
  ultimately have "mid_post fb n d s x ?fb im' d'"
    using x m unfolding mid_post_def new_post_def by (simp add: blocks_total_def blocks_added_def)
  then show ?thesis
    by blast
qed

lemma same_block:
  fixes n j :: nat
  assumes "n mod 512 + j < 512"
  shows "(n + j) div 512 = n div 512" "(n + j) mod 512 = n mod 512 + j"
proof -
  define q r where "q = n div 512" "r = n mod 512"
  then have n: "n = 512 * q + r" "r + j < 512"
    using assms by simp_all
  then show "(n + j) div 512 = n div 512" "(n + j) mod 512 = n mod 512 + j"
    by (simp_all add: add.assoc)
qed

lemma room_left:
  fixes n k :: nat
  assumes "n + k \<le> (n div 512 + 1) * 512"
  shows "n mod 512 + k \<le> 512"
proof -
  define q r where "q = n div 512" "r = n mod 512"
  then have "n = 512 * q + r" "r < 512"
    by simp_all
  then have "r + k \<le> 512"
    using assms by simp
  then show ?thesis
    by (simp add: q_r_def)
qed

lemma earlier_in_block:
  fixes i n :: nat
  assumes "i < n" "i div 512 = n div 512"
  shows "i mod 512 < n mod 512"
  using assms div_mult_mod_eq [of i 512] div_mult_mod_eq [of n 512] by linarith

lemma mid_postD:
  assumes "mid_post fb n d s x fb' im' d'"
  shows "iappend_block (n div BSIZE) d s = Ok (x, d') (s\<lparr>img := im', freeblock := of_nat fb'\<rparr>)"
    "bwf fb' im' d' (Suc (n div BSIZE))" "geo im'" "fresh fb' im'" "d' = d\<lparr>d_addrs := d_addrs d'\<rparr>" "unat x = faddr im' d' (n div BSIZE)"
    "fb' + blocks_total n = fb + Suc (n div BSIZE) + (if NDIRECT \<le> n div BSIZE then 1 else 0)" "fb \<le> fb'"
    "i < n \<Longrightarrow> fbyte im' d' i = fbyte (img s) d i" "owned im' d' (Suc (n div BSIZE)) \<subseteq> owned (img s) d (nblks n) \<union> {fb..<fb'}"
    "b \<notin> owned (img s) d (nblks n) \<union> {fb..<fb'} \<Longrightarrow> im' ! b = img s ! b"
  using assms unfolding mid_post_def by blast+

text \<open>Writing part of the block that was found.\<close>

lemma write_part:
  assumes mid: "mid_post fb n d s x fb' im' d'" and p: "p \<noteq> []" "n + length p \<le> (n div BSIZE + 1) * BSIZE" and fb: "fb' \<le> FSSIZE"
  shows "app_post fb (img s) d n p fb' (im'[unat x := overlay (n - n div BSIZE * BSIZE) p (im' ! unat x)]) d'"
proof -
  let ?m = "n div BSIZE" and ?x = "unat x"
  let ?im = "im'[?x := overlay (n - ?m * BSIZE) p (im' ! ?x)]"
  note M = mid_postD [OF mid]
  have m: "nblks (n + length p) = Suc ?m"
    using nblks_step [of "length p" n] p by simp
  have off: "n - ?m * BSIZE = n mod BSIZE"
    by (simp add: minus_div_mult_eq_mod)
  have x: "?x < fb'" "?x \<noteq> iblk d'" "?x \<in> owned im' d' (Suc ?m)"
    using M(6) bwfD(4,10) [OF M(2), of ?m] by (auto simp: owned_def)
  have len: "length (im' ! ?x) = BSIZE" "?x < length im'" "length im' = FSSIZE"
    using M(3) x fb geo_nth [OF M(3), of ?x] by (auto simp: geo_def)
  have room: "n mod BSIZE + length p \<le> BSIZE"
    using p(2) by (rule room_left)
  have fa: "faddr ?im d' = faddr im' d'"
    using x(2) by (auto simp: fun_eq_iff faddr_def)
  have byte: "fbyte ?im d' i = (if i div BSIZE = ?m then overlay (n mod BSIZE) p (im' ! ?x) ! (i mod BSIZE) else fbyte im' d' i)"
    if "i div BSIZE \<le> ?m" for i
    using that fa bwfD(9) [OF M(2), of ?m "i div BSIZE"] M(6) len by (auto simp: fbyte_def off nth_list_update)
  have same: "fbyte ?im d' i = fbyte im' d' i" if "i < n" for i
  proof -
    have "i div BSIZE \<le> ?m" "i div BSIZE = ?m \<Longrightarrow> i mod BSIZE < n mod BSIZE"
      using that earlier_in_block [of i n] by (simp_all add: div_le_mono)
    then show ?thesis
      using byte [of i] len M(6) room by (cases "i div BSIZE = ?m") (simp_all add: fbyte_def nth_overlay)
  qed
  have new: "fbyte ?im d' (n + j) = p ! j" if "j < length p" for j
  proof -
    have "n mod BSIZE + j < BSIZE"
      using room that by simp
    then have "(n + j) div BSIZE = ?m" "(n + j) mod BSIZE = n mod BSIZE + j"
      by (simp_all only: same_block)
    then show ?thesis
      using byte [of "n + j"] len that room by (simp add: nth_overlay)
  qed
  have "bwf fb' ?im d' (Suc ?m)"
    using M(2) bwf_cong [OF fa] by simp
  moreover have "owned ?im d' (Suc ?m) = owned im' d' (Suc ?m)"
    by (simp add: owned_def fa)
  moreover have "geo ?im" "fresh fb' ?im"
    using M(3,4) len x room by (auto simp: fresh_def off)
  moreover have "fb' + blocks_total n = fb + blocks_total (n + length p)"
    using M(7) m by (simp add: blocks_total_def)
  moreover have "?im ! b = img s ! b" if "b \<notin> owned (img s) d (nblks n) \<union> {fb..<fb'}" for b
    using that x(3) M(10) M(11) [OF that] by (metis nth_list_update_neq subsetD)
  ultimately show ?thesis
    using M(5,8,9,10) same new unfolding app_post_def m by metis
qed

lemma blocks_total_mono: "m \<le> n \<Longrightarrow> blocks_total m \<le> blocks_total n"
  unfolding blocks_total_def nblks_def by (auto intro: div_le_mono add_mono le_SucI)

lemma mid_block:
  assumes "geo (img s)" "bwf fb (img s) d (nblks n)" "fresh fb (img s)" "59 \<le> fb" "freeblock s = of_nat fb"
    "0 < n1" "n + n1 \<le> (n div BSIZE + 1) * BSIZE" "n < MAXFILE * BSIZE" "fb + blocks_total (n + n1) \<le> FSSIZE + blocks_total n"
  obtains x fb' im' d' where "mid_post fb n d s x fb' im' d'"
proof (cases "n mod BSIZE = 0")
  case True
  then have "fb + blocks_added (n div BSIZE) \<le> FSSIZE"
    using assms(9) nblks_step [OF assms(6,7)] by (auto simp: blocks_total_def blocks_added_def nblks_div [of n] split: if_splits)
  then show ?thesis
    using mid_new [OF assms(1-4) _ assms(5) True assms(8)] that by blast
next
  case False
  have "blocks_total n \<le> blocks_total (n + n1)"
    by (rule blocks_total_mono) simp
  then have "fb \<le> FSSIZE"
    using assms(9) by linarith
  then show ?thesis
    using mid_old [OF assms(1-3) _ assms(5) False] that by blast
qed

lemma loop_step:
  assumes "p \<noteq> []" "unat (of_nat n :: u32) = n" "n div BSIZE < MAXFILE"
    and blk: "iappend_block (n div BSIZE) d s = Ok (x, d1) (s\<lparr>img := im1, freeblock := f1\<rparr>)" and g: "geo im1" and x: "unat x < FSSIZE"
    and n1: "n1 = min (length p) ((n div BSIZE + 1) * BSIZE - n)"
  shows "iappend_loop d (of_nat n) p s = iappend_loop d1 (of_nat (n + n1)) (drop n1 p)
     (s\<lparr>img := im1[unat x := overlay (n - n div BSIZE * BSIZE) (take n1 p) (im1 ! unat x)], freeblock := f1\<rparr>)"
proof -
  let ?s = "s\<lparr>img := im1, freeblock := f1\<rparr>"
  have r: "rsect x ?s = Ok (im1 ! unat x) ?s" and w: "wsect x y ?s = Ok () (s\<lparr>img := im1[unat x := y], freeblock := f1\<rparr>)" for y
    using rsect_ok [of ?s x] wsect_ok [of ?s x y] g x by simp_all
  show ?thesis
    by (subst iappend_loop.simps) (simp only: assms(1-3) Let_def blk bnd_simps r w if_False if_True not_True_eq_False case_prod_conv of_nat_add flip: n1)
qed

lemma loop_appends:
  assumes "geo (img s)" "bwf fb (img s) d (nblks n)" "fresh fb (img s)" "59 \<le> fb" "freeblock s = of_nat fb"
    "n + length p \<le> MAXFILE * BSIZE" "fb + blocks_total (n + length p) \<le> FSSIZE + blocks_total n"
  shows "\<exists>fb' im' d'. iappend_loop d (of_nat n) p s = Ok (d', of_nat (n + length p)) (s\<lparr>img := im', freeblock := of_nat fb'\<rparr>) \<and>
     app_post fb (img s) d n p fb' im' d'"
  using assms
proof (induction "length p" arbitrary: n p s d fb rule: less_induct)
  case less
  show ?case
  proof (cases "p = []")
    case True
    then have "iappend_loop d (of_nat n) p s = Ok (d, of_nat (n + length p)) (s\<lparr>img := img s, freeblock := of_nat fb\<rparr>)"
      using less.prems(5) by (subst iappend_loop.simps) simp
    then show ?thesis
      using True app_post_Nil [OF less.prems(2,1,3)] by blast
  next
    case False
    let ?m = "n div BSIZE"
    define n1 where "n1 = min (length p) ((?m + 1) * BSIZE - n)"
    have n1: "0 < n1" "n1 \<le> length p" "n + n1 \<le> (?m + 1) * BSIZE"
      using False dividend_less_div_times [of 512 n] unfolding n1_def by auto
    have lt: "n < MAXFILE * BSIZE"
      using less.prems(6) n1(1,2) by linarith
    then have n: "unat (of_nat n :: u32) = n" "?m < MAXFILE"
      by (simp_all add: unat_of_nat div_less_iff_less_mult)
    have "blocks_total (n + n1) \<le> blocks_total (n + length p)"
      by (rule blocks_total_mono) (use n1 in simp)
    then obtain x fb1 im1 d1 where mid: "mid_post fb n d s x fb1 im1 d1"
      using mid_block [OF less.prems(1-5) n1(1,3) lt] less.prems(7) by (meson add_left_mono le_trans)
    let ?im = "im1[unat x := overlay (n - ?m * BSIZE) (take n1 p) (im1 ! unat x)]"
    let ?s = "s\<lparr>img := ?im, freeblock := of_nat fb1\<rparr>"
    have tk: "length (take n1 p) = n1" "take n1 p \<noteq> []"
      using n1 False by auto
    note M = mid_postD [OF mid]
    have "blocks_total (n + n1) = Suc ?m + (if NDIRECT \<le> ?m then 1 else 0)"
      using nblks_step [OF n1(1,3)] by (simp add: blocks_total_def)
    then have fb1: "fb1 \<le> FSSIZE"
      using M(7) less.prems(7) \<open>blocks_total (n + n1) \<le> _\<close> by linarith
    have A: "app_post fb (img s) d n (take n1 p) fb1 ?im d1"
      using write_part [OF mid tk(2) _ fb1] tk n1(3) by simp
    note B = app_postD [OF A, unfolded tk]
    have x: "unat x < FSSIZE"
      using M(6) bwfD(4) [OF M(2), of ?m] fb1 by simp
    have "iappend_loop d (of_nat n) p s = iappend_loop d1 (of_nat (n + n1)) (drop n1 p) ?s"
      using loop_step [OF False n M(1) _ x n1_def] M(3) by simp
    moreover have "\<exists>fb' im' d'. iappend_loop d1 (of_nat (n + n1)) (drop n1 p) ?s =
        Ok (d', of_nat (n + n1 + length (drop n1 p))) (?s\<lparr>img := im', freeblock := of_nat fb'\<rparr>) \<and>
        app_post fb1 (img ?s) d1 (n + n1) (drop n1 p) fb' im' d'"
    proof (rule less.hyps)
      have l: "n + n1 + length (drop n1 p) = n + length p"
        using n1(2) by simp
      show "length (drop n1 p) < length p" "59 \<le> fb1"
        using n1 B(6) less.prems(4) by simp_all
      show "n + n1 + length (drop n1 p) \<le> MAXFILE * BSIZE"
        unfolding l by (rule less.prems)
      show "fb1 + blocks_total (n + n1 + length (drop n1 p)) \<le> FSSIZE + blocks_total (n + n1)"
        unfolding l using B(5) less.prems(7) by linarith
    qed (simp_all add: B(1-3))
    then obtain fb' im' d' where "iappend_loop d1 (of_nat (n + n1)) (drop n1 p) ?s =
        Ok (d', of_nat (n + n1 + length (drop n1 p))) (?s\<lparr>img := im', freeblock := of_nat fb'\<rparr>)"
      "app_post fb1 (img ?s) d1 (n + n1) (drop n1 p) fb' im' d'"
      by blast
    moreover from this(2) have "app_post fb (img s) d n p fb' im' d'"
      using app_post_trans [OF A, unfolded tk, of "drop n1 p" fb' im' d'] by simp
    ultimately show ?thesis
      using n1(2) by (intro exI conjI) simp_all
  qed
qed

end
