(* ===== verification/Mkimage.thy ===== *)
theory Mkimage
  imports Mkblocks
begin

section \<open>The image that mkfs builds\<close>

text \<open>
  The abstraction of the image is the list of its files, each with its type and its bytes (\<open>mk_abs\<close>); \<open>mk_wf\<close> is
  the invariant: every allocated inode has its own blocks below \<open>freeblock\<close>, everything from there on is zero.
  \<open>ialloc\<close> appends an empty file to the list, \<open>iappend\<close> extends one of its files, and the main program builds
  an image with the files of its command line.
\<close>

subsection \<open>Inodes\<close>

lemma din_at_slice:
  assumes "slice o1 64 d = slice o2 64 e" and "o1 + 64 \<le> length d" "o2 + 64 \<le> length e"
  shows "din_at d o1 = din_at e o2"
proof -
  have n: "d ! (o1 + k) = e ! (o2 + k)" if "k < 64" for k
    using that assms nth_slice [of o1 64 d k] nth_slice [of o2 64 e k] by simp
  have "get16 d (o1 + k) = get16 e (o2 + k)" if "k < 63" for k
    using n [of k] n [of "Suc k"] that by (simp add: get16_def)
  moreover have "get32 d (o1 + k) = get32 e (o2 + k)" if "k < 61" for k
    using n [of k] n [of "k + 1"] n [of "k + 2"] n [of "k + 3"] that by (simp add: get32_def add.assoc)
  ultimately show ?thesis
    by (simp add: din_at_def add.assoc del: add_2_eq_Suc') (metis add_0_right zero_less_numeral)
qed

lemma din_at_bytes:
  assumes "length (d_addrs x) = NDIRECT + 1"
  shows "din_at (din_bytes x) 0 = x" "length (din_bytes x) = 64"
proof -
  let ?h = "bytes16 (d_type x) @ bytes16 (d_major x) @ bytes16 (d_minor x) @ bytes16 (d_nlink x) @ bytes32 (d_size x)"
  have sh: "get32 (?h @ ys) (12 + j) = get32 ys j" for ys j
    by (simp add: get32_def nth_append add.commute)
  have b: "din_bytes x = ?h @ concat (map bytes32 (d_addrs x))"
    by (simp add: din_bytes_def)
  have "map (\<lambda>k. get32 (din_bytes x) (12 + 4 * k)) [0..<NDIRECT + 1] = d_addrs x"
    unfolding b sh using assms by (intro nth_equalityI) (simp_all add: get32_concat)
  moreover have "get16 (din_bytes x) 0 = d_type x" "get16 (din_bytes x) 2 = d_major x" "get16 (din_bytes x) 4 = d_minor x"
    "get16 (din_bytes x) 6 = d_nlink x" "get32 (din_bytes x) 8 = d_size x"
    by (simp_all add: din_bytes_def get16_def get32_def bytes16_def bytes32_def)
  ultimately show "din_at (din_bytes x) 0 = x"
    by (simp add: din_at_def numeral_2_eq_2)
  show "length (din_bytes x) = 64"
    using assms by (simp add: din_bytes_def)
qed

lemma din_at_overlay:
  assumes "length (d_addrs x) = NDIRECT + 1" "off + 64 \<le> length b"
  shows "din_at (overlay off (din_bytes x) b) off = x"
proof -
  have "din_at (overlay off (din_bytes x) b) off = din_at (din_bytes x) 0"
    by (rule din_at_slice) (use assms din_at_bytes(2) [OF assms(1)] in \<open>simp_all add: slice_overlay slice_def [of 0]\<close>)
  then show ?thesis
    using din_at_bytes(1) [OF assms(1)] by simp
qed

lemma din_at_overlay_other:
  assumes "length (d_addrs x) = NDIRECT + 1" "off + 64 \<le> length b" "k + 64 \<le> length b" "k + 64 \<le> off \<or> off + 64 \<le> k"
  shows "din_at (overlay off (din_bytes x) b) k = din_at b k"
  by (rule din_at_slice) (use assms din_at_bytes(2) [OF assms(1)] in \<open>simp_all add: slice_overlay_disjoint\<close>)

definition inode_at :: "u8 list list \<Rightarrow> nat \<Rightarrow> dinode" where
  "inode_at im i = din_at (im ! (32 + i div 8)) (i mod 8 * 64)"

definition put_inode :: "u8 list list \<Rightarrow> nat \<Rightarrow> dinode \<Rightarrow> u8 list list" where
  "put_inode im i d = im[32 + i div 8 := overlay (i mod 8 * 64) (din_bytes d) (im ! (32 + i div 8))]"

lemma inode_place:
  assumes "msb s = the_super" "i < 208"
  shows "unat (IBLOCK (of_nat i) (msb s)) = 32 + i div 8" "dinode_off (of_nat i) = i mod 8 * 64"
  using assms by (simp_all add: IBLOCK_def dinode_off_def the_super_def unat_word_ariths unat_of_nat unat_div unat_mod)

lemma rinode_ok:
  assumes "geo (img s)" "msb s = the_super" "i < 208"
  shows "rinode (of_nat i) s = Ok (inode_at (img s) i) s"
  using assms inode_place [OF assms(2,3)] rsect_ok [of s "IBLOCK (of_nat i) (msb s)"]
  by (simp add: rinode_def inode_at_def Let_def)

lemma winode_ok:
  assumes "geo (img s)" "msb s = the_super" "i < 208"
  shows "winode (of_nat i) d s = Ok () (s\<lparr>img := put_inode (img s) i d\<rparr>)"
  using assms inode_place [OF assms(2,3)] rsect_ok [of s "IBLOCK (of_nat i) (msb s)"] wsect_ok [of s "IBLOCK (of_nat i) (msb s)"]
  by (simp add: winode_def put_inode_def Let_def)

lemma put_inode:
  assumes g: "geo im" and i: "i < 208" and d: "length (d_addrs d) = NDIRECT + 1"
  shows "geo (put_inode im i d)" "inode_at (put_inode im i d) i = d" "j < 208 \<Longrightarrow> j \<noteq> i \<Longrightarrow> inode_at (put_inode im i d) j = inode_at im j"
    "b < 32 \<or> 58 \<le> b \<Longrightarrow> put_inode im i d ! b = im ! b"
proof -
  have len: "length im = FSSIZE" "32 + k div 8 < FSSIZE" "length (im ! (32 + k div 8)) = BSIZE" if "k < 208" for k
    using g that geo_nth [OF g, of "32 + k div 8"] by (auto simp: geo_def)
  have off: "k mod 8 * 64 + 64 \<le> BSIZE" for k :: nat
    using mod_less_divisor [of 8 k] by simp
  show "geo (put_inode im i d)"
    unfolding put_inode_def by (rule geo_upd [OF g]) (use len [OF i] off [of i] din_at_bytes(2) [OF d] in simp)
  show "inode_at (put_inode im i d) i = d"
    using len [OF i] off [of i] by (simp add: inode_at_def put_inode_def din_at_overlay [OF d])
  show "inode_at (put_inode im i d) j = inode_at im j" if "j < 208" "j \<noteq> i"
  proof (cases "j div 8 = i div 8")
    case True
    then have "j mod 8 \<noteq> i mod 8"
      using that(2) by (metis div_mult_mod_eq)
    then have "j mod 8 * 64 + 64 \<le> i mod 8 * 64 \<or> i mod 8 * 64 + 64 \<le> j mod 8 * 64"
      by linarith
    then show ?thesis
      using True len [OF i] off [of i] off [of j] by (simp add: inode_at_def put_inode_def din_at_overlay_other [OF d])
  qed (simp add: inode_at_def put_inode_def)
  show "put_inode im i d ! b = im ! b" if "b < 32 \<or> 58 \<le> b"
  proof -
    have "32 + i div 8 \<noteq> b"
      using i that by auto
    then show ?thesis
      by (simp add: put_inode_def)
  qed
qed

subsection \<open>The files of the image\<close>

abbreviation size_at :: "u8 list list \<Rightarrow> nat \<Rightarrow> nat" where
  "size_at im i \<equiv> unat (d_size (inode_at im i))"

definition file_at :: "u8 list list \<Rightarrow> nat \<Rightarrow> u16 \<times> u8 list" where
  "file_at im i = (d_type (inode_at im i), map (fbyte im (inode_at im i)) [0..<size_at im i])"

definition owned_at :: "u8 list list \<Rightarrow> nat \<Rightarrow> nat set" where
  "owned_at im i = owned im (inode_at im i) (nblks (size_at im i))"

definition file_wf :: "nat \<Rightarrow> u8 list list \<Rightarrow> nat \<Rightarrow> bool" where
  "file_wf fb im i \<longleftrightarrow> bwf fb im (inode_at im i) (nblks (size_at im i)) \<and> size_at im i \<le> MAXFILE * BSIZE"

definition mk_inv :: "nat \<Rightarrow> nat \<Rightarrow> u8 list list \<Rightarrow> bool" where
  "mk_inv fb N im \<longleftrightarrow> geo im \<and> fresh fb im \<and> 59 \<le> fb \<and> fb \<le> FSSIZE \<and> 1 \<le> N \<and> N \<le> 208 \<and>
     (\<forall>i. 1 \<le> i \<longrightarrow> i < N \<longrightarrow> file_wf fb im i) \<and>
     (\<forall>i j. 1 \<le> i \<longrightarrow> i < N \<longrightarrow> 1 \<le> j \<longrightarrow> j < N \<longrightarrow> i \<noteq> j \<longrightarrow> owned_at im i \<inter> owned_at im j = {})"

lemma owned_range: "bwf fb im d m \<Longrightarrow> b \<in> owned im d m \<Longrightarrow> 59 \<le> b \<and> b < fb"
  using bwfD(3,4,6,7) [of fb im d m] by (auto simp: owned_def split: if_splits)

lemma owned_at_range: "file_wf fb im i \<Longrightarrow> b \<in> owned_at im i \<Longrightarrow> 59 \<le> b \<and> b < fb"
  unfolding file_wf_def owned_at_def by (blast dest: owned_range)

lemma fbyte_keep:
  assumes "bwf fb im d (nblks n)" "\<forall>b \<in> owned im d (nblks n). im' ! b = im ! b" "i < n"
  shows "fbyte im' d i = fbyte im d i"
proof -
  have "i div BSIZE < nblks n"
    using assms(3) div_le_mono [of i n 512] earlier_in_block [of i n] by (auto simp: nblks_div le_less)
  then have "faddr im d (i div BSIZE) \<in> owned im d (nblks n)"
    by (simp add: owned_def)
  then show ?thesis
    using assms(2) bwf_frame(1) [OF assms(1,2) order_refl] by (simp add: fbyte_def)
qed

text \<open>A file whose inode and whose blocks are kept is kept.\<close>

lemma file_keep:
  assumes w: "file_wf fb im i" and d: "inode_at im' i = inode_at im i" and k: "\<forall>b \<in> owned_at im i. im' ! b = im ! b" and fb: "fb \<le> fb'"
  shows "file_wf fb' im' i" "owned_at im' i = owned_at im i" "file_at im' i = file_at im i"
proof -
  have b: "bwf fb im (inode_at im i) (nblks (size_at im i))"
    using w by (simp add: file_wf_def)
  note f = bwf_frame [OF b k [unfolded owned_at_def] fb]
  show "file_wf fb' im' i" "owned_at im' i = owned_at im i"
    using w f by (simp_all add: file_wf_def owned_at_def d)
  show "file_at im' i = file_at im i"
    using fbyte_keep [OF b k [unfolded owned_at_def]] by (simp add: file_at_def d)
qed

lemma fbyte_cong: "d_addrs d' = d_addrs d \<Longrightarrow> im' ! iblk d = im ! iblk d \<or> iblk d = 0 \<Longrightarrow> faddr im' d' = faddr im d"
  by (auto simp: fun_eq_iff faddr_def iblk_def)

text \<open>The file that was extended.\<close>

lemma file_extended:
  assumes a: "app_post fb im d n p fb' im1 d1" and k: "\<forall>b. 59 \<le> b \<longrightarrow> im2 ! b = im1 ! b"
    and d2: "inode_at im2 i = d1\<lparr>d_size := of_nat (n + length p)\<rparr>" and n: "n + length p \<le> MAXFILE * BSIZE"
  shows "file_wf fb' im2 i" "owned_at im2 i \<subseteq> owned im d (nblks n) \<union> {fb..<fb'}"
    "file_at im2 i = (d_type d, map (fbyte im d) [0..<n] @ p)"
proof -
  note A = app_postD [OF a]
  have sz: "size_at im2 i = n + length p"
    using n by (simp add: d2 unat_of_nat del: of_nat_add)
  have i2: "iblk (inode_at im2 i) = iblk d1"
    by (simp add: d2 iblk_def)
  have "59 \<le> iblk d1 \<or> iblk d1 = 0"
    using bwfD(6,8) [OF A(1)] by linarith
  then have fa: "faddr im2 (inode_at im2 i) = faddr im1 d1"
    using k by (intro fbyte_cong) (auto simp: d2)
  show "file_wf fb' im2 i"
    using A(1) n by (simp only: file_wf_def sz bwf_def fa i2) (simp add: d2)
  have "owned_at im2 i = owned im1 d1 (nblks (n + length p))"
    by (simp add: owned_at_def owned_def sz fa i2)
  then show "owned_at im2 i \<subseteq> owned im d (nblks n) \<union> {fb..<fb'}"
    using A(9) by simp
  have byte: "fbyte im2 (inode_at im2 i) j = fbyte im1 d1 j" if "j < n + length p" for j
  proof -
    have "faddr im1 d1 (j div BSIZE) \<in> owned im1 d1 (nblks (n + length p))"
      using that div_le_mono [of j "n + length p" 512] earlier_in_block [of j "n + length p"] by (auto simp: owned_def nblks_div le_less)
    then have "59 \<le> faddr im1 d1 (j div BSIZE)"
      using owned_range [OF A(1)] by simp
    then show ?thesis
      using k by (simp add: fbyte_def fa)
  qed
  have "d_type (inode_at im2 i) = d_type d"
    using arg_cong [OF A(4), of d_type] by (simp add: d2)
  moreover have "map (fbyte im2 (inode_at im2 i)) [0..<n + length p] = map (fbyte im d) [0..<n] @ p"
  proof (rule nth_equalityI)
    fix j
    assume "j < length (map (fbyte im2 (inode_at im2 i)) [0..<n + length p])"
    then show "map (fbyte im2 (inode_at im2 i)) [0..<n + length p] ! j = (map (fbyte im d) [0..<n] @ p) ! j"
      using byte [of j] A(7) [of j] A(8) [of "j - n"] by (cases "j < n") (simp_all add: nth_append)
  qed simp
  ultimately show "file_at im2 i = (d_type d, map (fbyte im d) [0..<n] @ p)"
    by (simp add: file_at_def sz)
qed

lemma mk_invD:
  assumes "mk_inv fb N im"
  shows "geo im" "fresh fb im" "59 \<le> fb" "fb \<le> FSSIZE" "1 \<le> N" "N \<le> 208" "1 \<le> i \<Longrightarrow> i < N \<Longrightarrow> file_wf fb im i"
    "1 \<le> i \<Longrightarrow> i < N \<Longrightarrow> 1 \<le> j \<Longrightarrow> j < N \<Longrightarrow> i \<noteq> j \<Longrightarrow> owned_at im i \<inter> owned_at im j = {}"
  using assms unfolding mk_inv_def by blast+

text \<open>A change that keeps the inodes and the blocks of all files but \<open>i\<close>.\<close>

lemma inv_change:
  assumes v: "mk_inv fb N im" and g: "geo im'" "fresh fb' im'" "fb \<le> fb'" "fb' \<le> FSSIZE" and N: "1 \<le> N'" "N' \<le> 208"
    and dom: "\<forall>j < N'. j \<noteq> i \<longrightarrow> j < N"
    and d: "\<forall>j. 1 \<le> j \<longrightarrow> j < N \<longrightarrow> j \<noteq> i \<longrightarrow> inode_at im' j = inode_at im j"
    and k: "\<forall>j. 1 \<le> j \<longrightarrow> j < N \<longrightarrow> j \<noteq> i \<longrightarrow> (\<forall>b \<in> owned_at im j. im' ! b = im ! b)"
    and f: "file_wf fb' im' i" "owned_at im' i \<subseteq> B \<union> {fb..<fb'}"
    and B: "\<forall>j. 1 \<le> j \<longrightarrow> j < N \<longrightarrow> j \<noteq> i \<longrightarrow> owned_at im j \<inter> B = {}"
  shows "mk_inv fb' N' im'" "\<forall>j. 1 \<le> j \<longrightarrow> j < N \<longrightarrow> j \<noteq> i \<longrightarrow> file_at im' j = file_at im j"
proof -
  note V = mk_invD [OF v]
  have keep: "file_wf fb' im' j" "owned_at im' j = owned_at im j" "file_at im' j = file_at im j" "owned_at im j \<subseteq> {59..<fb}"
    if "1 \<le> j" "j < N" "j \<noteq> i" for j
    using file_keep [OF V(7) [OF that(1,2)] d [rule_format, OF that] _ g(3)] k [rule_format, OF that]
      owned_range [of fb im "inode_at im j"] V(7) [OF that(1,2)]
    by (auto simp: file_wf_def owned_at_def)
  show "\<forall>j. 1 \<le> j \<longrightarrow> j < N \<longrightarrow> j \<noteq> i \<longrightarrow> file_at im' j = file_at im j"
    using keep(3) by blast
  have "file_wf fb' im' j" if "1 \<le> j" "j < N'" for j
    using f(1) keep(1) dom that by (cases "j = i") auto
  moreover have away: "owned_at im' j \<inter> owned_at im' i = {}" if "1 \<le> j" "j < N'" "j \<noteq> i" for j
  proof -
    have j: "j < N"
      using dom that by blast
    have "owned_at im j \<inter> {fb..<fb'} = {}"
      using keep(4) [OF that(1) j that(3)] by auto
    then show ?thesis
      using f(2) B [rule_format, OF that(1) j that(3)] keep(2) [OF that(1) j that(3)] by blast
  qed
  moreover have "owned_at im' j \<inter> owned_at im' l = {}" if "1 \<le> j" "j < N'" "1 \<le> l" "l < N'" "j \<noteq> l" for j l
  proof (cases "j = i \<or> l = i")
    case True
    then show ?thesis
      using away [of j] away [of l] that by blast
  next
    case False
    then show ?thesis
      using keep(2) [of j] keep(2) [of l] V(8) [of j l] dom that by metis
  qed
  ultimately show "mk_inv fb' N' im'"
    using g N V(3) unfolding mk_inv_def by (meson le_trans)
qed

subsection \<open>The operations on the list of files\<close>

definition mk_ok :: "mk \<Rightarrow> bool" where
  "mk_ok s \<longleftrightarrow> msb s = the_super \<and> mk_inv (unat (freeblock s)) (unat (freeinode s)) (img s)"

definition mk_abs :: "mk \<Rightarrow> (u16 \<times> u8 list) list" where
  "mk_abs s = map (file_at (img s)) [1..<unat (freeinode s)]"

lemma nth_mk_abs: "1 \<le> i \<Longrightarrow> i < unat (freeinode s) \<Longrightarrow> mk_abs s ! (i - 1) = file_at (img s) i"
  by (simp add: mk_abs_def)

lemma iappend_ok:
  assumes w: "mk_ok s" and i: "1 \<le> i" "i < unat (freeinode s)" and n: "n = size_at (img s) i"
    and fits: "n + length p \<le> MAXFILE * BSIZE" "unat (freeblock s) + blocks_total (n + length p) \<le> FSSIZE + blocks_total n"
  shows "\<exists>s'. iappend (of_nat i) p s = Ok () s' \<and> mk_ok s' \<and> freeinode s' = freeinode s \<and>
     unat (freeblock s') + blocks_total n = unat (freeblock s) + blocks_total (n + length p) \<and>
     file_at (img s') i = (fst (file_at (img s) i), snd (file_at (img s) i) @ p) \<and>
     (\<forall>j. 1 \<le> j \<longrightarrow> j < unat (freeinode s) \<longrightarrow> j \<noteq> i \<longrightarrow> file_at (img s') j = file_at (img s) j) \<and>
     (\<forall>b < 32. img s' ! b = img s ! b)"
proof -
  let ?im = "img s" and ?fb = "unat (freeblock s)" and ?N = "unat (freeinode s)"
  let ?d = "inode_at ?im i"
  have v: "mk_inv ?fb ?N ?im" and sb: "msb s = the_super"
    using w by (simp_all add: mk_ok_def)
  note V = mk_invD [OF v]
  have i208: "i < 208"
    using i V(6) by simp
  have fw: "bwf ?fb ?im ?d (nblks n)"
    using V(7) [OF i] by (simp add: file_wf_def n)
  obtain fb' im1 d1 where l: "iappend_loop ?d (of_nat n) p s = Ok (d1, of_nat (n + length p)) (s\<lparr>img := im1, freeblock := of_nat fb'\<rparr>)"
    and a: "app_post ?fb ?im ?d n p fb' im1 d1"
    using loop_appends [OF V(1) fw V(2,3) _ fits] by auto
  note A = app_postD [OF a]
  let ?d2 = "d1\<lparr>d_size := of_nat (n + length p)\<rparr>" and ?s1 = "s\<lparr>img := im1, freeblock := of_nat fb'\<rparr>"
  let ?im2 = "put_inode im1 i ?d2"
  have d2: "length (d_addrs ?d2) = NDIRECT + 1"
    using bwfD(1) [OF A(1)] by simp
  note P = put_inode [OF A(2) i208 d2]
  have fb': "fb' \<le> FSSIZE" "unat (of_nat fb' :: u32) = fb'"
    using A(5) fits(2) by (auto simp: unat_of_nat)
  have low: "im1 ! b = ?im ! b" if "b < 59" for b
    by (rule A(10)) (use owned_range [OF fw, of b] V(3) that in auto)
  have low2: "?im2 ! b = ?im ! b" if "b < 32" for b
    using P(4) low that by simp
  have kept: "inode_at ?im2 j = inode_at ?im j" if "1 \<le> j" "j < ?N" "j \<noteq> i" for j
  proof -
    have "32 + j div 8 < 59" "j < 208"
      using that V(6) by auto
    then show ?thesis
      using P(3) that low by (simp add: inode_at_def)
  qed
  have run: "iappend (of_nat i) p s = Ok () (?s1\<lparr>img := ?im2\<rparr>)"
    using l rinode_ok [OF V(1) sb i208] winode_ok [of ?s1 i ?d2] A(2) sb i208 n by (simp add: iappend_def)
  have own: "owned_at ?im i = owned ?im ?d (nblks n)"
    by (simp add: owned_at_def n)
  have "\<forall>b. 59 \<le> b \<longrightarrow> ?im2 ! b = im1 ! b"
    using P(4) by simp
  note F = file_extended [OF a this P(2) fits(1), folded own]
  have fr: "fresh fb' ?im2"
    using A(3,6) P(4) V(3) by (auto simp: fresh_def)
  have blk: "?im2 ! b = ?im ! b" if "1 \<le> j" "j < ?N" "j \<noteq> i" "b \<in> owned_at ?im j" for j b
  proof -
    have "59 \<le> b" "b < ?fb"
      using owned_at_range [OF V(7) [OF that(1,2)] that(4)] by simp_all
    moreover have "b \<notin> owned_at ?im i"
      using V(8) [OF that(1,2) i that(3)] that(4) by blast
    ultimately show ?thesis
      using A(10) [of b, folded own] P(4) [of b] by simp
  qed
  have C: "mk_inv fb' ?N ?im2" "\<forall>j. 1 \<le> j \<longrightarrow> j < ?N \<longrightarrow> j \<noteq> i \<longrightarrow> file_at ?im2 j = file_at ?im j"
    by (rule inv_change [OF v P(1) fr A(6) fb'(1) V(5,6) _ _ _ F(1,2)]; use kept blk V(8) [OF _ _ i] in blast)+
  have "mk_ok (s\<lparr>img := ?im2, freeblock := of_nat fb'\<rparr>)"
    using C(1) fb'(2) sb by (simp add: mk_ok_def)
  moreover have "file_at ?im2 i = (fst (file_at ?im i), snd (file_at ?im i) @ p)"
    unfolding F(3) by (simp add: file_at_def n)
  moreover have "\<forall>j. 1 \<le> j \<longrightarrow> j < ?N \<longrightarrow> j \<noteq> i \<longrightarrow> file_at ?im2 j = file_at ?im j"
    by (rule C(2))
  ultimately show ?thesis
    using run A(5) fb'(2) low2 by (intro exI [of _ "s\<lparr>img := ?im2, freeblock := of_nat fb'\<rparr>"]) simp
qed

text \<open>The blocks that a list of files uses, and whether the image has room for it.\<close>

definition used_by :: "(u16 \<times> u8 list) list \<Rightarrow> nat" where
  "used_by xs = (\<Sum>f\<leftarrow>xs. blocks_total (length (snd f)))"

definition fits :: "(u16 \<times> u8 list) list \<Rightarrow> bool" where
  "fits xs \<longleftrightarrow> nmeta + used_by xs \<le> FSSIZE \<and> length xs < 208 \<and> list_all (\<lambda>f. length (snd f) \<le> MAXFILE * BSIZE) xs"

definition abs_append :: "nat \<Rightarrow> u8 list \<Rightarrow> (u16 \<times> u8 list) list \<Rightarrow> (u16 \<times> u8 list) list" where
  "abs_append i p xs = xs[i := (fst (xs ! i), snd (xs ! i) @ p)]"

definition mk_wf :: "mk \<Rightarrow> bool" where
  "mk_wf s \<longleftrightarrow> mk_ok s \<and> unat (freeblock s) = nmeta + used_by (mk_abs s)"

lemma used_by_upd: "i < length xs \<Longrightarrow> used_by (xs[i := f]) + blocks_total (length (snd (xs ! i))) = used_by xs + blocks_total (length (snd f))"
  by (induction xs arbitrary: i) (auto simp: used_by_def split: nat.split)

lemma length_mk_abs [simp]: "length (mk_abs s) = unat (freeinode s) - 1"
  by (simp add: mk_abs_def)

lemma iappend_abs:
  assumes w: "mk_wf s" and i: "i < length (mk_abs s)" and f: "fits (abs_append i p (mk_abs s))"
  shows "\<exists>s'. iappend (of_nat (Suc i)) p s = Ok () s' \<and> mk_wf s' \<and> mk_abs s' = abs_append i p (mk_abs s) \<and>
     (\<forall>b < 32. img s' ! b = img s ! b)"
proof -
  let ?N = "unat (freeinode s)" and ?n = "size_at (img s) (Suc i)"
  have ok: "mk_ok s" and fb: "unat (freeblock s) = nmeta + used_by (mk_abs s)"
    using w by (simp_all add: mk_wf_def)
  have I: "1 \<le> Suc i" "Suc i < ?N"
    using i by auto
  have nth: "mk_abs s ! i = file_at (img s) (Suc i)"
    using nth_mk_abs [OF I] by simp
  have len: "length (snd (mk_abs s ! i)) = ?n"
    unfolding nth by (simp add: file_at_def)
  have u: "used_by (abs_append i p (mk_abs s)) + blocks_total ?n = used_by (mk_abs s) + blocks_total (?n + length p)"
    using used_by_upd [OF i] len by (simp add: abs_append_def)
  have "list_all (\<lambda>f. length (snd f) \<le> MAXFILE * BSIZE) (abs_append i p (mk_abs s))" "nmeta + used_by (abs_append i p (mk_abs s)) \<le> FSSIZE"
    using f unfolding fits_def by blast+
  then have room: "?n + length p \<le> MAXFILE * BSIZE" "unat (freeblock s) + blocks_total (?n + length p) \<le> FSSIZE + blocks_total ?n"
    using i len fb u by (auto simp: abs_append_def list_all_length nth_list_update)
  obtain s' where s': "iappend (of_nat (Suc i)) p s = Ok () s'" "mk_ok s'" "freeinode s' = freeinode s"
    "unat (freeblock s') + blocks_total ?n = unat (freeblock s) + blocks_total (?n + length p)"
    "file_at (img s') (Suc i) = (fst (file_at (img s) (Suc i)), snd (file_at (img s) (Suc i)) @ p)"
    "\<forall>j. 1 \<le> j \<longrightarrow> j < ?N \<longrightarrow> j \<noteq> Suc i \<longrightarrow> file_at (img s') j = file_at (img s) j" "\<forall>b < 32. img s' ! b = img s ! b"
    using iappend_ok [OF ok I refl room] by blast
  have "mk_abs s' = abs_append i p (mk_abs s)"
  proof (rule nth_equalityI)
    show "length (mk_abs s') = length (abs_append i p (mk_abs s))"
      using s'(3) by (simp add: abs_append_def)
    fix j
    assume "j < length (mk_abs s')"
    then have j: "1 \<le> Suc j" "Suc j < ?N" "Suc j < unat (freeinode s')"
      using s'(3) by auto
    show "mk_abs s' ! j = abs_append i p (mk_abs s) ! j"
      using nth_mk_abs [OF j(1,3)] nth_mk_abs [OF j(1,2)] s'(5) s'(6) j nth i by (cases "j = i") (simp_all add: abs_append_def)
  qed
  then show ?thesis
    using s' u fb by (intro exI [of _ s']) (simp add: mk_wf_def)
qed

definition new_inode :: "u16 \<Rightarrow> dinode" where
  "new_inode ty = \<lparr>d_type = ty, d_major = 0, d_minor = 0, d_nlink = 1, d_size = 0, d_addrs = replicate (NDIRECT + 1) 0\<rparr>"

lemma new_inode_simps [simp]: "d_size (new_inode ty) = 0" "d_type (new_inode ty) = ty"
  by (simp_all add: new_inode_def)

lemma bwf_new: "bwf fb im (new_inode ty) 0"
proof -
  have i: "iblk (new_inode ty) = 0"
    by (simp add: iblk_def new_inode_def)
  moreover have "faddr im (new_inode ty) k = 0" for k
    using i by (simp add: faddr_def) (simp add: new_inode_def)
  moreover have "length (d_addrs (new_inode ty)) = NDIRECT + 1"
    by (simp add: new_inode_def)
  ultimately show ?thesis
    by (simp add: bwf_def)
qed

lemma nblks_0 [simp]: "nblks 0 = 0" "blocks_total 0 = 0"
  by (simp_all add: nblks_def blocks_total_def)

lemma mk_ialloc_abs:
  assumes w: "mk_wf s" and n: "length (mk_abs s) < 207"
  shows "\<exists>s'. mk_ialloc ty s = Ok (of_nat (Suc (length (mk_abs s)))) s' \<and> mk_wf s' \<and> mk_abs s' = mk_abs s @ [(ty, [])] \<and>
     (\<forall>b < 32. img s' ! b = img s ! b)"
proof -
  let ?N = "unat (freeinode s)" and ?fb = "unat (freeblock s)" and ?d = "new_inode ty"
  let ?im = "put_inode (img s) ?N ?d"
  let ?s = "s\<lparr>img := ?im, freeinode := freeinode s + 1\<rparr>"
  have v: "mk_inv ?fb ?N (img s)" and sb: "msb s = the_super" and fb: "?fb = nmeta + used_by (mk_abs s)"
    using w unfolding mk_wf_def mk_ok_def by blast+
  note V = mk_invD [OF v]
  have N: "?N < 208" "of_nat ?N = freeinode s" "unat (freeinode s + 1) = Suc ?N" "Suc (length (mk_abs s)) = ?N"
    using n V(5) by (simp_all add: unat_word_ariths)
  have d: "length (d_addrs ?d) = NDIRECT + 1"
    by (simp add: new_inode_def)
  note P = put_inode [OF V(1) N(1) d]
  have sz: "size_at ?im ?N = 0"
    by (simp add: P(2))
  have run: "mk_ialloc ty s = Ok (freeinode s) ?s"
    using winode_ok [of "s\<lparr>freeinode := freeinode s + 1\<rparr>" ?N ?d] V(1) sb N(1,2) by (simp add: mk_ialloc_def new_inode_def Let_def)
  have fr: "fresh ?fb ?im"
    using V(2,3) P(4) by (simp add: fresh_def)
  have new: "file_wf ?fb ?im ?N" "owned_at ?im ?N \<subseteq> {} \<union> {?fb..<?fb}"
    using bwf_new [of ?fb ?im ty] by (simp_all add: file_wf_def owned_at_def owned_def sz P(2))
  have kept: "inode_at ?im j = inode_at (img s) j" if "1 \<le> j" "j < ?N" for j
    using P(3) that N(1) by simp
  have blk: "?im ! b = img s ! b" if "1 \<le> j" "j < ?N" "b \<in> owned_at (img s) j" for j b
    using owned_at_range [OF V(7) [OF that(1,2)] that(3)] P(4) [of b] by simp
  have C: "mk_inv ?fb (Suc ?N) ?im" "\<forall>j. 1 \<le> j \<longrightarrow> j < ?N \<longrightarrow> j \<noteq> ?N \<longrightarrow> file_at ?im j = file_at (img s) j"
    by (rule inv_change [where N' = "Suc ?N", OF v P(1) fr order_refl V(4) _ _ _ _ _ new]; use kept blk N(1) in auto)+
  have "mk_abs ?s = mk_abs s @ [(ty, [])]"
  proof -
    have "file_at ?im ?N = (ty, [])"
      by (simp add: file_at_def sz P(2))
    then show ?thesis
      using C(2) V(5) N(3) by (simp add: mk_abs_def)
  qed
  moreover have "mk_ok ?s"
    using C(1) sb N(3) by (simp add: mk_ok_def)
  moreover have "\<forall>b < 32. img ?s ! b = img s ! b"
    using P(4) by simp
  ultimately show ?thesis
    using run fb N(2,4) by (intro exI [of _ ?s]) (simp add: mk_wf_def used_by_def)
qed

subsection \<open>Copying the files\<close>

text \<open>Growing the files of a list, or appending files, never makes room.\<close>

lemma used_by_append: "used_by (xs @ ys) = used_by xs + used_by ys"
  by (simp add: used_by_def)

lemma fits_prefix:
  assumes "fits ys" "list_all2 (\<lambda>f g. length (snd f) \<le> length (snd g)) xs (take (length xs) ys)"
  shows "fits xs"
proof -
  have "used_by xs \<le> used_by (take (length xs) ys)"
    using assms(2) unfolding used_by_def by (induction rule: list_all2_induct) (auto intro: add_mono blocks_total_mono)
  also have "\<dots> \<le> used_by (take (length xs) ys) + used_by (drop (length xs) ys)"
    by simp
  also have "\<dots> = used_by ys"
    by (simp flip: used_by_append)
  finally have "used_by xs \<le> used_by ys" .
  moreover have "length xs \<le> length ys"
    using list_all2_lengthD [OF assms(2)] by simp
  moreover have "list_all (\<lambda>f. length (snd f) \<le> MAXFILE * BSIZE) xs"
    unfolding list_all_length
  proof (intro allI impI)
    fix k
    assume k: "k < length xs"
    then have "length (snd (xs ! k)) \<le> length (snd (ys ! k))" "k < length ys"
      using list_all2_nthD [OF assms(2) k] list_all2_lengthD [OF assms(2)] by simp_all
    moreover from this(2) have "length (snd (ys ! k)) \<le> MAXFILE * BSIZE"
      using assms(1) by (simp add: fits_def list_all_length)
    ultimately show "length (snd (xs ! k)) \<le> MAXFILE * BSIZE"
      by linarith
  qed
  ultimately show ?thesis
    using assms(1) by (simp add: fits_def)
qed

lemma abs_append_twice: "i < length xs \<Longrightarrow> abs_append i q (abs_append i p xs) = abs_append i (p @ q) xs"
  by (simp add: abs_append_def)

lemma length_abs_append [simp]: "length (abs_append i p xs) = length xs"
  by (simp add: abs_append_def)

lemma fits_abs_append: "fits (abs_append i (p @ q) xs) \<Longrightarrow> fits (abs_append i p xs)"
  by (erule fits_prefix, cases "i < length xs") (simp_all add: abs_append_def list_all2_conv_all_nth nth_list_update)

lemma copy_file_abs:
  assumes "mk_wf s" "i < length (mk_abs s)" "fits (abs_append i (concat bs) (mk_abs s))" "[] \<notin> set bs"
  shows "\<exists>s'. copy_file (of_nat (Suc i)) bs s = Ok () s' \<and> mk_wf s' \<and> mk_abs s' = abs_append i (concat bs) (mk_abs s) \<and>
     (\<forall>b < 32. img s' ! b = img s ! b)"
  using assms
proof (induction bs arbitrary: s)
  case Nil
  then show ?case
    by (simp add: abs_append_def)
next
  case (Cons b bs)
  then obtain s1 where 1: "iappend (of_nat (Suc i)) b s = Ok () s1" "mk_wf s1" "mk_abs s1 = abs_append i b (mk_abs s)"
    "\<forall>b < 32. img s1 ! b = img s ! b"
    using iappend_abs [OF Cons.prems(1,2), of b] fits_abs_append [of i b "concat bs" "mk_abs s"] by auto
  have "abs_append i (concat bs) (mk_abs s1) = abs_append i (concat (b # bs)) (mk_abs s)"
    using 1(3) abs_append_twice [OF Cons.prems(2)] by simp
  then show ?case
    using Cons.IH [OF 1(2)] 1 Cons.prems(2-4) by auto
qed

definition stored_name :: "u8 list \<Rightarrow> u8 list" where
  "stored_name name = (if name \<noteq> [] \<and> hd name = 95 then tl name else name)"

definition entry :: "nat \<Rightarrow> u8 list \<Rightarrow> u8 list" where
  "entry i name = mk_dirent (of_nat i) (strncpy (str_of name) DIRSIZ)"

fun entries :: "nat \<Rightarrow> (u8 list \<times> u8 list list option) list \<Rightarrow> u8 list" where
  "entries i [] = []"
| "entries i ((name, body) # fs) = entry i (stored_name name) @ entries (Suc i) fs"

definition copies :: "(u8 list \<times> u8 list list option) list \<Rightarrow> (u16 \<times> u8 list) list" where
  "copies fs = map (\<lambda>(name, body). (T_FILE, concat (the body))) fs"

definition readable :: "(u8 list \<times> u8 list list option) list \<Rightarrow> bool" where
  "readable fs = list_all (\<lambda>(name, body). 47 \<notin> set name \<and> body \<noteq> None \<and> [] \<notin> set (the body)) fs"

lemma add_entry_eq: "add_entry dir (of_nat i) name s = iappend dir (entry i name) s"
proof -
  have "ucast (of_nat i :: u32) = (of_nat i :: u16)"
    by (simp add: unsigned_of_nat word_of_nat_eq_iff)
  then show ?thesis
    by (simp add: add_entry_def entry_def)
qed

lemma copy_files_abs:
  assumes "mk_wf s" "mk_abs s = (T_DIR, root) # xs" "readable fs" "fits ((T_DIR, root @ entries (length xs + 2) fs) # xs @ copies fs)"
  shows "\<exists>s'. copy_files 1 fs s = Ok () s' \<and> mk_wf s' \<and> mk_abs s' = (T_DIR, root @ entries (length xs + 2) fs) # xs @ copies fs \<and>
     (\<forall>b < 32. img s' ! b = img s ! b)"
  using assms
proof (induction fs arbitrary: s root xs)
  case Nil
  then show ?case
    by (simp add: copies_def)
next
  case (Cons f fs)
  obtain name bs where f: "f = (name, Some bs)" "47 \<notin> set name" "[] \<notin> set bs"
    using Cons.prems(3) by (cases f) (auto simp: readable_def)
  let ?e = "entry (length xs + 2) (stored_name name)"
  have all: "(T_DIR, root @ entries (length xs + 2) (f # fs)) # xs @ copies (f # fs) =
      (T_DIR, (root @ ?e) @ entries (length (xs @ [(T_FILE, concat bs)]) + 2) fs) # (xs @ [(T_FILE, concat bs)]) @ copies fs"
    by (simp add: f(1) copies_def)
  have fit: "fits ((T_DIR, root @ ?e) # xs @ [(T_FILE, concat bs)])"
    by (rule fits_prefix [OF Cons.prems(4) [unfolded all]]) (simp add: list.rel_refl)
  have fit2: "fits ((T_DIR, root @ ?e) # xs @ [(T_FILE, [])])"
    by (rule fits_prefix [OF fit]) (simp add: list.rel_refl list_all2_append)
  have "length (mk_abs s) < 207"
    using fit Cons.prems(2) by (simp only: fits_def) simp
  then obtain s1 where 1: "mk_ialloc T_FILE s = Ok (of_nat (length xs + 2)) s1" "mk_wf s1" "mk_abs s1 = (T_DIR, root) # xs @ [(T_FILE, [])]"
    "\<forall>b < 32. img s1 ! b = img s ! b"
    using mk_ialloc_abs [OF Cons.prems(1)] Cons.prems(2) by auto
  obtain s2 where 2: "iappend 1 ?e s1 = Ok () s2" "mk_wf s2" "mk_abs s2 = (T_DIR, root @ ?e) # xs @ [(T_FILE, [])]"
    "\<forall>b < 32. img s2 ! b = img s1 ! b"
    using iappend_abs [OF 1(2), of 0 ?e] 1(3) fit2 by (auto simp: abs_append_def)
  have ap: "abs_append (Suc (length xs)) (concat bs) (mk_abs s2) = (T_DIR, root @ ?e) # xs @ [(T_FILE, concat bs)]"
    unfolding 2(3) by (simp add: abs_append_def)
  obtain s3 where 3: "copy_file (of_nat (length xs + 2)) bs s2 = Ok () s3" "mk_wf s3"
    "mk_abs s3 = (T_DIR, root @ ?e) # xs @ [(T_FILE, concat bs)]" "\<forall>b < 32. img s3 ! b = img s2 ! b"
    using copy_file_abs [OF 2(2), of "Suc (length xs)" bs] fit ap 2(3) f(3) by auto
  have "copy_files 1 (f # fs) s = copy_files 1 fs s3"
    using f(1,2) 1(1) 2(1) 3(1) add_entry_eq [of 1 "length xs + 2" "stored_name name" s1] by (simp add: stored_name_def)
  moreover have "readable fs"
    using Cons.prems(3) by (simp add: readable_def)
  ultimately show ?case
    using Cons.IH [OF 3(2,3)] Cons.prems(4) 1(4) 2(4) 3(4) unfolding all by simp
qed

subsection \<open>The main program\<close>

lemma grow_replicate: "(replicate k z @ [z])[k := z] = replicate (Suc k) z"
  by (induction k) simp_all

lemma write_zeroes_ok:
  "img s = replicate k (replicate BSIZE 0) \<Longrightarrow> k + n \<le> FSSIZE \<Longrightarrow>
   write_zeroes [k..<k + n] s = Ok () (s\<lparr>img := replicate (k + n) (replicate BSIZE 0)\<rparr>)"
proof (induction n arbitrary: k s)
  case 0
  then show ?case
    by simp
next
  case (Suc n)
  have "sect (of_nat k) = k"
    using Suc.prems(2) by (subst sect_small) (simp_all add: unat_of_nat)
  then have "wsect (of_nat k) (replicate BSIZE 0) s = Ok () (s\<lparr>img := replicate (Suc k) (replicate BSIZE 0)\<rparr>)"
    using Suc.prems(1) by (simp add: wsect_def grow_replicate)
  moreover have "[k..<k + Suc n] = k # [Suc k..<Suc k + n]"
    by (simp add: upt_conv_Cons)
  ultimately show ?case
    using Suc.IH [of "s\<lparr>img := replicate (Suc k) (replicate BSIZE 0)\<rparr>" "Suc k"] Suc.prems(2) by simp
qed

definition bitmap :: "nat \<Rightarrow> u8 list" where
  "bitmap n = foldl (\<lambda>b i. b[i div 8 := b ! (i div 8) OR push_bit (i mod 8) 1]) (replicate BSIZE 0) [0..<n]"

lemma length_bitmap [simp]: "length (bitmap n) = BSIZE"
  by (induction n) (simp_all add: bitmap_def)

lemma bitmap_bits: "n \<le> 4096 \<Longrightarrow> b < 4096 \<Longrightarrow> bit (bitmap n ! (b div 8)) (b mod 8) \<longleftrightarrow> b < n"
proof (induction n)
  case 0
  then show ?case
    by (simp add: bitmap_def)
next
  case (Suc n)
  have S: "bitmap (Suc n) = (bitmap n)[n div 8 := bitmap n ! (n div 8) OR push_bit (n mod 8) 1]"
    by (simp add: bitmap_def)
  have eq: "b div 8 = n div 8 \<and> b mod 8 = n mod 8 \<longleftrightarrow> b = n"
    by (metis div_mult_mod_eq)
  show ?case
    using Suc eq unfolding S by (cases "b div 8 = n div 8") (auto simp: bit_or_iff bit_push_bit_iff bit_exp_iff less_Suc_eq)
qed

lemma mk_balloc_ok:
  assumes "geo (img s)" "msb s = the_super" "n < 4096"
  shows "mk_balloc n s = Ok () (s\<lparr>img := (img s)[58 := bitmap n]\<rparr>)"
proof -
  have "bmapstart the_super = 58"
    by (simp add: the_super_def meta_sizes)
  then show ?thesis
    using assms wsect_ok [of s 58 "bitmap n"] by (simp add: mk_balloc_def bitmap_def Let_def)
qed

text \<open>The files of the image, the root directory first.\<close>

definition mkfs_files :: "(u8 list \<times> u8 list list option) list \<Rightarrow> (u16 \<times> u8 list) list" where
  "mkfs_files fs = (T_DIR, entry 1 [46] @ entry 1 [46, 46] @ entries 2 fs) # copies fs"

definition mk_empty :: mk where
  "mk_empty = \<lparr>img = (replicate FSSIZE (replicate BSIZE 0))[1 := overlay 0 (sb_bytes the_super) (replicate BSIZE 0)], freeinode = 1,
     freeblock = of_nat nmeta, msb = the_super\<rparr>"

lemma mk_empty_wf: "mk_wf mk_empty" "mk_abs mk_empty = []"
proof -
  have "length (sb_bytes the_super) = 28"
    by (simp add: sb_bytes_def)
  then have g: "geo (img mk_empty)"
    unfolding mk_empty_def by (simp only: mk.simps) (rule geo_upd, simp_all add: geo_def)
  have "fresh 59 (img mk_empty)"
    by (auto simp: fresh_def mk_empty_def)
  then show "mk_wf mk_empty" "mk_abs mk_empty = []"
    using g by (simp_all add: mk_wf_def mk_ok_def mk_abs_def mk_inv_def used_by_def) (simp_all add: mk_empty_def meta_sizes)
qed

lemma mkfs_start:
  assumes "fits ((T_DIR, entry 1 [46] @ entry 1 [46, 46]) # xs)"
  shows "\<exists>s0 s1 s2. mk_ialloc T_DIR mk_empty = Ok 1 s0 \<and> add_entry 1 1 [46] s0 = Ok () s1 \<and> add_entry 1 1 [46, 46] s1 = Ok () s2 \<and>
     mk_wf s2 \<and> mk_abs s2 = [(T_DIR, entry 1 [46] @ entry 1 [46, 46])] \<and> (\<forall>b < 32. img s2 ! b = img mk_empty ! b)"
proof -
  let ?a = "entry 1 [46]" and ?b = "entry 1 [46, 46]"
  have f2: "fits [(T_DIR, ?a @ ?b)]"
    by (rule fits_prefix [OF assms]) simp
  have f1: "fits [(T_DIR, ?a)]"
    by (rule fits_prefix [OF f2]) simp
  obtain s0 where 0: "mk_ialloc T_DIR mk_empty = Ok 1 s0" "mk_wf s0" "mk_abs s0 = [(T_DIR, [])]" "\<forall>b < 32. img s0 ! b = img mk_empty ! b"
    using mk_ialloc_abs [OF mk_empty_wf(1), of T_DIR] mk_empty_wf(2) by auto
  obtain s1 where 1: "iappend 1 ?a s0 = Ok () s1" "mk_wf s1" "mk_abs s1 = [(T_DIR, ?a)]" "\<forall>b < 32. img s1 ! b = img s0 ! b"
    using iappend_abs [OF 0(2), of 0 ?a] 0(3) f1 by (auto simp: abs_append_def)
  obtain s2 where 2: "iappend 1 ?b s1 = Ok () s2" "mk_wf s2" "mk_abs s2 = [(T_DIR, ?a @ ?b)]" "\<forall>b < 32. img s2 ! b = img s1 ! b"
    using iappend_abs [OF 1(2), of 0 ?b] 1(3) f2 by (auto simp: abs_append_def)
  show ?thesis
    using 0 1 2 add_entry_eq [of 1 1 "[46]" s0] add_entry_eq [of 1 1 "[46, 46]" s1]
    by (intro exI [of _ s0] exI [of _ s1] exI [of _ s2]) simp
qed

text \<open>The last two steps: rounding up the size of the root directory and writing the bitmap.\<close>

definition root_inode :: "u8 list list \<Rightarrow> dinode" where
  "root_inode im = (inode_at im 1)\<lparr>d_size := (d_size (inode_at im 1) div of_nat BSIZE + 1) * of_nat BSIZE\<rparr>"

lemma mkfs_finish:
  assumes w: "mk_wf s" and f: "mk_abs s = (T_DIR, root) # xs" and fits: "fits (mk_abs s)"
  shows "\<exists>s'. bnd (fix_root 1 s) (\<lambda>_ s. mk_balloc (unat (freeblock s)) s) = Ok () s' \<and> length (img s') = FSSIZE \<and>
     (\<forall>b < 32. img s' ! b = img s ! b) \<and> (\<forall>k < length xs. file_at (img s') (k + 2) = xs ! k) \<and>
     d_type (inode_at (img s') 1) = T_DIR \<and> size_at (img s') 1 = (length root div BSIZE + 1) * BSIZE \<and>
     map (fbyte (img s') (inode_at (img s') 1)) [0..<length root] = root \<and>
     (\<forall>b < 4096. bit (img s' ! 58 ! (b div 8)) (b mod 8) \<longleftrightarrow> b < nmeta + used_by (mk_abs s))"
proof -
  let ?im = "img s" and ?fb = "unat (freeblock s)" and ?N = "unat (freeinode s)"
  let ?d = "inode_at ?im 1" and ?r = "root_inode ?im"
  have v: "mk_inv ?fb ?N ?im" and sb: "msb s = the_super" and fb: "?fb = nmeta + used_by (mk_abs s)"
    using w unfolding mk_wf_def mk_ok_def by blast+
  note V = mk_invD [OF v]
  have N: "?N = length xs + 2"
    using arg_cong [OF f, of length] by simp
  have W: "file_wf ?fb ?im i" if "1 \<le> i" "i < ?N" for i
    by (rule V(7) [OF that])
  have root: "file_at ?im 1 = (T_DIR, root)"
    using nth_mk_abs [of 1 s] f N by simp
  then have sz: "size_at ?im 1 = length root" "d_type ?d = T_DIR" "map (fbyte ?im ?d) [0..<length root] = root"
    by (auto simp: file_at_def)
  have r: "length (d_addrs ?r) = NDIRECT + 1" "d_addrs ?r = d_addrs ?d" "d_type ?r = T_DIR"
    using W [of 1] N sz(2) by (auto simp: root_inode_def file_wf_def bwf_def)
  note P = put_inode [OF V(1), of 1 ?r, OF _ r(1), simplified]
  let ?im1 = "put_inode ?im 1 ?r"
  let ?im2 = "?im1[58 := bitmap ?fb]"
  have run: "bnd (fix_root 1 s) (\<lambda>_ s. mk_balloc (unat (freeblock s)) s) = Ok () (s\<lparr>img := ?im2\<rparr>)"
    using rinode_ok [OF V(1) sb, of 1] winode_ok [OF V(1) sb, of 1] mk_balloc_ok [of "s\<lparr>img := ?im1\<rparr>" ?fb] P(1) sb V(4)
    by (simp add: fix_root_def root_inode_def Let_def)
  have blk: "?im2 ! b = ?im ! b" if "b < 32 \<or> 59 \<le> b" for b
    using P(4) [of b] that by auto
  have ino: "inode_at ?im2 i = inode_at ?im1 i" if "i < ?N" for i
  proof -
    have "32 + i div 8 \<noteq> 58"
      using that V(6) by auto
    then show ?thesis
      by (simp add: inode_at_def)
  qed
  have "file_at ?im2 (k + 2) = xs ! k" if "k < length xs" for k
  proof -
    have k: "1 \<le> k + 2" "k + 2 < ?N"
      using N that by simp_all
    have "file_at ?im2 (k + 2) = file_at ?im (k + 2)"
      by (rule file_keep(3) [OF W [OF k] _ _ order_refl]) (use ino [OF k(2)] P(3) [of "k + 2"] k(2) V(6) blk owned_at_range [OF W [OF k]] in auto)
    then show ?thesis
      using nth_mk_abs [OF k] f by simp
  qed
  moreover have "map (fbyte ?im2 (inode_at ?im2 1)) [0..<length root] = root"
  proof -
    have w1: "bwf ?fb ?im ?d (nblks (length root))"
      using W [of 1] N sz(1) by (simp add: file_wf_def)
    have i2: "inode_at ?im2 1 = ?r"
      using ino [of 1] N P(2) by simp
    have "faddr ?im2 ?r = faddr ?im2 ?d"
      by (rule fbyte_cong) (simp_all add: r(2))
    then have "fbyte ?im2 ?r = fbyte ?im2 ?d"
      by (simp add: fbyte_def fun_eq_iff)
    moreover have "fbyte ?im2 ?d i = fbyte ?im ?d i" if "i < length root" for i
      by (rule fbyte_keep [OF w1 _ that]) (use blk owned_range [OF w1] in blast)
    ultimately have "map (fbyte ?im2 ?r) [0..<length root] = map (fbyte ?im ?d) [0..<length root]"
      by (intro map_cong refl) simp
    then show ?thesis
      unfolding i2 sz(3) .
  qed
  moreover have "d_type (inode_at ?im2 1) = T_DIR" "size_at ?im2 1 = (length root div BSIZE + 1) * BSIZE"
  proof -
    have i2: "inode_at ?im2 1 = ?r"
      using ino [of 1] N P(2) by simp
    have "length root \<le> MAXFILE * BSIZE"
      using W [of 1] N sz(1) by (simp add: file_wf_def)
    then have "length root div BSIZE \<le> MAXFILE"
      by simp
    then show "d_type (inode_at ?im2 1) = T_DIR" "size_at ?im2 1 = (length root div BSIZE + 1) * BSIZE"
      using r(3) sz(1) unfolding i2 by (simp_all add: root_inode_def unat_word_ariths unat_div)
  qed
  moreover have "bit (?im2 ! 58 ! (b div 8)) (b mod 8) \<longleftrightarrow> b < nmeta + used_by (mk_abs s)" if "b < 4096" for b
    using bitmap_bits [of ?fb b] V(4) P(1) that fb by (simp add: geo_def)
  moreover have "\<forall>b < 32. ?im2 ! b = ?im ! b"
    using blk by blast
  moreover have "length ?im2 = FSSIZE"
    using P(1) by (simp add: geo_def)
  moreover have i: "img (s\<lparr>img := ?im2\<rparr>) = ?im2"
    by simp
  ultimately show ?thesis
    using run by (intro exI [of _ "s\<lparr>img := ?im2\<rparr>"]) (simp only: i, blast)
qed

subsection \<open>Properties\<close>

text \<open>C20: Appending to one file of a well-formed image refines appending to one entry of the list of files: if the longer
  file fits, \<open>iappend\<close> returns, the file has its old bytes followed by the new ones, every other file keeps its bytes
  (no block is shared), the new blocks are exactly the ones that the longer file needs, and the boot, super and log blocks are kept.\<close>

theorem iappend_refines:
  assumes "mk_wf s" and "i < length (mk_abs s)" and "fits (abs_append i p (mk_abs s))"
  shows "\<exists>s'. iappend (of_nat (Suc i)) p s = Ok () s' \<and> mk_wf s' \<and> mk_abs s' = abs_append i p (mk_abs s) \<and>
     (\<forall>b < 32. img s' ! b = img s ! b)"
  using assms by (rule iappend_abs)

theorem iappend_refines_witness:
  "\<exists>s s'. mk_ialloc T_FILE mk_empty = Ok 1 s \<and> iappend 1 [104, 105] s = Ok () s' \<and> mk_abs s' = [(T_FILE, [104, 105])]"
proof -
  obtain s where s: "mk_ialloc T_FILE mk_empty = Ok 1 s" "mk_wf s" "mk_abs s = [(T_FILE, [])]"
    using mk_ialloc_abs [OF mk_empty_wf(1), of T_FILE] mk_empty_wf(2) by auto
  moreover have "fits (abs_append 0 [104, 105] (mk_abs s))"
    by (simp add: s(3) abs_append_def fits_def used_by_def blocks_total_def nblks_def meta_sizes)
  ultimately show ?thesis
    using iappend_refines [of s 0 "[104, 105]"] by (auto simp: abs_append_def)
qed

text \<open>C21: The whole run of \<open>mkfs\<close>: if no name has a slash, every file can be opened and read to its end and the files fit, the image has
  the super block in block 1; file \<open>k\<close> of the command line is inode \<open>k + 2\<close>, with exactly the bytes that were read; the
  root directory is inode 1, its bytes are the entries of \<open>.\<close>, \<open>..\<close> and the files in order with a leading
  underscore removed, its size is rounded up to a block; and the bitmap marks exactly the blocks in use.\<close>

theorem mkfs_image:
  assumes r: "readable fs" and f: "fits (mkfs_files fs)"
  shows "\<exists>s. mkfs fs = Ok () s \<and> length (img s) = FSSIZE \<and> img s ! 1 = overlay 0 (sb_bytes the_super) (replicate BSIZE 0) \<and>
     (\<forall>k < length fs. file_at (img s) (k + 2) = (T_FILE, concat (the (snd (fs ! k))))) \<and>
     d_type (inode_at (img s) 1) = T_DIR \<and> size_at (img s) 1 = (length (snd (hd (mkfs_files fs))) div BSIZE + 1) * BSIZE \<and>
     map (fbyte (img s) (inode_at (img s) 1)) [0..<length (snd (hd (mkfs_files fs)))] = snd (hd (mkfs_files fs)) \<and>
     (\<forall>b < 4096. bit (img s ! 58 ! (b div 8)) (b mod 8) \<longleftrightarrow> b < nmeta + used_by (mkfs_files fs))"
proof -
  let ?e = "entry 1 [46] @ entry 1 [46, 46]"
  let ?s = "\<lparr>img = [], freeinode = 1, freeblock = of_nat nmeta, msb = the_super\<rparr>"
  have m: "mkfs_files fs = (T_DIR, ?e @ entries 2 fs) # copies fs"
    by (simp add: mkfs_files_def)
  have m2: "(T_DIR, ?e @ entries (length ([] :: (u16 \<times> u8 list) list) + 2) fs) # [] @ copies fs = mkfs_files fs"
    by (simp add: mkfs_files_def numeral_2_eq_2)
  have "fits ((T_DIR, ?e) # copies fs)"
    by (rule fits_prefix [OF f]) (simp add: m list.rel_refl)
  then obtain s0 s1 s2 where 2: "mk_ialloc T_DIR mk_empty = Ok 1 s0" "add_entry 1 1 [46] s0 = Ok () s1" "add_entry 1 1 [46, 46] s1 = Ok () s2"
    "mk_wf s2" "mk_abs s2 = [(T_DIR, ?e)]" "\<forall>b < 32. img s2 ! b = img mk_empty ! b"
    using mkfs_start by blast
  obtain s3 where 3: "copy_files 1 fs s2 = Ok () s3" "mk_wf s3" "mk_abs s3 = mkfs_files fs" "\<forall>b < 32. img s3 ! b = img s2 ! b"
    using copy_files_abs [OF 2(4,5) r, unfolded m2] f by blast
  have z: "write_zeroes [0..<FSSIZE] ?s = Ok () (?s\<lparr>img := replicate FSSIZE (replicate BSIZE 0)\<rparr>)"
    using write_zeroes_ok [of ?s 0 FSSIZE] by simp
  have "wsect 1 (overlay 0 (sb_bytes the_super) (replicate BSIZE 0)) (?s\<lparr>img := replicate FSSIZE (replicate BSIZE 0)\<rparr>) = Ok () mk_empty"
    by (subst wsect_ok) (simp_all add: geo_def mk_empty_def)
  then have run: "mkfs fs = bnd (fix_root 1 s3) (\<lambda>_ s. mk_balloc (unat (freeblock s)) s)"
    using z 2(1-3) 3(1) by (simp add: mkfs_def)
  have one: "img s3 ! 1 = overlay 0 (sb_bytes the_super) (replicate BSIZE 0)"
    using 2(6) 3(4) by (simp add: mk_empty_def)
  have "copies fs ! k = (T_FILE, concat (the (snd (fs ! k))))" if "k < length fs" for k
    using that by (simp add: copies_def case_prod_beta)
  then show ?thesis
    using mkfs_finish [OF 3(2) 3(3) [unfolded m]] f one unfolding run 3(3) m by (auto simp: copies_def)
qed

theorem mkfs_image_witness:
  "\<exists>s. mkfs [([95, 108, 115], Some [[1, 2], [3]])] = Ok () s \<and> file_at (img s) 2 = (T_FILE, [1, 2, 3])"
proof -
  let ?fs = "[([95, 108, 115], Some [[1, 2], [3]])] :: (u8 list \<times> u8 list list option) list"
  have "readable ?fs"
    by (simp add: readable_def)
  moreover have "fits (mkfs_files ?fs)"
    by (simp add: mkfs_files_def copies_def entry_def mk_dirent_def fits_def used_by_def blocks_total_def nblks_def meta_sizes)
  ultimately show ?thesis
    using mkfs_image [of ?fs] by (auto simp: numeral_2_eq_2)
qed

end
