(* ===== verification/Sh.thy ===== *)
theory Sh
  imports Prelude "HOL-Library.Sublist"
begin

section \<open>The shell's parser: sh.c\<close>

text \<open>
  A pointer into the command line is the list of the characters from there to the end \<open>es\<close>; the character
  at the end is 0.  The parser's state is the pointer \<open>*ps\<close>, and \<open>Panic\<close> is a call of the shell's
  \<open>panic\<close>.  A token is the pair of pointers \<open>q\<close> and \<open>eq\<close>.  The commands are the five structures of the
  source; a command is polymorphic in its words, so that the same type serves the parser (words are
  tokens) and the meaning of its result (words are strings).

  The four functions that call each other take a bound on the depth of calls; \<open>parsecmd\<close> passes a bound
  that is never exceeded (\<open>parsecmd_returns\<close>).
\<close>

type_synonym str = "u8 list"
type_synonym token = "str \<times> str"

datatype 'w cmd =
    EXEC "'w list"
  | REDIR "'w cmd" 'w int int
  | PIPE "'w cmd" "'w cmd"
  | LIST "'w cmd" "'w cmd"
  | BACK "'w cmd"

abbreviation (input) MAXARGS :: nat where "MAXARGS \<equiv> 10"

definition white :: "u8 \<Rightarrow> bool" where
  "white c \<longleftrightarrow> c \<in> set [32, 9, 13, 10, 11]"

definition symbol :: "u8 \<Rightarrow> bool" where
  "symbol c \<longleftrightarrow> c \<in> set [60, 124, 62, 38, 59, 40, 41]"

definition star :: "str \<Rightarrow> u8" where
  "star s = (if s = [] then 0 else hd s)"

definition skip :: "str \<Rightarrow> str" where
  "skip s = dropWhile white s"

subsection \<open>Tokens\<close>

definition gettoken :: "str \<Rightarrow> u8 \<times> token \<times> str" where
  "gettoken ps =
     (let q = skip ps; c = star q;
          (ret, eq) =
            (if c = 0 then (0, q)
             else if c \<in> set [124, 40, 41, 59, 38, 60] then (c, tl q)
             else if c = 62 then (if star (tl q) = 62 then (43, tl (tl q)) else (62, tl q))
             else (97, dropWhile (\<lambda>c. \<not> white c \<and> \<not> symbol c) q)) in
      (ret, (q, eq), skip eq))"

definition peek :: "str \<Rightarrow> u8 list \<Rightarrow> bool \<times> str" where
  "peek ps toks = (let s = skip ps in (star s \<noteq> 0 \<and> star s \<in> set toks, s))"

lemma skip_length: "length (skip s) \<le> length s"
  by (simp add: skip_def length_dropWhile_le)

lemma skip_idem [simp]: "skip (skip s) = skip s"
  by (simp add: skip_def)

lemma gettoken_length:
  assumes "gettoken ps = (ret, (q, eq), s)"
  shows "length s \<le> length eq" and "length eq \<le> length q" and "length q \<le> length ps"
    and "ret \<noteq> 0 \<Longrightarrow> length eq < length q"
proof -
  let ?q = "skip ps"
  have q: "q = ?q" and s: "s = skip eq"
    using assms by (auto simp: gettoken_def Let_def split: prod.splits)
  show "length s \<le> length eq" "length q \<le> length ps"
    by (simp_all add: q s skip_length)
  have word: "length (dropWhile (\<lambda>c. \<not> white c \<and> \<not> symbol c) ?q) < length ?q"
    if "?q \<noteq> []" and "\<not> symbol (hd ?q)"
  proof -
    have "\<not> white (hd ?q)"
      using that(1) hd_dropWhile [of white ps] by (simp add: skip_def)
    with that show ?thesis
      by (cases ?q) (simp_all add: length_dropWhile_le less_Suc_eq_le)
  qed
  have tl_less: "length (tl ?q) < length ?q" if "?q \<noteq> []"
    using that by simp
  have "(ret = 0 \<and> eq = ?q) \<or> length eq < length ?q"
    using assms word tl_less
    by (auto simp: gettoken_def Let_def star_def symbol_def split: if_splits)
  then show "length eq \<le> length q" "ret \<noteq> 0 \<Longrightarrow> length eq < length q"
    by (auto simp: q)
qed

lemma gettoken_skip: "gettoken (skip s) = gettoken s"
  by (simp add: gettoken_def)

lemma gettoken_ret: "gettoken ps = (ret, tk, s) \<Longrightarrow> ret = 0 \<longleftrightarrow> star (skip ps) = 0"
  by (auto simp: gettoken_def Let_def split: if_splits)

lemma peek_gettoken:
  assumes "peek ps toks = (True, p)" and g: "gettoken p = (ret, w, s)"
  shows "length s < length ps"
proof -
  have p: "p = skip ps" "star p \<noteq> 0"
    using assms(1) by (auto simp: peek_def Let_def)
  have "ret \<noteq> 0"
    using gettoken_ret [OF g] p by simp
  moreover have "length p \<le> length ps"
    by (simp add: p skip_length)
  ultimately show ?thesis
    using gettoken_length [of p ret "fst w" "snd w" s] g by simp
qed

lemma peek_length: "peek ps toks = (k, p) \<Longrightarrow> length p \<le> length ps"
  by (auto simp: peek_def Let_def skip_length)

subsection \<open>Redirections and arguments\<close>

definition redir_mode :: "u8 \<Rightarrow> int \<times> int" where
  "redir_mode tok = (if tok = 60 then (0, 0) else (0x201, 1))"

lemma gettoken_rest: "gettoken ps = (ret, w, s) \<Longrightarrow> length s \<le> length ps"
  using gettoken_length(1,2,3) [of ps ret "fst w" "snd w" s] by simp

text \<open>The redirections that \<open>parseredirs\<close> wraps around its argument, the innermost first.\<close>

function parseredirs :: "str \<Rightarrow> ((token \<times> int \<times> int) list, str) res" where
  "parseredirs ps =
     (case peek ps [60, 62] of
        (False, ps) \<Rightarrow> Ok [] ps
      | (True, ps) \<Rightarrow>
          let (tok, _, ps) = gettoken ps; (a, w, ps) = gettoken ps in
          if a \<noteq> 97 then Panic ''missing file for redirection''
          else bnd (parseredirs ps) (\<lambda>rs ps. Ok ((w, redir_mode tok) # rs) ps))"
  by pat_completeness auto

termination parseredirs
proof (relation "measure length", goal_cases)
  case (2 ps x p y tok z1 z2 p1 y1 a z3 w p2)
  then have "length p1 < length ps"
    using peek_gettoken [of ps "[60, 62]" p tok z2 p1] by (auto dest: sym)
  moreover have "length p2 \<le> length p1"
    using 2 gettoken_rest [of p1 a w p2] by (auto dest: sym)
  ultimately show ?case by simp
qed simp

declare parseredirs.simps [simp del]

definition wrap :: "'w cmd \<Rightarrow> ('w \<times> int \<times> int) list \<Rightarrow> 'w cmd" where
  "wrap c rs = foldl (\<lambda>c (w, mode, fd). REDIR c w mode fd) c rs"

text \<open>The loop of \<open>parseexec\<close> with \<open>argc\<close> arguments found: the arguments and redirections that follow.\<close>

function parse_args :: "nat \<Rightarrow> str \<Rightarrow> (token list \<times> (token \<times> int \<times> int) list, str) res" where
  "parse_args argc ps =
     (case peek ps [124, 41, 38, 59] of
        (True, ps) \<Rightarrow> Ok ([], []) ps
      | (False, ps) \<Rightarrow>
          let (tok, w, ps) = gettoken ps in
          if tok = 0 then Ok ([], []) ps
          else if tok \<noteq> 97 then Panic ''syntax''
          else if argc + 1 \<ge> MAXARGS then Panic ''too many args''
          else
            bnd (parseredirs ps) (\<lambda>rs ps.
            bnd (parse_args (argc + 1) ps) (\<lambda>(as, rs') ps.
            Ok (w # as, rs @ rs') ps)))"
  by pat_completeness auto

termination parse_args
  by (relation "measure (\<lambda>(argc, _). MAXARGS - argc)") auto

declare parse_args.simps [simp del]

subsection \<open>Commands\<close>

function parse_backs :: "token cmd \<Rightarrow> str \<Rightarrow> token cmd \<times> str" where
  "parse_backs c ps =
     (case peek ps [38] of
        (True, ps) \<Rightarrow> let (_, _, ps) = gettoken ps in parse_backs (BACK c) ps
      | (False, ps) \<Rightarrow> (c, ps))"
  by pat_completeness auto

termination parse_backs
proof (relation "measure (\<lambda>(_, ps). length ps)", goal_cases)
  case (2 c ps x p y a z b s)
  then show ?case
    using peek_gettoken [of ps "[38]" p a b s] by (auto dest: sym)
qed simp

declare parse_backs.simps [simp del]

fun parseline :: "nat \<Rightarrow> str \<Rightarrow> (token cmd, str) res"
  and parsepipe :: "nat \<Rightarrow> str \<Rightarrow> (token cmd, str) res"
  and parseexec :: "nat \<Rightarrow> str \<Rightarrow> (token cmd, str) res"
  and parseblock :: "nat \<Rightarrow> str \<Rightarrow> (token cmd, str) res" where
  "parseline 0 ps = Spin"
| "parseline (Suc n) ps =
     bnd (parsepipe n ps) (\<lambda>c ps.
     let (c, ps) = parse_backs c ps in
     case peek ps [59] of
       (True, ps) \<Rightarrow>
         let (_, _, ps) = gettoken ps in
         bnd (parseline n ps) (\<lambda>r ps. Ok (LIST c r) ps)
     | (False, ps) \<Rightarrow> Ok c ps)"
| "parsepipe 0 ps = Spin"
| "parsepipe (Suc n) ps =
     bnd (parseexec n ps) (\<lambda>c ps.
     case peek ps [124] of
       (True, ps) \<Rightarrow>
         let (_, _, ps) = gettoken ps in
         bnd (parsepipe n ps) (\<lambda>r ps. Ok (PIPE c r) ps)
     | (False, ps) \<Rightarrow> Ok c ps)"
| "parseexec 0 ps = Spin"
| "parseexec (Suc n) ps =
     (case peek ps [40] of
        (True, ps) \<Rightarrow> parseblock n ps
      | (False, ps) \<Rightarrow>
          bnd (parseredirs ps) (\<lambda>rs ps.
          bnd (parse_args 0 ps) (\<lambda>(as, rs') ps.
          Ok (wrap (EXEC as) (rs @ rs')) ps)))"
| "parseblock 0 ps = Spin"
| "parseblock (Suc n) ps =
     (case peek ps [40] of
        (False, ps) \<Rightarrow> Panic ''parseblock''
      | (True, ps) \<Rightarrow>
          let (_, _, ps) = gettoken ps in
          bnd (parseline n ps) (\<lambda>c ps.
          case peek ps [41] of
            (False, ps) \<Rightarrow> Panic ''syntax - missing )''
          | (True, ps) \<Rightarrow>
              let (_, _, ps) = gettoken ps in
              bnd (parseredirs ps) (\<lambda>rs ps.
              Ok (wrap c rs) ps)))"

declare parseline.simps [simp del] parsepipe.simps [simp del] parseexec.simps [simp del] parseblock.simps [simp del]

definition parse :: "str \<Rightarrow> (token cmd, str) res" where
  "parse s =
     bnd (parseline (4 * length s + 4) s) (\<lambda>c ps.
     let (_, ps) = peek ps [] in
     if ps \<noteq> [] then Panic ''syntax'' else Ok c ps)"

text \<open>The positions in the command line that \<open>nulterminate\<close> sets to zero, and the string at a pointer then.\<close>

fun nulterminate :: "nat \<Rightarrow> token cmd \<Rightarrow> str \<Rightarrow> str" where
  "nulterminate n (EXEC ws) b = foldl (\<lambda>b (q, eq). b[n - length eq := 0]) b ws"
| "nulterminate n (REDIR c (q, eq) mode fd) b = (nulterminate n c b)[n - length eq := 0]"
| "nulterminate n (PIPE l r) b = nulterminate n r (nulterminate n l b)"
| "nulterminate n (LIST l r) b = nulterminate n r (nulterminate n l b)"
| "nulterminate n (BACK c) b = nulterminate n c b"

text \<open>\<open>parsecmd\<close>: the command, and the characters of the line with its final zero afterwards.\<close>

definition parsecmd :: "str \<Rightarrow> (token cmd \<times> str, str) res" where
  "parsecmd s = bnd (parse s) (\<lambda>c ps. Ok (c, nulterminate (length s) c (s @ [0])) ps)"

subsection \<open>The parser returns\<close>

text \<open>\<open>shrinks m k\<close>: the call ends (with a result or in \<open>panic\<close>), and at most \<open>k\<close> characters remain.\<close>

definition shrinks :: "('a, str) res \<Rightarrow> nat \<Rightarrow> bool" where
  "shrinks m k \<longleftrightarrow> (case m of Ok _ s \<Rightarrow> length s \<le> k | Panic _ \<Rightarrow> True | _ \<Rightarrow> False)"

lemma shrinks_simps [simp]:
  "shrinks (Ok x s) k \<longleftrightarrow> length s \<le> k" "shrinks (Panic e) k" "\<not> shrinks Spin k"
  by (simp_all add: shrinks_def)

lemma shrinks_bnd:
  "shrinks m j \<Longrightarrow> (\<And>x s. m = Ok x s \<Longrightarrow> length s \<le> j \<Longrightarrow> shrinks (f x s) k) \<Longrightarrow> shrinks (bnd m f) k"
  by (cases m) (auto simp: shrinks_def)

lemma shrinks_peek:
  assumes "\<And>p ret w s. peek ps toks = (True, p) \<Longrightarrow> length p \<le> length ps \<Longrightarrow>
      gettoken p = (ret, w, s) \<Longrightarrow> length s < length ps \<Longrightarrow> shrinks (A p) k"
    and "\<And>p. peek ps toks = (False, p) \<Longrightarrow> length p \<le> length ps \<Longrightarrow> shrinks (B p) k"
  shows "shrinks (case peek ps toks of (True, p) \<Rightarrow> A p | (False, p) \<Rightarrow> B p) k"
proof -
  obtain b p where pk: "peek ps toks = (b, p)"
    by fastforce
  obtain ret w s where g: "gettoken p = (ret, w, s)"
    by (metis prod_cases3)
  show ?thesis
    using assms(1) [of p ret w s] assms(2) [of p] peek_length [OF pk] peek_gettoken [of ps toks p ret w s] pk g
    by (cases b) simp_all
qed

lemma shrinks_mono: "shrinks m j \<Longrightarrow> j \<le> k \<Longrightarrow> shrinks m k"
  by (cases m) (auto simp: shrinks_def)

lemma shrinks_peek_token:
  assumes "\<And>s. length s < length ps \<Longrightarrow> shrinks (A s) k"
    and "\<And>p. length p \<le> length ps \<Longrightarrow> shrinks (B p) k"
  shows "shrinks (case peek ps toks of (True, p) \<Rightarrow> (let (_, _, s) = gettoken p in A s) | (False, p) \<Rightarrow> B p) k"
  using assms by (intro shrinks_peek) auto

lemma shrinks_then:
  "shrinks m (length (ps :: str)) \<Longrightarrow> length ps \<le> k \<Longrightarrow> shrinks (bnd m (\<lambda>r s. Ok (f r) s)) k"
  by (rule shrinks_bnd) auto

lemma shrinks_parseredirs: "shrinks (parseredirs ps) (length ps)"
proof (induction ps rule: parseredirs.induct)
  case (1 ps)
  show ?case
    unfolding parseredirs.simps [of ps]
  proof (rule shrinks_peek)
    fix p tok z p1
    assume pk: "peek ps [60, 62] = (True, p)" and g1: "gettoken p = (tok, z, p1)" and l: "length p1 < length ps"
    obtain a w p2 where g2: "gettoken p1 = (a, w, p2)"
      by (metis prod_cases3)
    have "shrinks (parseredirs p2) (length p2)" if "a = 97"
      using 1 pk g1 g2 that by (auto simp: eq_commute)
    then show "shrinks (let (tok, _, ps) = gettoken p; (a, w, ps) = gettoken ps in
          if a \<noteq> 97 then Panic ''missing file for redirection''
          else bnd (parseredirs ps) (\<lambda>rs ps. Ok ((w, redir_mode tok) # rs) ps)) (length ps)"
      using gettoken_rest [OF g2] l by (auto simp: g1 g2 intro!: shrinks_bnd)
  qed simp
qed

lemma shrinks_parse_args: "shrinks (parse_args argc ps) (length ps)"
proof (induction argc ps rule: parse_args.induct)
  case (1 argc ps)
  show ?case
    unfolding parse_args.simps [of argc ps]
  proof (rule shrinks_peek)
    fix p
    assume pk: "peek ps [124, 41, 38, 59] = (False, p)" and l: "length p \<le> length ps"
    obtain tok w p1 where g: "gettoken p = (tok, w, p1)"
      by (metis prod_cases3)
    have "shrinks (bnd (parseredirs p1) (\<lambda>rs ps. bnd (parse_args (argc + 1) ps) (\<lambda>(as, rs') ps. Ok (w # as, rs @ rs') ps)))
        (length ps)" if "tok = 97" "\<not> argc + 1 \<ge> MAXARGS"
    proof (rule shrinks_bnd [OF shrinks_parseredirs])
      fix rs s
      assume r: "parseredirs p1 = Ok rs s" and "length s \<le> length p1"
      then have "length s \<le> length ps"
        using gettoken_rest [OF g] l by simp
      moreover have "shrinks (parse_args (argc + 1) s) (length s)"
        using 1 pk g that r by (auto simp: eq_commute)
      ultimately show "shrinks (bnd (parse_args (argc + 1) s) (\<lambda>(as, rs') ps. Ok (w # as, rs @ rs') ps)) (length ps)"
        by (auto intro!: shrinks_bnd)
    qed
    then show "shrinks (let (tok, w, ps) = gettoken p in
          if tok = 0 then Ok ([], []) ps
          else if tok \<noteq> 97 then Panic ''syntax''
          else if argc + 1 \<ge> MAXARGS then Panic ''too many args''
          else bnd (parseredirs ps) (\<lambda>rs ps. bnd (parse_args (argc + 1) ps) (\<lambda>(as, rs') ps. Ok (w # as, rs @ rs') ps)))
        (length ps)"
      using gettoken_rest [OF g] l by (auto simp: g)
  qed simp
qed

lemma parse_backs_length: "parse_backs c ps = (c', s) \<Longrightarrow> length s \<le> length ps"
proof (induction c ps arbitrary: c' s rule: parse_backs.induct)
  case (1 c ps)
  obtain b p where pk: "peek ps [38] = (b, p)"
    by fastforce
  obtain ret w p1 where g: "gettoken p = (ret, w, p1)"
    by (metis prod_cases3)
  show ?case
  proof (cases b)
    case True
    then have "parse_backs (BACK c) p1 = (c', s)"
      using 1(2) pk g by (simp add: parse_backs.simps [of c ps])
    then have "length s \<le> length p1"
      using 1(1) pk True g by (auto simp: eq_commute)
    then show ?thesis
      using peek_gettoken [OF _ g, of ps "[38]"] pk True by simp
  next
    case False
    then show ?thesis
      using 1(2) pk peek_length [OF pk] by (simp add: parse_backs.simps [of c ps])
  qed
qed

lemma shrinks_parseline:
  assumes "shrinks (parsepipe n ps) (length ps)"
    and "\<And>s. length s < length ps \<Longrightarrow> shrinks (parseline n s) (length s)"
  shows "shrinks (parseline (Suc n) ps) (length ps)"
  unfolding parseline.simps
proof (rule shrinks_bnd [OF assms(1)])
  fix c and s :: str
  assume s: "length s \<le> length ps"
  obtain c' s' where b: "parse_backs c s = (c', s')"
    by fastforce
  have "length s' \<le> length ps"
    using parse_backs_length [OF b] s by simp
  then show "shrinks (let (c, ps) = parse_backs c s in
      case peek ps [59] of (True, ps) \<Rightarrow> let (_, _, ps) = gettoken ps in bnd (parseline n ps) (\<lambda>r ps. Ok (LIST c r) ps)
      | (False, ps) \<Rightarrow> Ok c ps) (length ps)"
    unfolding b by (auto intro!: shrinks_peek_token shrinks_then assms(2))
qed

lemma shrinks_parsepipe:
  assumes "shrinks (parseexec n ps) (length ps)"
    and "\<And>s. length s < length ps \<Longrightarrow> shrinks (parsepipe n s) (length s)"
  shows "shrinks (parsepipe (Suc n) ps) (length ps)"
  unfolding parsepipe.simps by (auto intro!: shrinks_bnd [OF assms(1)] shrinks_peek_token shrinks_then assms(2))

lemma shrinks_parseexec:
  assumes "\<And>s. length s \<le> length ps \<Longrightarrow> shrinks (parseblock n s) (length s)"
  shows "shrinks (parseexec (Suc n) ps) (length ps)"
  unfolding parseexec.simps
  by (auto intro!: shrinks_peek shrinks_bnd [OF shrinks_parseredirs] shrinks_bnd [OF shrinks_parse_args]
      intro: shrinks_mono [OF assms])

lemma shrinks_parseblock:
  assumes "\<And>s. length s < length ps \<Longrightarrow> shrinks (parseline n s) (length s)"
  shows "shrinks (parseblock (Suc n) ps) (length ps)"
  unfolding parseblock.simps
  by (auto intro!: shrinks_peek_token shrinks_bnd [OF assms] shrinks_then [OF shrinks_parseredirs])

lemma shrinks_parsers:
  "(4 * length ps + 4 \<le> n \<longrightarrow> shrinks (parseline n ps) (length ps)) \<and>
   (4 * length ps + 3 \<le> n \<longrightarrow> shrinks (parsepipe n ps) (length ps)) \<and>
   (4 * length ps + 2 \<le> n \<longrightarrow> shrinks (parseexec n ps) (length ps)) \<and>
   (4 * length ps + 1 \<le> n \<longrightarrow> shrinks (parseblock n ps) (length ps))"
proof (induction n arbitrary: ps)
  case (Suc n)
  show ?case
    using Suc.IH by (auto intro!: shrinks_parseline shrinks_parsepipe shrinks_parseexec shrinks_parseblock)
qed simp

text \<open>C32: The shell's parser always ends: on every command line \<open>parsecmd\<close> returns a command or calls \<open>panic\<close>,
  and the bound on the depth of its recursion is never reached.\<close>

theorem parsecmd_returns: "(\<exists>c b. parsecmd s = Ok (c, b) []) \<or> (\<exists>msg. parsecmd s = Panic msg)"
proof -
  have "shrinks (parseline (4 * length s + 4) s) (length s)"
    using shrinks_parsers [of s "4 * length s + 4"] by simp
  then show ?thesis
    by (cases "parseline (4 * length s + 4) s")
       (auto simp: parsecmd_def parse_def shrinks_def split: prod.splits)
qed

subsection \<open>The strings of the result\<close>

text \<open>
  The word of a token.  A good token of a line \<open>s\<close> points into it, its word is not empty and has only
  ordinary characters, and it ends at the end of the line or before another character.
\<close>

fun word :: "token \<Rightarrow> str" where
  "word (q, eq) = take (length q - length eq) q"

definition ordinary :: "u8 \<Rightarrow> bool" where
  "ordinary c \<longleftrightarrow> \<not> white c \<and> \<not> symbol c"

definition good :: "str \<Rightarrow> token \<Rightarrow> bool" where
  "good s w \<longleftrightarrow> suffix (fst w) s \<and> fst w = word w @ snd w \<and> word w \<noteq> [] \<and> list_all ordinary (word w) \<and>
     (snd w = [] \<or> \<not> ordinary (hd (snd w)))"

lemma good_suffix: "good s w \<Longrightarrow> suffix s t \<Longrightarrow> good t w"
  by (auto simp: good_def intro: suffix_order.trans)

lemma suffix_skip: "suffix (skip s) s"
  by (simp add: skip_def suffix_dropWhile)

lemma gettoken_suffix:
  assumes "gettoken ps = (ret, w, s)"
  shows "suffix s ps" and "ret = 97 \<Longrightarrow> 0 \<notin> set ps \<Longrightarrow> good ps w"
proof -
  have tl: "suffix (tl xs) xs" for xs :: str
    by (cases xs) (auto simp: suffix_ConsI)
  have q: "fst w = skip ps" and s: "s = skip (snd w)"
    using assms by (auto simp: gettoken_def Let_def split: prod.splits)
  have "suffix (snd w) (skip ps)"
    using assms tl [of "skip ps"] suffix_order.trans [OF tl [of "tl (skip ps)"] tl]
    by (auto simp: gettoken_def Let_def suffix_dropWhile split: if_splits)
  then show "suffix s ps"
    using suffix_skip s suffix_order.trans by metis
  assume r: "ret = 97" and z: "0 \<notin> set ps"
  have z': "0 \<notin> set (skip ps)"
    using z set_mono_suffix [OF suffix_skip] by blast
  have eq: "snd w = dropWhile ordinary (skip ps)" and ne: "skip ps \<noteq> []" and h: "\<not> symbol (hd (skip ps))"
    using assms r by (auto simp: gettoken_def Let_def star_def symbol_def ordinary_def [abs_def] split: if_splits)
  have split: "skip ps = takeWhile ordinary (skip ps) @ dropWhile ordinary (skip ps)"
    by simp
  have wd: "word w = takeWhile ordinary (skip ps)"
    using q eq by (cases w) (metis word.simps fst_conv snd_conv append_eq_conv_conj length_append add_diff_cancel_right' split)
  have "\<not> white (hd (skip ps))"
    using ne hd_dropWhile [of white ps] by (simp add: skip_def)
  then have "word w \<noteq> []"
    using ne h by (cases "skip ps") (auto simp: wd ordinary_def)
  then show "good ps w"
    unfolding good_def q eq wd
    using suffix_skip hd_dropWhile [of ordinary "skip ps"] by (auto simp: list_all_iff dest: set_takeWhileD)
qed

lemma peek_suffix: "peek ps toks = (k, p) \<Longrightarrow> suffix p ps"
  by (auto simp: peek_def Let_def suffix_skip)

text \<open>\<open>tokens_ok V s m\<close>: the tokens \<open>V x\<close> of the result are good, and the rest is the end of \<open>s\<close>.\<close>

definition tokens_ok :: "('a \<Rightarrow> token set) \<Rightarrow> str \<Rightarrow> ('a, str) res \<Rightarrow> bool" where
  "tokens_ok V s m \<longleftrightarrow> (\<forall>x r. m = Ok x r \<longrightarrow> suffix r s \<and> Ball (V x) (good s))"

lemma tokens_ok_simps [simp]:
  "tokens_ok V s (Ok x r) \<longleftrightarrow> suffix r s \<and> Ball (V x) (good s)"
  "tokens_ok V s (Panic e)" "tokens_ok V s Spin"
  by (simp_all add: tokens_ok_def)

lemma tokens_ok_mono: "tokens_ok V s m \<Longrightarrow> suffix s t \<Longrightarrow> tokens_ok V t m"
  unfolding tokens_ok_def using good_suffix suffix_order.trans by blast

lemma tokens_ok_bnd:
  assumes "tokens_ok U s m" and "\<And>x r. suffix r s \<Longrightarrow> Ball (U x) (good s) \<Longrightarrow> tokens_ok V s (f x r)"
  shows "tokens_ok V s (bnd m f)"
proof (cases m)
  case (Ok x r)
  then have "suffix r s" "Ball (U x) (good s)"
    using assms(1) by simp_all
  then show ?thesis
    using assms(2) [of r x] Ok by simp
qed (auto simp: tokens_ok_def)

lemma tokens_ok_peek:
  assumes "suffix ps s"
    and "\<And>p. suffix p s \<Longrightarrow> tokens_ok V s (A p)" and "\<And>p. suffix p s \<Longrightarrow> tokens_ok V s (B p)"
  shows "tokens_ok V s (case peek ps toks of (True, p) \<Rightarrow> A p | (False, p) \<Rightarrow> B p)"
proof -
  obtain k p where pk: "peek ps toks = (k, p)"
    by fastforce
  have "suffix p s"
    using peek_suffix [OF pk] assms(1) suffix_order.trans by blast
  then show ?thesis
    using assms(2,3) [of p] pk by (cases k) simp_all
qed

lemma tokens_ok_token:
  assumes "suffix ps s" and "0 \<notin> set s"
    and "\<And>ret w r. suffix r s \<Longrightarrow> (ret = 97 \<Longrightarrow> good s w) \<Longrightarrow> tokens_ok V s (A ret w r)"
  shows "tokens_ok V s (let (ret, w, r) = gettoken ps in A ret w r)"
proof -
  obtain ret w r where g: "gettoken ps = (ret, w, r)"
    by (metis prod_cases3)
  have "suffix r s"
    using gettoken_suffix(1) [OF g] assms(1) suffix_order.trans by blast
  moreover have "0 \<notin> set ps"
    using assms(1,2) set_mono_suffix by blast
  then have "ret = 97 \<Longrightarrow> good s w"
    using gettoken_suffix(2) [OF g] good_suffix [OF _ assms(1)] by blast
  ultimately show ?thesis
    using assms(3) [of r ret w] g by simp
qed

abbreviation (input) redir_tokens :: "(token \<times> int \<times> int) list \<Rightarrow> token set" where
  "redir_tokens rs \<equiv> fst ` set rs"

lemma set_wrap: "set_cmd (wrap c rs) = set_cmd c \<union> redir_tokens rs"
  unfolding wrap_def by (induction rs arbitrary: c) auto

lemma tokens_parseredirs:
  "suffix ps s \<Longrightarrow> 0 \<notin> set s \<Longrightarrow> tokens_ok redir_tokens s (parseredirs ps)"
proof (induction ps rule: parseredirs.induct)
  case (1 ps)
  obtain k p where pk: "peek ps [60, 62] = (k, p)" by fastforce
  obtain tok z p1 where g1: "gettoken p = (tok, z, p1)" by (metis prod_cases3)
  obtain a w p2 where g2: "gettoken p1 = (a, w, p2)" by (metis prod_cases3)
  have p: "suffix p s"
    using peek_suffix [OF pk] 1(2) suffix_order.trans by blast
  then have p1: "suffix p1 s"
    using gettoken_suffix(1) [OF g1] suffix_order.trans by blast
  then have p2: "suffix p2 s"
    using gettoken_suffix(1) [OF g2] suffix_order.trans by blast
  have w: "a = 97 \<Longrightarrow> good s w"
    using gettoken_suffix(2) [OF g2] good_suffix [OF _ p1] 1(3) set_mono_suffix [OF p1] by blast
  have "tokens_ok redir_tokens s (parseredirs p2)" if k "a = 97"
    using 1 pk g1 g2 that p2 by (auto simp: eq_commute)
  then show ?case
    using p w pk g1 g2 by (cases k) (auto simp: parseredirs.simps [of ps] intro!: tokens_ok_bnd)
qed

lemma tokens_parse_args:
  "suffix ps s \<Longrightarrow> 0 \<notin> set s \<Longrightarrow> tokens_ok (\<lambda>(as, rs). set as \<union> redir_tokens rs) s (parse_args argc ps)"
proof (induction argc ps rule: parse_args.induct)
  case (1 argc ps)
  obtain k p where pk: "peek ps [124, 41, 38, 59] = (k, p)" by fastforce
  obtain tok w p1 where g: "gettoken p = (tok, w, p1)" by (metis prod_cases3)
  have p: "suffix p s"
    using peek_suffix [OF pk] 1(2) suffix_order.trans by blast
  then have p1: "suffix p1 s"
    using gettoken_suffix(1) [OF g] suffix_order.trans by blast
  have w: "tok = 97 \<Longrightarrow> good s w"
    using gettoken_suffix(2) [OF g] good_suffix [OF _ p] 1(3) set_mono_suffix [OF p] by blast
  have IH: "tokens_ok (\<lambda>(as, rs). set as \<union> redir_tokens rs) s (parse_args (argc + 1) r)"
    if "\<not> k" "tok = 97" "\<not> argc + 1 \<ge> MAXARGS" "parseredirs p1 = Ok rs r" "suffix r s" for rs r
    using 1 pk g that by (auto simp: eq_commute)
  have step: "tokens_ok (\<lambda>(as, rs). set as \<union> redir_tokens rs) s
      (bnd (parseredirs p1) (\<lambda>rs ps. bnd (parse_args (argc + 1) ps) (\<lambda>(as, rs') ps. Ok (w # as, rs @ rs') ps)))"
    if "\<not> k" "tok = 97" "\<not> argc + 1 \<ge> MAXARGS"
  proof (cases "parseredirs p1")
    case (Ok rs r)
    then have "suffix r s" "Ball (redir_tokens rs) (good s)"
      using tokens_parseredirs [OF p1 1(3)] by simp_all
    then show ?thesis
      using IH [OF that Ok] w that Ok by (auto intro!: tokens_ok_bnd) force+
  qed (auto simp: tokens_ok_def)
  show ?case
    using p p1 step pk g by (cases k) (auto simp: parse_args.simps [of argc ps])
qed

lemma tokens_parse_backs:
  "parse_backs c ps = (c', r) \<Longrightarrow> suffix ps s \<Longrightarrow> suffix r s \<and> set_cmd c' = set_cmd c"
proof (induction c ps arbitrary: c' r rule: parse_backs.induct)
  case (1 c ps)
  obtain k p where pk: "peek ps [38] = (k, p)" by fastforce
  obtain ret w p1 where g: "gettoken p = (ret, w, p1)" by (metis prod_cases3)
  have p: "suffix p s"
    using peek_suffix [OF pk] 1(3) suffix_order.trans by blast
  then have "suffix p1 s"
    using gettoken_suffix(1) [OF g] suffix_order.trans by blast
  moreover have "parse_backs (BACK c) p1 = (c', r)" if k
    using 1(2) pk g that by (simp add: parse_backs.simps [of c ps])
  ultimately have "k \<Longrightarrow> suffix r s \<and> set_cmd c' = set_cmd (BACK c)"
    using 1(1) pk g by (auto simp: eq_commute)
  then show ?case
    using 1(2) p pk by (cases k) (simp_all add: parse_backs.simps [of c ps])
qed

lemma tokens_parsers:
  assumes z: "0 \<notin> set s"
  shows "suffix ps s \<Longrightarrow> tokens_ok set_cmd s (parseline n ps) \<and> tokens_ok set_cmd s (parsepipe n ps) \<and>
    tokens_ok set_cmd s (parseexec n ps) \<and> tokens_ok set_cmd s (parseblock n ps)"
proof (induction n arbitrary: ps)
  case (Suc n)
  note IH = Suc.IH [THEN conjunct1] Suc.IH [THEN conjunct2, THEN conjunct1]
    Suc.IH [THEN conjunct2, THEN conjunct2, THEN conjunct1] Suc.IH [THEN conjunct2, THEN conjunct2, THEN conjunct2]
  have "tokens_ok set_cmd s (parseline (Suc n) ps)"
    unfolding parseline.simps
  proof (rule tokens_ok_bnd [OF IH(2) [OF Suc.prems]])
    fix c r
    assume "suffix r s" "Ball (set_cmd c) (good s)"
    moreover obtain c' r' where b: "parse_backs c r = (c', r')"
      by fastforce
    ultimately have "suffix r' s" "Ball (set_cmd c') (good s)"
      using tokens_parse_backs [OF b] by simp_all
    then show "tokens_ok set_cmd s (let (c, ps) = parse_backs c r in
        case peek ps [59] of (True, ps) \<Rightarrow> let (_, _, ps) = gettoken ps in bnd (parseline n ps) (\<lambda>r ps. Ok (LIST c r) ps)
        | (False, ps) \<Rightarrow> Ok c ps)"
      unfolding b by (auto intro!: tokens_ok_peek tokens_ok_token tokens_ok_bnd [OF IH(1)] z)
  qed
  moreover have "tokens_ok set_cmd s (parsepipe (Suc n) ps)"
    unfolding parsepipe.simps
    by (auto intro!: tokens_ok_bnd [OF IH(3)] tokens_ok_bnd [OF IH(2)] tokens_ok_peek tokens_ok_token Suc.prems z)
  moreover have "tokens_ok set_cmd s (parseexec (Suc n) ps)"
    unfolding parseexec.simps
    by (auto intro!: tokens_ok_bnd [OF tokens_parseredirs] tokens_ok_bnd [OF tokens_parse_args] tokens_ok_peek IH(4)
        Suc.prems z simp: set_wrap) force+
  moreover have "tokens_ok set_cmd s (parseblock (Suc n) ps)"
    unfolding parseblock.simps
    by (auto intro!: tokens_ok_bnd [OF IH(1)] tokens_ok_bnd [OF tokens_parseredirs] tokens_ok_peek tokens_ok_token
        Suc.prems z simp: set_wrap) force+
  ultimately show ?case by simp
qed (simp_all add: parseline.simps parsepipe.simps parseexec.simps parseblock.simps)

lemma update_nth: "xs[i := x] ! j = (if i = j \<and> i < length xs then x else xs ! j)"
  by (cases "i < length xs") (auto simp: nth_list_update list_update_beyond)

lemma nul_words:
  "length (foldl (\<lambda>b (q, eq). b[n - length eq := 0]) b ws) = length b \<and>
   (\<forall>i < length b. foldl (\<lambda>b (q, eq). b[n - length eq := 0]) b ws ! i =
     (if i \<in> (\<lambda>w. n - length (snd w)) ` set ws then 0 else b ! i))"
  by (induction ws arbitrary: b) (auto simp: update_nth, force)

lemma nulterminate_nth:
  "length (nulterminate n c b) = length b \<and>
   (\<forall>i < length b. nulterminate n c b ! i =
     (if i \<in> (\<lambda>w. n - length (snd w)) ` set_cmd c then 0 else b ! i))"
proof (induction n c b rule: nulterminate.induct)
  case (1 n ws b)
  show ?case using nul_words [of n b ws] by simp
next
  case (2 n c q eq mode fd b)
  then show ?case by (auto simp: update_nth)
qed auto

lemma parsecmd_good:
  assumes "parsecmd s = Ok (c, b) r" and "0 \<notin> set s"
  shows "Ball (set_cmd c) (good s)" and "b = nulterminate (length s) c (s @ [0])"
proof -
  obtain r' where p: "parse s = Ok c r'" and b: "b = nulterminate (length s) c (s @ [0])"
    using assms(1) by (auto simp: parsecmd_def bnd_eq_Ok)
  obtain c'' r'' where pl: "parseline (4 * length s + 4) s = Ok c'' r''"
    using p unfolding parse_def by (elim bnd_OkE)
  have "c'' = c"
    using p by (cases "peek r'' []") (simp add: parse_def pl split: if_splits)
  note pl = pl [unfolded this]
  show "Ball (set_cmd c) (good s)"
    using tokens_parsers [OF assms(2), of s "4 * length s + 4"] pl by simp
  show "b = nulterminate (length s) c (s @ [0])" by (rule b)
qed

lemma good_position:
  assumes "good s w" and "j < length (word w)"
  shows "s ! (length s - length (fst w) + j) = word w ! j" and "length s - length (fst w) + j < length s - length (snd w)"
    and "length (snd w) \<le> length s"
proof -
  obtain pre where s: "s = pre @ word w @ snd w"
    using assms(1) by (auto simp: good_def suffix_def)
  have "fst w = word w @ snd w"
    using assms(1) by (simp add: good_def)
  then have "length s - length (fst w) = length pre" "length s - length (snd w) = length pre + length (word w)"
    by (simp_all add: s)
  then show "s ! (length s - length (fst w) + j) = word w ! j"
    "length s - length (fst w) + j < length s - length (snd w)" "length (snd w) \<le> length s"
    using assms(2) by (simp_all add: s nth_append)
qed

lemma good_not_end:
  assumes "good s w" and "good s v" and j: "j < length (word w)"
  shows "length s - length (fst w) + j \<noteq> length s - length (snd v)"
proof
  let ?i = "length s - length (fst w) + j"
  note pos = good_position [OF assms(1) j]
  assume eq: "?i = length s - length (snd v)"
  obtain pre where s: "s = pre @ word v @ snd v"
    using assms(2) by (auto simp: good_def suffix_def)
  have ne: "snd v \<noteq> []"
    using eq pos(2) by auto
  then have "s ! ?i = hd (snd v)"
    unfolding eq by (simp add: s nth_append hd_conv_nth)
  moreover have "ordinary (s ! ?i)"
    using assms(1) j pos(1) by (auto simp: good_def list_all_length)
  ultimately show False
    using assms(2) ne by (simp add: good_def)
qed

lemma string_at:
  assumes "\<And>j. j < m \<Longrightarrow> b ! (k + j) = x ! j \<and> x ! j \<noteq> 0" and "b ! (k + m) = 0" and "m = length x" and "k + m < length b"
  shows "takeWhile (\<lambda>x. x \<noteq> 0) (drop k b) = (x :: str)"
proof -
  have "takeWhile (\<lambda>x. x \<noteq> 0) (drop k b) = take m (drop k b)"
    using assms by (intro takeWhile_eq_take_P_nth) auto
  also have "\<dots> = x"
    using assms by (intro nth_equalityI) auto
  finally show ?thesis .
qed

text \<open>C33: After \<open>parsecmd\<close> has put a zero behind every word, the pointer to each word of the command (an
  argument or a file name) is a C string that holds exactly the characters of its token: no zero
  falls into another word.\<close>

theorem parsecmd_strings:
  assumes "parsecmd s = Ok (c, b) r" and "0 \<notin> set s" and "w \<in> set_cmd c"
  shows "takeWhile (\<lambda>x. x \<noteq> 0) (drop (length s - length (fst w)) b) = word w"
proof (rule string_at [where m = "length (word w)"])
  let ?n = "length s" and ?k = "length s - length (fst w)" and ?m = "length (word w)"
  note gd = parsecmd_good [OF assms(1,2)]
  have w: "good s w"
    using gd(1) assms(3) by blast
  have le: "length (fst w) \<le> ?n"
    using w suffix_length_le unfolding good_def by blast
  have "fst w = word w @ snd w"
    using w by (simp add: good_def)
  from arg_cong [OF this, of length] have km: "?k + ?m = ?n - length (snd w)"
    using le by simp
  have nth: "b ! i = (if i \<in> (\<lambda>w. ?n - length (snd w)) ` set_cmd c then 0 else (s @ [0]) ! i)" if "i \<le> ?n" for i
    using nulterminate_nth [of ?n c "s @ [0]"] that by (simp add: gd(2))
  show "b ! (?k + ?m) = 0"
    using nth [of "?k + ?m"] assms(3) km by auto
  show "?k + ?m < length b"
    using nulterminate_nth [of ?n c "s @ [0]"] km by (simp add: gd(2))
  fix j
  assume j: "j < ?m"
  have lt: "?k + j < ?n"
    using good_position(2) [OF w j] by linarith
  then have "b ! (?k + j) = s ! (?k + j)"
    using nth [of "?k + j"] good_not_end [OF w _ j] gd(1) by (auto simp: nth_append)
  then show "b ! (?k + j) = word w ! j \<and> word w ! j \<noteq> 0"
    using good_position(1) [OF w j] lt assms(2) nth_mem by metis
qed simp

theorem parsecmd_strings_witness:
  "parsecmd [108, 115, 62, 102] =
     Ok (REDIR (EXEC [([108, 115, 62, 102], [62, 102])]) ([102], []) 0x201 1, [108, 115, 0, 102, 0]) [] \<and>
   takeWhile (\<lambda>x. x \<noteq> 0) (drop 0 [108, 115, 0, 102, 0]) = word ([108, 115, 62, 102], [62, 102])"
proof -
  have p: "parsecmd [108, 115, 62, 102] =
     Ok (REDIR (EXEC [([108, 115, 62, 102], [62, 102])]) ([102], []) 0x201 1, [108, 115, 0, 102, 0]) []"
    by code_simp
  show ?thesis
    using p parsecmd_strings [OF p, of "([108, 115, 62, 102], [62, 102])"] by simp
qed

subsection \<open>Printing and parsing\<close>

text \<open>A way to write down a command, with every part of a compound command in parentheses.\<close>

fun show_cmd :: "str cmd \<Rightarrow> str" where
  "show_cmd (EXEC ws) = concat (map (\<lambda>w. w @ [32]) ws)"
| "show_cmd (REDIR c w mode fd) = 40 # show_cmd c @ 41 # (if fd = 0 then 60 else 62) # w"
| "show_cmd (PIPE l r) = 40 # show_cmd l @ 41 # 124 # 40 # show_cmd r @ [41]"
| "show_cmd (LIST l r) = 40 # show_cmd l @ 41 # 59 # 40 # show_cmd r @ [41]"
| "show_cmd (BACK c) = 40 # show_cmd c @ [41, 38]"

definition wf_word :: "str \<Rightarrow> bool" where
  "wf_word w \<longleftrightarrow> w \<noteq> [] \<and> list_all (\<lambda>c. ordinary c \<and> c \<noteq> 0) w"

fun wf_cmd :: "str cmd \<Rightarrow> bool" where
  "wf_cmd (EXEC ws) \<longleftrightarrow> length ws < MAXARGS \<and> list_all wf_word ws"
| "wf_cmd (REDIR c w mode fd) \<longleftrightarrow> wf_cmd c \<and> wf_word w \<and> ((mode, fd) = (0, 0) \<or> (mode, fd) = (0x201, 1))"
| "wf_cmd (PIPE l r) \<longleftrightarrow> wf_cmd l \<and> wf_cmd r"
| "wf_cmd (LIST l r) \<longleftrightarrow> wf_cmd l \<and> wf_cmd r"
| "wf_cmd (BACK c) \<longleftrightarrow> wf_cmd c"

text \<open>\<open>stops s\<close>: at \<open>s\<close> no command goes on: the end of the line, or one of the symbols that end a command.\<close>

definition stops :: "str \<Rightarrow> bool" where
  "stops s \<longleftrightarrow> s = [] \<or> hd s \<in> set [41, 124, 38, 59]"

definition starts :: "str \<Rightarrow> bool" where
  "starts s \<longleftrightarrow> s \<noteq> [] \<and> ordinary (hd s) \<and> hd s \<noteq> 0"

lemma skip_stops [simp]: "stops s \<Longrightarrow> skip s = s"
  by (cases s) (auto simp: stops_def skip_def white_def)

lemma skip_starts [simp]: "starts s \<Longrightarrow> skip s = s"
  by (cases s) (auto simp: starts_def skip_def ordinary_def)

lemma skip_symbol [simp]: "symbol c \<Longrightarrow> skip (c # s) = c # s"
  by (auto simp: skip_def white_def symbol_def)

lemma skip_space: "skip (32 # s) = skip s"
  by (simp add: skip_def white_def)

lemma symbols [simp]:
  "symbol 60" "symbol 124" "symbol 62" "symbol 38" "symbol 59" "symbol 40" "symbol 41"
  by (simp_all add: symbol_def)

lemma starts_not:
  assumes "starts s" and "\<forall>c \<in> set toks. symbol c"
  shows "peek s toks = (False, s)"
  using assms by (auto simp: peek_def Let_def star_def starts_def ordinary_def)

lemma stops_peek: "stops s \<Longrightarrow> peek s toks = (s \<noteq> [] \<and> hd s \<in> set toks, s)"
  by (auto simp: peek_def Let_def star_def stops_def)

lemma symbol_peek: "symbol c \<Longrightarrow> peek (c # s) toks = (c \<in> set toks, c # s)"
  by (auto simp: peek_def Let_def star_def symbol_def)

lemma parseredirs_none: "stops s \<or> starts s \<Longrightarrow> parseredirs s = Ok [] s"
  by (auto simp: parseredirs.simps [of s] starts_not stops_peek stops_def)

lemma gettoken_symbol:
  "c \<in> set [124, 40, 41, 59, 38, 60] \<Longrightarrow> gettoken (c # s) = (c, (c # s, s), skip s)"
  by (auto simp: gettoken_def star_def)

lemma gettoken_gt: "starts s \<Longrightarrow> gettoken (62 # s) = (62, (62 # s, s), s)"
proof -
  assume s: "starts s"
  then have "hd s \<noteq> 62" and "s \<noteq> []"
    by (auto simp: starts_def ordinary_def)
  then show ?thesis
    using s by (simp add: gettoken_def star_def)
qed

lemma wf_word_starts: "wf_word w \<Longrightarrow> starts (w @ s)"
  by (cases w) (auto simp: wf_word_def starts_def)

lemma gettoken_word:
  assumes "wf_word w" and "s = [] \<or> \<not> ordinary (hd s)"
  shows "gettoken (w @ s) = (97, (w @ s, s), skip s)"
proof -
  have "starts (w @ s)"
    by (rule wf_word_starts [OF assms(1)])
  moreover have "dropWhile ordinary (w @ s) = s"
    using assms by (cases s) (auto simp: wf_word_def list_all_iff dropWhile_append)
  ultimately show ?thesis
    by (auto simp: gettoken_def Let_def star_def starts_def ordinary_def [abs_def] symbol_def skip_idem)
qed

lemma not_ordinary [simp]: "\<not> ordinary 32" "symbol c \<Longrightarrow> \<not> ordinary c"
  by (simp_all add: ordinary_def white_def)

lemma stops_not_ordinary: "stops s \<Longrightarrow> s = [] \<or> \<not> ordinary (hd s)"
  by (auto simp: stops_def symbol_def)

lemma words_start:
  "stops aft \<Longrightarrow> list_all wf_word ws \<Longrightarrow> stops (concat (map (\<lambda>w. w @ [32]) ws) @ aft) \<or> starts (concat (map (\<lambda>w. w @ [32]) ws) @ aft)"
  by (cases ws) (auto simp: wf_word_starts)

lemma parse_args_words:
  assumes "stops aft" and "hd aft = 41 \<or> aft = []"
  shows "k + length ws < MAXARGS \<Longrightarrow> list_all wf_word ws \<Longrightarrow>
    \<exists>toks. parse_args k (concat (map (\<lambda>w. w @ [32]) ws) @ aft) = Ok (toks, []) aft \<and> map word toks = ws"
proof (induction ws arbitrary: k)
  case Nil
  have "gettoken [] = (0, ([], []), [])"
    by (simp add: gettoken_def star_def skip_def)
  then show ?case
    using assms by (cases aft) (auto simp: parse_args.simps [of k] stops_peek)
next
  case (Cons w ws)
  let ?rest = "concat (map (\<lambda>w. w @ [32]) ws) @ aft"
  have w: "wf_word w" and ws: "list_all wf_word ws"
    using Cons.prems by simp_all
  obtain toks where IH: "parse_args (Suc k) ?rest = Ok (toks, []) aft" "map word toks = ws"
    using Cons.IH [of "Suc k"] Cons.prems(1) ws by auto
  have rest: "stops ?rest \<or> starts ?rest"
    by (rule words_start [OF assms(1) ws])
  have sk: "skip (32 # ?rest) = ?rest"
    using rest by (auto simp: skip_space)
  have g: "gettoken (w @ 32 # ?rest) = (97, (w @ 32 # ?rest, 32 # ?rest), ?rest)"
    using gettoken_word [OF w, of "32 # ?rest"] sk by simp
  have pk: "peek (w @ 32 # ?rest) [124, 41, 38, 59] = (False, w @ 32 # ?rest)"
    by (rule starts_not [OF wf_word_starts [OF w]]) simp
  have "parse_args k (w @ 32 # ?rest) = Ok ((w @ 32 # ?rest, 32 # ?rest) # toks, []) aft"
    using Cons.prems(1) by (simp add: parse_args.simps [of k] pk g parseredirs_none [OF rest] IH)
  then show ?case
    using IH(2) by (intro exI [of _ "(w @ 32 # ?rest, 32 # ?rest) # toks"]) simp
qed

text \<open>The text of a command begins with a word or a parenthesis, or it is empty.\<close>

lemma show_skip:
  assumes "wf_cmd c" and "stops aft"
  shows "skip (show_cmd c @ aft) = show_cmd c @ aft"
proof (cases c)
  case (EXEC ws)
  then show ?thesis
    using words_start [of aft ws] assms by auto
qed simp_all

lemma parseblock_show:
  assumes "wf_cmd c" and line: "parseline n (show_cmd c @ 41 # rest) = Ok c' (41 # rest)"
  shows "parseexec (Suc (Suc n)) (40 # show_cmd c @ 41 # rest) =
    bnd (parseredirs (skip rest)) (\<lambda>rs ps. Ok (wrap c' rs) ps)"
proof -
  have "skip (show_cmd c @ 41 # rest) = show_cmd c @ 41 # rest"
    by (rule show_skip [OF assms(1)]) (simp add: stops_def)
  then show ?thesis
    by (simp add: parseexec.simps parseblock.simps symbol_peek gettoken_symbol line)
qed

lemma parse_backs_stop: "stops s \<Longrightarrow> (s = [] \<or> hd s \<noteq> 38) \<Longrightarrow> parse_backs c s = (c, s)"
  by (auto simp: parse_backs.simps [of c s] stops_peek)

lemma parsepipe_stop:
  "parseexec n ps = Ok c s \<Longrightarrow> stops s \<Longrightarrow> (s = [] \<or> hd s \<noteq> 124) \<Longrightarrow> parsepipe (Suc n) ps = Ok c s"
  by (auto simp: parsepipe.simps stops_peek)

lemma parseline_stop:
  "parsepipe n ps = Ok c s \<Longrightarrow> s = [] \<or> hd s = 41 \<Longrightarrow> parseline (Suc n) ps = Ok c s"
  by (auto simp: parseline.simps stops_peek parse_backs_stop stops_def)

definition parses :: "str cmd \<Rightarrow> bool" where
  "parses c \<longleftrightarrow> (\<forall>n aft. (aft = [] \<or> hd aft = 41) \<longrightarrow> 4 * length (show_cmd c @ aft) + 4 \<le> n \<longrightarrow>
     (\<exists>c'. parseline n (show_cmd c @ aft) = Ok c' aft \<and> map_cmd word c' = c))"

lemma parses_exec: "wf_cmd (EXEC ws) \<Longrightarrow> parses (EXEC ws)"
  unfolding parses_def
proof (intro allI impI)
  fix n aft
  assume wf: "wf_cmd (EXEC ws)" and aft: "aft = [] \<or> hd aft = 41"
    and n: "4 * length (show_cmd (EXEC ws) @ aft) + 4 \<le> n"
  define m where "m = n - 3"
  have m: "n = Suc (Suc (Suc m))"
    using n by (simp add: m_def)
  let ?t = "concat (map (\<lambda>w. w @ [32]) ws) @ aft"
  have st: "stops aft"
    using aft by (auto simp: stops_def)
  obtain toks where a: "parse_args 0 ?t = Ok (toks, []) aft" "map word toks = ws"
    using parse_args_words [OF st, of 0 ws] aft wf by auto
  have t: "stops ?t \<or> starts ?t" and nb: "peek ?t [40] = (False, ?t)"
    using words_start [OF st, of ws] wf by (auto simp: stops_peek starts_not stops_def)
  have "parseexec (Suc m) ?t = Ok (EXEC toks) aft"
    using a t by (simp add: parseexec.simps nb parseredirs_none wrap_def)
  then have "parseline n ?t = Ok (EXEC toks) aft"
    using aft st unfolding m by (intro parseline_stop parsepipe_stop) auto
  then show "\<exists>c'. parseline n (show_cmd (EXEC ws) @ aft) = Ok c' aft \<and> map_cmd word c' = EXEC ws"
    using a(2) by auto
qed

lemma parses_block:
  assumes "wf_cmd c" and "parses c" and "4 * length (show_cmd c) + 4 * length rest + 8 \<le> n"
  obtains c' where "parseexec (Suc (Suc n)) (40 # show_cmd c @ 41 # rest) = bnd (parseredirs (skip rest)) (\<lambda>rs ps. Ok (wrap c' rs) ps)"
    and "map_cmd word c' = c"
proof -
  obtain c' where "parseline n (show_cmd c @ 41 # rest) = Ok c' (41 # rest)" "map_cmd word c' = c"
    using assms(2,3) unfolding parses_def by (auto dest!: spec [of _ n] spec [of _ "41 # rest"])
  then show thesis
    using that parseblock_show [OF assms(1)] by blast
qed

lemma parses_block_stop:
  assumes "wf_cmd c" and "parses c" and "4 * length (show_cmd c) + 4 * length rest + 10 \<le> n" and "stops rest"
  obtains c' where "parseexec n (40 # show_cmd c @ 41 # rest) = Ok c' rest" and "map_cmd word c' = c"
proof -
  define m where "m = n - 2"
  have n: "n = Suc (Suc m)" "4 * length (show_cmd c) + 4 * length rest + 8 \<le> m"
    using assms(3) by (simp_all add: m_def)
  from parses_block [OF assms(1,2) n(2)] obtain c' where
    "parseexec n (40 # show_cmd c @ 41 # rest) = bnd (parseredirs (skip rest)) (\<lambda>rs ps. Ok (wrap c' rs) ps)"
    "map_cmd word c' = c"
    unfolding n(1) by blast
  then show thesis
    using that [of c'] assms(4) by (simp add: parseredirs_none wrap_def)
qed

lemma parses_redir:
  assumes "wf_cmd (REDIR c w mode fd)" and "parses c"
  shows "parses (REDIR c w mode fd)"
  unfolding parses_def
proof (intro allI impI)
  fix n aft
  assume aft: "aft = [] \<or> hd aft = 41" and n: "4 * length (show_cmd (REDIR c w mode fd) @ aft) + 4 \<le> n"
  define m where "m = n - 4"
  have m: "n = Suc (Suc (Suc (Suc m)))"
    using n by (simp add: m_def)
  let ?op = "if fd = 0 then 60 else 62 :: u8"
  have w: "wf_word w" and md: "redir_mode ?op = (mode, fd)" and c: "wf_cmd c"
    using assms(1) by (auto simp: redir_mode_def)
  have st: "stops aft" and nw: "aft = [] \<or> \<not> ordinary (hd aft)"
    using aft by (auto simp: stops_def)
  have g1: "gettoken (?op # w @ aft) = (?op, (?op # w @ aft, w @ aft), w @ aft)"
    using wf_word_starts [OF w, of aft] by (simp add: gettoken_symbol gettoken_gt)
  have g2: "gettoken (w @ aft) = (97, (w @ aft, aft), aft)"
    using gettoken_word [OF w nw] st by simp
  have pk: "peek (?op # w @ aft) [60, 62] = (True, ?op # w @ aft)"
    by (simp add: symbol_peek)
  have r: "parseredirs (?op # w @ aft) = Ok [((w @ aft, aft), mode, fd)] aft"
    using st by (simp add: parseredirs.simps [of "?op # w @ aft"] pk g1 g2 md parseredirs_none del: if_splits)
  obtain c' where "parseexec (Suc (Suc m)) (40 # show_cmd c @ 41 # ?op # w @ aft) =
      bnd (parseredirs (skip (?op # w @ aft))) (\<lambda>rs ps. Ok (wrap c' rs) ps)" and c': "map_cmd word c' = c"
    using parses_block [OF c assms(2), of "?op # w @ aft" m] n m by auto
  then have "parseexec (Suc (Suc m)) (40 # show_cmd c @ 41 # ?op # w @ aft) = Ok (REDIR c' (w @ aft, aft) mode fd) aft"
    using r by (simp add: wrap_def)
  then have "parseline n (40 # show_cmd c @ 41 # ?op # w @ aft) = Ok (REDIR c' (w @ aft, aft) mode fd) aft"
    using aft st unfolding m by (intro parseline_stop parsepipe_stop) auto
  then show "\<exists>c'. parseline n (show_cmd (REDIR c w mode fd) @ aft) = Ok c' aft \<and> map_cmd word c' = REDIR c w mode fd"
    using c' by (intro exI [of _ "REDIR c' (w @ aft, aft) mode fd"]) simp
qed

lemma parses_pipe:
  assumes "wf_cmd l" "wf_cmd r" "parses l" "parses r"
  shows "parses (PIPE l r)"
  unfolding parses_def
proof (intro allI impI)
  fix n aft
  assume aft: "aft = [] \<or> hd aft = 41" and n: "4 * length (show_cmd (PIPE l r) @ aft) + 4 \<le> n"
  define m where "m = n - 3"
  have m: "n = Suc (Suc (Suc m))"
    using n by (simp add: m_def)
  let ?r = "40 # show_cmd r @ 41 # aft"
  have st: "stops aft" and st': "stops (124 # ?r)"
    using aft by (auto simp: stops_def)
  obtain l' where l': "parseexec (Suc m) (40 # show_cmd l @ 41 # 124 # ?r) = Ok l' (124 # ?r)" "map_cmd word l' = l"
    using parses_block_stop [OF assms(1,3) _ st', of "Suc m"] n m by auto
  obtain r' where r': "parseexec m ?r = Ok r' aft" "map_cmd word r' = r"
    using parses_block_stop [OF assms(2,4) _ st, of m] n m by auto
  have "parsepipe (Suc m) ?r = Ok r' aft"
    using r'(1) st aft by (intro parsepipe_stop) auto
  then have "parsepipe (Suc (Suc m)) (40 # show_cmd l @ 41 # 124 # ?r) = Ok (PIPE l' r') aft"
    by (simp add: parsepipe.simps(2) [of "Suc m"] l'(1) symbol_peek gettoken_symbol)
  then have "parseline n (40 # show_cmd l @ 41 # 124 # ?r) = Ok (PIPE l' r') aft"
    using aft unfolding m by (intro parseline_stop) auto
  then show "\<exists>c'. parseline n (show_cmd (PIPE l r) @ aft) = Ok c' aft \<and> map_cmd word c' = PIPE l r"
    using l'(2) r'(2) by (intro exI [of _ "PIPE l' r'"]) simp
qed

lemma parses_list:
  assumes "wf_cmd l" "wf_cmd r" "parses l" "parses r"
  shows "parses (LIST l r)"
  unfolding parses_def
proof (intro allI impI)
  fix n aft
  assume aft: "aft = [] \<or> hd aft = 41" and n: "4 * length (show_cmd (LIST l r) @ aft) + 4 \<le> n"
  define m where "m = n - 3"
  have m: "n = Suc (Suc (Suc m))"
    using n by (simp add: m_def)
  let ?r = "40 # show_cmd r @ 41 # aft"
  have st: "stops aft" and st': "stops (59 # ?r)"
    using aft by (auto simp: stops_def)
  obtain l' where l': "parseexec (Suc m) (40 # show_cmd l @ 41 # 59 # ?r) = Ok l' (59 # ?r)" "map_cmd word l' = l"
    using parses_block_stop [OF assms(1,3) _ st', of "Suc m"] n m by auto
  obtain r' where r': "parseexec m ?r = Ok r' aft" "map_cmd word r' = r"
    using parses_block_stop [OF assms(2,4) _ st, of m] n m by auto
  have "parsepipe (Suc m) ?r = Ok r' aft"
    using r'(1) st aft by (intro parsepipe_stop) auto
  then have "parseline (Suc (Suc m)) ?r = Ok r' aft"
    using aft by (intro parseline_stop) auto
  moreover have "parsepipe (Suc (Suc m)) (40 # show_cmd l @ 41 # 59 # ?r) = Ok l' (59 # ?r)"
    by (rule parsepipe_stop [OF l'(1) st']) simp
  moreover have "parse_backs l' (59 # ?r) = (l', 59 # ?r)"
    by (rule parse_backs_stop [OF st']) simp
  ultimately have "parseline n (40 # show_cmd l @ 41 # 59 # ?r) = Ok (LIST l' r') aft"
    unfolding m by (simp add: parseline.simps(2) [of "Suc (Suc m)"] symbol_peek gettoken_symbol)
  then show "\<exists>c'. parseline n (show_cmd (LIST l r) @ aft) = Ok c' aft \<and> map_cmd word c' = LIST l r"
    using l'(2) r'(2) by (intro exI [of _ "LIST l' r'"]) simp
qed

lemma parses_back:
  assumes "wf_cmd c" "parses c"
  shows "parses (BACK c)"
  unfolding parses_def
proof (intro allI impI)
  fix n aft
  assume aft: "aft = [] \<or> hd aft = 41" and n: "4 * length (show_cmd (BACK c) @ aft) + 4 \<le> n"
  define m where "m = n - 2"
  have m: "n = Suc (Suc m)"
    using n by (simp add: m_def)
  have st: "stops aft" and st': "stops (38 # aft)"
    using aft by (auto simp: stops_def)
  obtain c' where c': "parseexec m (40 # show_cmd c @ 41 # 38 # aft) = Ok c' (38 # aft)" "map_cmd word c' = c"
    using parses_block_stop [OF assms _ st', of m] n m by auto
  have "parsepipe (Suc m) (40 # show_cmd c @ 41 # 38 # aft) = Ok c' (38 # aft)"
    by (rule parsepipe_stop [OF c'(1) st']) simp
  moreover have "parse_backs c' (38 # aft) = (BACK c', aft)"
    using st aft by (simp add: parse_backs.simps [of c'] symbol_peek gettoken_symbol) (auto intro: parse_backs_stop)
  moreover have "peek aft [59] = (False, aft)"
    using st aft by (auto simp: stops_peek)
  ultimately have "parseline n (40 # show_cmd c @ 41 # 38 # aft) = Ok (BACK c') aft"
    unfolding m by (simp add: parseline.simps(2) [of "Suc m"])
  then show "\<exists>c'. parseline n (show_cmd (BACK c) @ aft) = Ok c' aft \<and> map_cmd word c' = BACK c"
    using c'(2) by (intro exI [of _ "BACK c'"]) simp
qed

lemma wf_parses: "wf_cmd c \<Longrightarrow> parses c"
  by (induction c) (auto intro: parses_exec parses_redir parses_pipe parses_list parses_back simp del: wf_cmd.simps(1))

text \<open>C31: Printing a command and parsing it gives it back: for every command whose words are made of ordinary
  characters, with fewer than ten arguments each, \<open>parsecmd\<close> accepts its text and returns a command
  with the same structure and the same words.\<close>

theorem parsecmd_show:
  assumes "wf_cmd c"
  shows "\<exists>c' b. parsecmd (show_cmd c) = Ok (c', b) [] \<and> map_cmd word c' = c"
proof -
  let ?n = "4 * length (show_cmd c) + 4"
  obtain c' where "parseline ?n (show_cmd c) = Ok c' []" "map_cmd word c' = c"
    using wf_parses [OF assms] unfolding parses_def by (auto dest!: spec [of _ ?n] spec [of _ "[]"])
  then show ?thesis
    by (simp add: parsecmd_def parse_def peek_def skip_def)
qed

theorem parsecmd_show_witness:
  "wf_cmd (PIPE (EXEC [[108, 115]]) (BACK (REDIR (EXEC [[119, 99]]) [102] 0x201 1))) \<and>
   (\<exists>c' b. parsecmd (show_cmd (PIPE (EXEC [[108, 115]]) (BACK (REDIR (EXEC [[119, 99]]) [102] 0x201 1)))) = Ok (c', b) [] \<and>
     map_cmd word c' = PIPE (EXEC [[108, 115]]) (BACK (REDIR (EXEC [[119, 99]]) [102] 0x201 1)))"
proof -
  have "wf_cmd (PIPE (EXEC [[108, 115]]) (BACK (REDIR (EXEC [[119, 99]]) [102] 0x201 1)))"
    by (simp add: wf_word_def ordinary_def white_def symbol_def)
  then show ?thesis
    using parsecmd_show by blast
qed

text \<open>The shell gives \<open>>>\<close> the meaning of \<open>>\<close>: the same mode, without appending.\<close>

lemma append_is_overwrite:
  "map_res (\<lambda>(c, _). map_cmd word c) id (parsecmd [97, 62, 62, 102]) =
   map_res (\<lambda>(c, _). map_cmd word c) id (parsecmd [97, 62, 102])"
  by code_simp

end
