(* ===== verification/Grep.thy ===== *)
theory Grep
  imports Prelude
begin

section \<open>Pattern matching: grep.c\<close>

text \<open>
  A C string is the list of its characters before the terminating zero.  \<open>match\<close>, \<open>matchhere\<close> and
  \<open>matchstar\<close> are the three functions of the source; \<open>grep_lines\<close> and \<open>grep\<close> are its input loop, with the
  blocks that \<open>read\<close> returns as an argument and the bytes written to descriptor 1 as the result.

  The specification reads a pattern as a list of items, each a character class taken once or any
  number of times, with a mark for a final \<open>$\<close>.  \<open>lang\<close> is the set of strings that the items denote.
\<close>

type_synonym str = "u8 list"

subsection \<open>The matcher\<close>

function matchhere :: "str \<Rightarrow> str \<Rightarrow> bool"
  and matchstar :: "u8 \<Rightarrow> str \<Rightarrow> str \<Rightarrow> bool" where
  "matchhere re tx =
     (if re = [] then True
      else if tl re \<noteq> [] \<and> hd (tl re) = 42 then matchstar (hd re) (tl (tl re)) tx
      else if hd re = 36 \<and> tl re = [] then tx = []
      else if tx \<noteq> [] \<and> (hd re = 46 \<or> hd re = hd tx) then matchhere (tl re) (tl tx)
      else False)"
| "matchstar c re tx =
     (if matchhere re tx then True
      else if tx \<noteq> [] \<and> (hd tx = c \<or> c = 46) then matchstar c re (tl tx)
      else False)"
  by pat_completeness auto

termination matchhere
proof (relation "case_sum (\<lambda>(re, _). 2 * length re) (\<lambda>(_, re, _). 2 * length re + 1)
    <*mlex*> measure (case_sum (\<lambda>(_, t). length t) (\<lambda>(_, _, t). length t))", goal_cases)
  case (2 re tx)
  then show ?case
    by (cases re; cases "tl re") (auto simp: mlex_prod_def)
next
  case (3 re tx)
  then show ?case
    by (cases re) (auto simp: mlex_prod_def)
next
  case (5 c re tx)
  then show ?case
    by (cases tx) (auto simp: mlex_prod_def)
qed (auto simp: mlex_prod_def wf_mlex)

declare matchhere.simps [simp del] matchstar.simps [simp del]

fun match_from :: "str \<Rightarrow> str \<Rightarrow> bool" where
  "match_from re [] = matchhere re []"
| "match_from re (t # tx) = (if matchhere re (t # tx) then True else match_from re tx)"

definition match :: "str \<Rightarrow> str \<Rightarrow> bool" where
  "match re tx = (if re \<noteq> [] \<and> hd re = 94 then matchhere (tl re) tx else match_from re tx)"

subsection \<open>What a pattern means\<close>

datatype item = One u8 | Many u8

definition fits :: "u8 \<Rightarrow> u8 \<Rightarrow> bool" where
  "fits c x \<longleftrightarrow> c = 46 \<or> c = x"

fun items :: "str \<Rightarrow> item list \<times> bool" where
  "items [] = ([], False)"
| "items [c] = (if c = 36 then ([], True) else ([One c], False))"
| "items (c # d # re) =
     (if d = 42 then (let (is, e) = items re in (Many c # is, e))
      else (let (is, e) = items (d # re) in (One c # is, e)))"

fun lang :: "item list \<Rightarrow> str set" where
  "lang [] = {[]}"
| "lang (One c # is) = {x # w | x w. fits c x \<and> w \<in> lang is}"
| "lang (Many c # is) = {u @ w | u w. list_all (fits c) u \<and> w \<in> lang is}"

text \<open>\<open>re\<close> denotes some beginning of the text; all of it if the pattern ends in \<open>$\<close>.\<close>

definition denotes_prefix :: "str \<Rightarrow> str \<Rightarrow> bool" where
  "denotes_prefix re tx \<longleftrightarrow>
     (\<exists>u w. tx = u @ w \<and> u \<in> lang (fst (items re)) \<and> (snd (items re) \<longrightarrow> w = []))"

definition denotes :: "str \<Rightarrow> str \<Rightarrow> bool" where
  "denotes re tx \<longleftrightarrow>
     (if re \<noteq> [] \<and> hd re = 94 then denotes_prefix (tl re) tx
      else \<exists>pre post. tx = pre @ post \<and> denotes_prefix re post)"

lemma denotes_Nil [simp]: "denotes_prefix [] tx"
  by (simp add: denotes_prefix_def)

lemma denotes_dollar: "denotes_prefix [36] tx \<longleftrightarrow> tx = []"
  by (auto simp: denotes_prefix_def)

lemma items_One:
  "\<not> (c = 36 \<and> re = []) \<Longrightarrow> \<not> (re \<noteq> [] \<and> hd re = 42) \<Longrightarrow>
   items (c # re) = (One c # fst (items re), snd (items re))"
  by (cases re) (auto simp: Let_def split: prod.splits)

lemma denotes_One:
  assumes "\<not> (c = 36 \<and> re = [])" and "\<not> (re \<noteq> [] \<and> hd re = 42)"
  shows "denotes_prefix (c # re) tx \<longleftrightarrow> tx \<noteq> [] \<and> fits c (hd tx) \<and> denotes_prefix re (tl tx)"
proof -
  have "denotes_prefix (c # re) tx \<longleftrightarrow>
      (\<exists>x v w. tx = x # v @ w \<and> fits c x \<and> v \<in> lang (fst (items re)) \<and> (snd (items re) \<longrightarrow> w = []))"
    unfolding denotes_prefix_def items_One [OF assms] fst_conv snd_conv lang.simps mem_Collect_eq
    by (metis append_Cons)
  then show ?thesis
    by (cases tx) (auto simp: denotes_prefix_def)
qed

lemma denotes_Many:
  "denotes_prefix (c # 42 # re) tx \<longleftrightarrow>
   (\<exists>u w. tx = u @ w \<and> list_all (fits c) u \<and> denotes_prefix re w)"
proof -
  have it: "items (c # 42 # re) = (Many c # fst (items re), snd (items re))"
    by (simp add: Let_def split: prod.splits)
  let ?L = "lang (fst (items re))" and ?e = "\<lambda>w. snd (items re) \<longrightarrow> w = []"
  have "denotes_prefix (c # 42 # re) tx \<longleftrightarrow> (\<exists>u v w. tx = (u @ v) @ w \<and> list_all (fits c) u \<and> v \<in> ?L \<and> ?e w)"
    unfolding denotes_prefix_def it fst_conv snd_conv lang.simps mem_Collect_eq by blast
  also have "\<dots> \<longleftrightarrow> (\<exists>u v w. tx = u @ (v @ w) \<and> list_all (fits c) u \<and> v \<in> ?L \<and> ?e w)"
    unfolding append_assoc ..
  also have "\<dots> \<longleftrightarrow> (\<exists>u w. tx = u @ w \<and> list_all (fits c) u \<and> denotes_prefix re w)"
    unfolding denotes_prefix_def by blast
  finally show ?thesis .
qed

lemma denotes_Many_step:
  "denotes_prefix (c # 42 # re) tx \<longleftrightarrow>
   denotes_prefix re tx \<or> tx \<noteq> [] \<and> fits c (hd tx) \<and> denotes_prefix (c # 42 # re) (tl tx)"
  (is "?l \<longleftrightarrow> ?r")
proof
  assume ?l
  then obtain u w where "tx = u @ w" "list_all (fits c) u" "denotes_prefix re w"
    by (auto simp: denotes_Many)
  then show ?r
    by (cases u) (auto simp: denotes_Many)
next
  assume ?r
  then show ?l
  proof
    assume "denotes_prefix re tx"
    then show ?l
      unfolding denotes_Many by (intro exI [of _ "[]"] exI [of _ tx]) simp
  next
    assume "tx \<noteq> [] \<and> fits c (hd tx) \<and> denotes_prefix (c # 42 # re) (tl tx)"
    then obtain u w where "tx \<noteq> []" "fits c (hd tx)" "tl tx = u @ w" "list_all (fits c) u" "denotes_prefix re w"
      by (auto simp: denotes_Many)
    then show ?l
      unfolding denotes_Many by (intro exI [of _ "hd tx # u"] exI [of _ w]) (cases tx; auto)
  qed
qed

lemma matchhere_iff: "matchhere re tx \<longleftrightarrow> denotes_prefix re tx"
  and matchstar_iff: "matchstar c re tx \<longleftrightarrow> denotes_prefix (c # 42 # re) tx"
proof (induction re tx and c re tx rule: matchhere_matchstar.induct)
  case (1 re tx)
  show ?case
  proof (cases re)
    case Nil
    then show ?thesis by (simp add: matchhere.simps)
  next
    case (Cons c r)
    consider (star) r' where "r = 42 # r'" | (dollar) "r = []" "c = 36"
      | (one) "\<not> (r \<noteq> [] \<and> hd r = 42)" "\<not> (c = 36 \<and> r = [])"
      by (cases r) auto
    then show ?thesis
    proof cases
      case star
      then have "matchhere re tx = matchstar c r' tx"
        by (simp add: Cons matchhere.simps [of "c # 42 # r'"])
      also have "\<dots> = denotes_prefix (c # 42 # r') tx"
        using 1(1) star Cons by simp
      finally show ?thesis using star Cons by simp
    next
      case dollar
      then show ?thesis by (simp add: Cons matchhere.simps denotes_dollar)
    next
      case one
      have "matchhere re tx = (tx \<noteq> [] \<and> fits c (hd tx) \<and> matchhere r (tl tx))"
        using one by (auto simp: Cons matchhere.simps [of "c # r"] fits_def)
      also have "\<dots> = (tx \<noteq> [] \<and> fits c (hd tx) \<and> denotes_prefix r (tl tx))"
        using 1(2) one Cons by (auto simp: fits_def)
      finally show ?thesis
        by (simp add: Cons denotes_One [OF one(2,1)])
    qed
  qed
next
  case (2 c re tx)
  have "matchstar c re tx =
      (matchhere re tx \<or> tx \<noteq> [] \<and> fits c (hd tx) \<and> matchstar c re (tl tx))"
    by (auto simp: matchstar.simps [of c re tx] fits_def)
  also have "\<dots> = denotes_prefix (c # 42 # re) tx"
    using 2 by (subst denotes_Many_step) (auto simp: fits_def)
  finally show ?case .
qed

lemma match_from_iff: "match_from re tx \<longleftrightarrow> (\<exists>pre post. tx = pre @ post \<and> denotes_prefix re post)"
proof (induction tx)
  case (Cons t tx)
  show ?case
    using Cons.IH by (auto simp: matchhere_iff append_eq_Cons_conv Cons_eq_append_conv)
qed (simp add: matchhere_iff)

text \<open>C34: \<open>grep\<close>'s matcher decides exactly the patterns' meaning: \<open>match re tx\<close> holds if and only if some
  part of the text (its beginning for a pattern that starts with \<open>^\<close>, up to its end for one that ends
  with \<open>$\<close>) is a string that the pattern denotes.\<close>

theorem match_iff_denotes: "match re tx \<longleftrightarrow> denotes re tx"
  by (simp add: match_def denotes_def matchhere_iff match_from_iff)

subsection \<open>The input loop\<close>

text \<open>
  \<open>strchr_ix c p\<close> is \<open>strchr(p, c) - p\<close>.  \<open>grep_lines\<close> is the inner loop from \<open>p\<close> on: what it writes and where
  \<open>p\<close> ends.  In \<open>grep\<close>, \<open>kept\<close> is the part of the buffer that is carried over, and \<open>n # ns\<close> the blocks that
  the calls of \<open>read\<close> return up to the first that returns none.
\<close>

definition strchr_ix :: "u8 \<Rightarrow> str \<Rightarrow> nat option" where
  "strchr_ix c p = find_idx (\<lambda>x. x = c) (takeWhile (\<lambda>x. x \<noteq> 0) p)"

lemma strchr_ix_less: "strchr_ix c p = Some k \<Longrightarrow> k < length p"
  using length_takeWhile_le [of "\<lambda>x. x \<noteq> 0" p] by (auto simp: strchr_ix_def find_idx_Some)

function grep_lines :: "str \<Rightarrow> str \<Rightarrow> str \<times> str" where
  "grep_lines re p =
     (case strchr_ix 10 p of
        None \<Rightarrow> ([], p)
      | Some k \<Rightarrow>
          let (out, rest) = grep_lines re (drop (k + 1) p) in
          ((if match re (take k p) then take (k + 1) p else []) @ out, rest))"
  by pat_completeness auto

termination grep_lines
  by (relation "measure (\<lambda>(_, p). length p)") (auto dest: strchr_ix_less)

declare grep_lines.simps [simp del]

fun grep :: "str \<Rightarrow> str list \<Rightarrow> str \<Rightarrow> str" where
  "grep re [] kept = []"
| "grep re (n # ns) kept =
     (let b = kept @ n; (out, p) = grep_lines re b in
      out @ grep re ns (if length p = length b then [] else p))"

text \<open>The complete lines of an input, and what follows the last newline.\<close>

fun lines_of :: "str \<Rightarrow> str list \<times> str" where
  "lines_of [] = ([], [])"
| "lines_of (x # xs) =
     (let (ls, r) = lines_of xs in
      if x = 10 then ([] # ls, r)
      else case ls of [] \<Rightarrow> ([], x # r) | l # ls \<Rightarrow> ((x # l) # ls, r))"

definition unlines :: "str list \<Rightarrow> str" where
  "unlines ls = concat (map (\<lambda>l. l @ [10]) ls)"

lemma unlines_simps [simp]: "unlines [] = []" "unlines (l # ls) = l @ 10 # unlines ls"
  by (simp_all add: unlines_def)

lemma unlines_lines: "unlines (fst (lines_of xs)) @ snd (lines_of xs) = xs"
  by (induction xs) (auto simp: Let_def split: prod.splits list.splits)

lemma lines_of_line [simp]:
  "10 \<notin> set l \<Longrightarrow> lines_of (l @ 10 # xs) = (l # fst (lines_of xs), snd (lines_of xs))"
  by (induction l) (auto split: prod.splits)

lemma lines_of_rest: "10 \<notin> set r \<Longrightarrow> lines_of r = ([], r)"
  by (induction r) auto

lemma lines_of_no_newline: "10 \<notin> set (snd (lines_of xs))"
  by (induction xs) (auto simp: Let_def split: prod.splits list.splits)

lemma lines_of_unlines_append:
  "\<forall>l \<in> set ls. 10 \<notin> set l \<Longrightarrow>
   lines_of (unlines ls @ xs) = (ls @ fst (lines_of xs), snd (lines_of xs))"
  by (induction ls) auto

lemma lines_of_lines: "l \<in> set (fst (lines_of xs)) \<Longrightarrow> 10 \<notin> set l"
  by (induction xs arbitrary: l) (auto simp: Let_def split: prod.splits list.splits if_splits)

lemma lines_of_append:
  "lines_of (xs @ ys) =
   (fst (lines_of xs) @ fst (lines_of (snd (lines_of xs) @ ys)), snd (lines_of (snd (lines_of xs) @ ys)))"
proof -
  have "xs @ ys = unlines (fst (lines_of xs)) @ snd (lines_of xs) @ ys"
    by (metis append.assoc unlines_lines)
  then show ?thesis
    by (metis lines_of_lines lines_of_unlines_append)
qed

lemma strchr_ix_no_zero:
  assumes "0 \<notin> set p"
  shows "strchr_ix c p = None \<longleftrightarrow> c \<notin> set p"
    and "strchr_ix c p = Some k \<Longrightarrow> p = take k p @ c # drop (k + 1) p \<and> c \<notin> set (take k p)"
proof -
  have tw: "takeWhile (\<lambda>x. x \<noteq> 0) p = p"
    using assms by (simp add: takeWhile_eq_all_conv) metis
  show "strchr_ix c p = None \<longleftrightarrow> c \<notin> set p"
    by (auto simp: strchr_ix_def tw find_idx_None)
  assume "strchr_ix c p = Some k"
  then have k: "k < length p" "p ! k = c" "\<forall>j < k. p ! j \<noteq> c"
    by (auto simp: strchr_ix_def tw find_idx_Some)
  then show "p = take k p @ c # drop (k + 1) p \<and> c \<notin> set (take k p)"
    using id_take_nth_drop [OF k(1)] by (auto simp: in_set_conv_nth)
qed

lemma grep_lines_eq:
  "0 \<notin> set p \<Longrightarrow> grep_lines re p = (unlines (filter (match re) (fst (lines_of p))), snd (lines_of p))"
proof (induction re p rule: grep_lines.induct)
  case (1 re p)
  show ?case
  proof (cases "strchr_ix 10 p")
    case None
    then show ?thesis
      using strchr_ix_no_zero(1) [OF 1(2), of 10] by (simp add: grep_lines.simps lines_of_rest)
  next
    case (Some k)
    note sp = strchr_ix_no_zero(2) [OF 1(2) Some]
    have "0 \<notin> set (drop (k + 1) p)"
      using 1(2) by (meson in_set_dropD)
    then have "grep_lines re (drop (k + 1) p) =
        (unlines (filter (match re) (fst (lines_of (drop (k + 1) p)))), snd (lines_of (drop (k + 1) p)))"
      using 1(1) [OF Some] by simp
    moreover have "lines_of p = (take k p # fst (lines_of (drop (k + 1) p)), snd (lines_of (drop (k + 1) p)))"
      using sp lines_of_line by metis
    moreover have "take (k + 1) p = take k p @ [10]"
      using sp strchr_ix_less [OF Some] by (metis append_eq_conv_conj length_take min.absorb2 nat_le_linear not_less nth_append_length take_Suc_conv_app_nth Suc_eq_plus1)
    ultimately show ?thesis
      using Some by (simp add: grep_lines.simps [of re p])
  qed
qed

lemma grep_kept:
  assumes "0 \<notin> set kept" and "10 \<notin> set kept" and "\<forall>n \<in> set ns. 10 \<in> set n \<and> 0 \<notin> set n"
  shows "grep re ns kept = unlines (filter (match re) (fst (lines_of (kept @ concat ns))))"
  using assms
proof (induction ns arbitrary: kept)
  case Nil
  then show ?case by (simp add: lines_of_rest)
next
  case (Cons n ns)
  let ?b = "kept @ n" and ?r = "snd (lines_of (kept @ n))"
  have z: "0 \<notin> set ?b"
    using Cons.prems by auto
  have "?r \<noteq> ?b"
    using Cons.prems(3) lines_of_no_newline [of ?b] by auto
  then have ne: "length ?r \<noteq> length ?b"
    using unlines_lines [of ?b] by (metis append_eq_append_conv append_Nil)
  have "0 \<notin> set ?r"
    using z unlines_lines [of ?b] by (metis Un_iff set_append)
  then have "grep re ns ?r = unlines (filter (match re) (fst (lines_of (?r @ concat ns))))"
    using Cons by (simp add: lines_of_no_newline)
  moreover have "lines_of (kept @ concat (n # ns)) =
      (fst (lines_of ?b) @ fst (lines_of (?r @ concat ns)), snd (lines_of (?r @ concat ns)))"
    using lines_of_append [of ?b "concat ns"] by simp
  ultimately show ?case
    using ne by (simp add: grep_lines_eq [OF z] unlines_def Let_def)
qed

text \<open>C35: When every block that \<open>read\<close> returns holds a newline (and no zero byte), \<open>grep\<close> writes exactly the
  complete lines of its input that match, in order, however the input is cut into blocks.\<close>

theorem grep_writes_matching_lines:
  assumes "\<forall>n \<in> set ns. 10 \<in> set n \<and> 0 \<notin> set n"
  shows "grep re ns [] = unlines (filter (match re) (fst (lines_of (concat ns))))"
  using grep_kept [of "[]" ns re] assms by simp

theorem grep_writes_matching_lines_witness:
  "grep [98, 99] [[97, 10, 98], [99, 10, 100]] [] =
     unlines (filter (match [98, 99]) (fst (lines_of (concat [[97, 10, 98], [99, 10, 100]]))))"
proof -
  have h: "\<forall>n \<in> set [[97, 10, 98], [99, 10, 100 :: u8]]. 10 \<in> set n \<and> 0 \<notin> set n"
    by simp
  show ?thesis
    by (rule grep_writes_matching_lines [OF h])
qed

text \<open>A block without a newline is dropped, and with it the beginning of the line that it holds: the line
  \<open>ab\<close> is found when it arrives in one block and lost when it arrives in two.\<close>

lemma grep_loses_split_line:
  "grep [97, 98] [[97, 98, 10]] [] = [97, 98, 10]" "grep [97, 98] [[97], [98, 10]] [] = []"
  by code_simp+

end
