(* ===== verification/Wc.thy ===== *)
theory Wc
  imports Prelude
begin

section \<open>Counting lines, words and characters: wc.c\<close>

text \<open>
  The program: the loops of \<open>wc\<close> with the four local variables of the source as state, the counters at the
  width of a C int, and \<open>main\<close> with its ways out.  What the calls of \<open>read\<close> return is a parameter, as a list: \<open>None\<close> is a
  negative result, an empty block the end of the file, and behind the end of the list \<open>read\<close> returns 0.  What the program
  prints is a list of messages; \<open>printf("%d")\<close> shows a counter as a signed number.  The specification counts in the whole
  input: its newlines, its words as the places where a word begins, its characters.
\<close>

record counts =
  c_l :: u32
  c_w :: u32
  c_c :: u32
  inword :: bool

datatype wc_out = Wc_line int int int string | Wc_read_error | Wc_cannot_open string

definition wc_space :: "u8 \<Rightarrow> bool" where
  "wc_space x \<longleftrightarrow> x \<in> set [32, 13, 9, 10, 11]"

definition wc_byte :: "counts \<Rightarrow> u8 \<Rightarrow> counts" where
  "wc_byte k x =
     (let k = k\<lparr>c_c := c_c k + 1\<rparr>;
          k = (if x = 10 then k\<lparr>c_l := c_l k + 1\<rparr> else k) in
      if wc_space x then k\<lparr>inword := False\<rparr>
      else if \<not> inword k then k\<lparr>c_w := c_w k + 1, inword := True\<rparr>
      else k)"

definition wc_block :: "counts \<Rightarrow> u8 list \<Rightarrow> counts" where
  "wc_block k b = foldl wc_byte k b"

text \<open>The loop around \<open>read\<close>; \<open>None\<close> is the negative result that ends it.\<close>

fun wc_loop :: "u8 list option list \<Rightarrow> counts \<Rightarrow> counts option" where
  "wc_loop [] k = Some k"
| "wc_loop (None # rs) k = None"
| "wc_loop (Some b # rs) k = (if b = [] then Some k else wc_loop rs (wc_block k b))"

definition wc :: "u8 list option list \<Rightarrow> string \<Rightarrow> wc_out" where
  "wc rs name =
     (case wc_loop rs \<lparr>c_l = 0, c_w = 0, c_c = 0, inword = False\<rparr> of
        None \<Rightarrow> Wc_read_error
      | Some k \<Rightarrow> Wc_line (sint (c_l k)) (sint (c_w k)) (sint (c_c k)) name)"

text \<open>\<open>main\<close>: \<open>op\<close> gives the results of \<open>read\<close> on a file, \<open>None\<close> if it cannot be opened.  Both errors call \<open>exit\<close>.\<close>

fun wc_files :: "(string \<Rightarrow> u8 list option list option) \<Rightarrow> string list \<Rightarrow> wc_out list" where
  "wc_files op [] = []"
| "wc_files op (a # as) =
     (case op a of
        None \<Rightarrow> [Wc_cannot_open a]
      | Some rs \<Rightarrow> if wc rs a = Wc_read_error then [Wc_read_error] else wc rs a # wc_files op as)"

definition wc_main :: "(string \<Rightarrow> u8 list option list option) \<Rightarrow> u8 list option list \<Rightarrow> string list \<Rightarrow> wc_out list" where
  "wc_main op stdin as = (if as = [] then [wc stdin []] else wc_files op as)"

text \<open>The places of an input where a word begins.\<close>

definition word_starts :: "u8 list \<Rightarrow> nat list" where
  "word_starts xs = filter (\<lambda>i. \<not> wc_space (xs ! i) \<and> (i = 0 \<or> wc_space (xs ! (i - 1)))) [0..<length xs]"

lemma word_starts_snoc:
  "word_starts (xs @ [x]) =
   word_starts xs @ (if \<not> wc_space x \<and> (xs = [] \<or> wc_space (last xs)) then [length xs] else [])"
proof -
  have "word_starts xs = filter (\<lambda>i. \<not> wc_space ((xs @ [x]) ! i) \<and> (i = 0 \<or> wc_space ((xs @ [x]) ! (i - 1)))) [0..<length xs]"
    unfolding word_starts_def by (rule filter_cong) (auto simp: nth_append)
  note eq = this
  have "(length xs = 0 \<or> wc_space ((xs @ [x]) ! (length xs - 1))) = (xs = [] \<or> wc_space (last xs))"
    by (cases "xs = []") (simp_all add: nth_append last_conv_nth)
  then show ?thesis
    unfolding eq by (simp add: word_starts_def del: nth_append)
qed

lemma wc_fold:
  "foldl wc_byte \<lparr>c_l = 0, c_w = 0, c_c = 0, inword = False\<rparr> xs =
   \<lparr>c_l = of_nat (count_list xs 10), c_w = of_nat (length (word_starts xs)), c_c = of_nat (length xs),
    inword = (xs \<noteq> [] \<and> \<not> wc_space (last xs))\<rparr>"
proof (induction xs rule: rev_induct)
  case (snoc x xs)
  then show ?case
    by (auto simp: wc_byte_def word_starts_snoc Let_def wc_space_def)
qed (simp add: word_starts_def)

lemma wc_loop_blocks:
  "[] \<notin> set bs \<Longrightarrow> wc_loop (map Some bs @ rs) k = wc_loop rs (foldl wc_byte k (concat bs))"
  by (induction bs arbitrary: k) (auto simp: wc_block_def)

lemma sint_count: "n < 2 ^ 31 \<Longrightarrow> sint (of_nat n :: u32) = int n"
  by (simp add: signed_of_nat signed_take_bit_int_eq_self)

lemma count_list_le: "count_list xs x \<le> length xs"
  by (induction xs) simp_all

lemma word_starts_le: "length (word_starts xs) \<le> length xs"
  unfolding word_starts_def using length_filter_le [of _ "[0..<length xs]"] by simp

text \<open>The right answer for an input.\<close>

definition wc_answer :: "u8 list \<Rightarrow> string \<Rightarrow> wc_out" where
  "wc_answer xs name = Wc_line (int (count_list xs 10)) (int (length (word_starts xs))) (int (length xs)) name"

lemma wc_error: "[] \<notin> set bs \<Longrightarrow> wc (map Some bs @ None # rs) name = Wc_read_error"
  by (simp add: wc_def wc_loop_blocks)

lemma wc_right:
  assumes "[] \<notin> set bs" and "length (concat bs) < 2 ^ 31" and "rs = [] \<or> hd rs = Some []"
  shows "wc (map Some bs @ rs) name = wc_answer (concat bs) name"
proof -
  have "count_list (concat bs) 10 < 2 ^ 31" "length (word_starts (concat bs)) < 2 ^ 31"
    using assms(2) count_list_le [of "concat bs" 10] word_starts_le [of "concat bs"] by linarith+
  moreover have "wc_loop rs k = Some k" for k
    using assms(3) by (cases rs) auto
  ultimately show ?thesis
    using assms(2) by (simp add: wc_def wc_loop_blocks [OF assms(1)] wc_fold wc_answer_def sint_count del: length_concat)
qed

text \<open>C36: \<open>wc\<close> counts right: however the input is cut into non-empty blocks by \<open>read\<close>, and whether the end of the file is
  seen as a result 0 or as the end of the list of results, it reports the number of newlines, of places where a word
  begins, and of characters of the whole input, if the input is smaller than \<open>2\<^sup>31\<close> bytes, so that the C ints do not
  overflow; and if a \<open>read\<close> fails it reports the error and no counts.\<close>

theorem wc_counts:
  assumes "[] \<notin> set bs" and "length (concat bs) < 2 ^ 31"
  shows "wc (map Some bs) name =
      Wc_line (int (count_list (concat bs) 10)) (int (length (word_starts (concat bs)))) (int (length (concat bs))) name \<and>
    wc (map Some bs @ Some [] # rs) name = wc (map Some bs) name \<and>
    wc (map Some bs @ None # rs) name = Wc_read_error"
  using wc_right [OF assms, of "[]" name] wc_right [OF assms, of "Some [] # rs" name] wc_error [OF assms(1)]
  by (simp add: wc_answer_def)

theorem wc_counts_witness:
  "wc [Some [104, 105, 32], Some [116, 104], Some [101, 10]] ''f'' = Wc_line 1 2 7 ''f'' \<and>
   wc [Some [104, 105, 32], Some [116, 104], Some [101, 10], None] ''f'' = Wc_read_error"
  using wc_counts [of "[[104, 105, 32], [116, 104], [101, 10]]" "''f''" "[]"] by (simp add: word_starts_def wc_space_def upt_rec)

text \<open>\<open>main\<close> goes through its files in order and prints the line of \<open>wc\<close> for each, until the first that cannot be opened or read: for
  this one it prints the error, and nothing for the files behind it.\<close>

lemma wc_main_stops_at_error:
  assumes "\<forall>a \<in> set as. \<exists>rs. op a = Some rs \<and> wc rs a \<noteq> Wc_read_error"
    and "op b = None \<or> (\<exists>rs. op b = Some rs \<and> wc rs b = Wc_read_error)"
  shows "wc_main op stdin (as @ b # cs) =
    map (\<lambda>a. wc (the (op a)) a) as @ [if op b = None then Wc_cannot_open b else Wc_read_error]"
proof -
  have "wc_files op (as @ b # cs) = map (\<lambda>a. wc (the (op a)) a) as @ [if op b = None then Wc_cannot_open b else Wc_read_error]"
    using assms(1) by (induction as) (use assms(2) in auto)
  then show ?thesis
    by (simp add: wc_main_def)
qed

end
