(* ===== verification/Alu.thy ===== *)
theory Alu
  imports Prelude
begin

section \<open>The arithmetic logic unit: the VHDL sources of Hardware\<close>

text \<open>
  The combinational circuit of \<open>ALU.vhd\<close> with its components.  A wire is a bool and a vector of 16 wires a
  16-bit word; the vectors \<open>16 downto 1\<close> of the adders, whose element \<open>i\<close> is bit \<open>i - 1\<close> of the operand, are
  functions of the index.  The cells of a level of the carry network are one definition, by the index of
  the cell: \<open>KS_ij\<close> of the source is level \<open>i\<close> at index \<open>j\<close>.  \<open>comp_add\<close> and \<open>comp_sub\<close> have the same network, over other \<open>G\<close>, \<open>P\<close> and
  \<open>G0\<close>.  A \<open>Plevel\<close> wire that nothing drives, and nothing reads, is False.  Values of \<open>STD_LOGIC\<close> other than 0 and 1 and the time that signals take are not modelled, and \<open>X = x"0"\<close> is the
  numeric comparison of the package \<open>STD_LOGIC_UNSIGNED\<close>.

  The lemmas show that the network computes the carries of binary addition, so that the two components
  add and subtract, and what the whole unit computes from them.
\<close>

definition GG :: "bool \<Rightarrow> bool \<Rightarrow> bool \<Rightarrow> bool" where
  "GG Gk Pk Gj = (Gk \<or> (Pk \<and> Gj))"

definition GPGG :: "bool \<Rightarrow> bool \<Rightarrow> bool \<Rightarrow> bool \<Rightarrow> bool \<times> bool" where
  "GPGG Gk Pk Gj Pj = (Gk \<or> (Pk \<and> Gj), Pk \<and> Pj)"

subsection \<open>The carry network\<close>

definition level1 :: "(nat \<Rightarrow> bool) \<Rightarrow> (nat \<Rightarrow> bool) \<Rightarrow> bool \<Rightarrow> nat \<Rightarrow> bool \<times> bool" where
  "level1 G P G0 i =
     (if i = 1 then (GG (G 1) (P 1) G0, False)
      else GPGG (G i) (P i) (G (i - 1)) (P (i - 1)))"

definition level2 :: "(nat \<Rightarrow> bool) \<Rightarrow> (nat \<Rightarrow> bool) \<Rightarrow> bool \<Rightarrow> nat \<Rightarrow> bool \<times> bool" where
  "level2 G P G0 i =
     (let Glevel1 = \<lambda>i. fst (level1 G P G0 i); Plevel1 = \<lambda>i. snd (level1 G P G0 i) in
      if i = 2 then (GG (Glevel1 2) (Plevel1 2) G0, False)
      else if i = 3 then (GG (Glevel1 3) (Plevel1 3) (Glevel1 1), False)
      else GPGG (Glevel1 i) (Plevel1 i) (Glevel1 (i - 2)) (Plevel1 (i - 2)))"

definition level3 :: "(nat \<Rightarrow> bool) \<Rightarrow> (nat \<Rightarrow> bool) \<Rightarrow> bool \<Rightarrow> nat \<Rightarrow> bool \<times> bool" where
  "level3 G P G0 i =
     (let Glevel1 = \<lambda>i. fst (level1 G P G0 i);
          Glevel2 = \<lambda>i. fst (level2 G P G0 i); Plevel2 = \<lambda>i. snd (level2 G P G0 i) in
      if i = 4 then (GG (Glevel2 4) (Plevel2 4) G0, False)
      else if i = 5 then (GG (Glevel2 5) (Plevel2 5) (Glevel1 1), False)
      else if i = 6 then (GG (Glevel2 6) (Plevel2 6) (Glevel2 2), False)
      else if i = 7 then (GG (Glevel2 7) (Plevel2 7) (Glevel2 3), False)
      else GPGG (Glevel2 i) (Plevel2 i) (Glevel2 (i - 4)) (Plevel2 (i - 4)))"

definition level4 :: "(nat \<Rightarrow> bool) \<Rightarrow> (nat \<Rightarrow> bool) \<Rightarrow> bool \<Rightarrow> nat \<Rightarrow> bool" where
  "level4 G P G0 i =
     (let Glevel1 = \<lambda>i. fst (level1 G P G0 i); Glevel2 = \<lambda>i. fst (level2 G P G0 i);
          Glevel3 = \<lambda>i. fst (level3 G P G0 i); Plevel3 = \<lambda>i. snd (level3 G P G0 i) in
      if i = 8 then GG (Glevel3 8) (Plevel3 8) G0
      else if i = 9 then GG (Glevel3 9) (Plevel3 9) (Glevel1 1)
      else if i = 10 then GG (Glevel3 10) (Plevel3 10) (Glevel2 2)
      else if i = 11 then GG (Glevel3 11) (Plevel3 11) (Glevel2 3)
      else GG (Glevel3 i) (Plevel3 i) (Glevel3 (i - 8)))"

text \<open>The second operand of the \<open>xor\<close> that gives output \<open>O(i)\<close>.\<close>

definition carry_in :: "(nat \<Rightarrow> bool) \<Rightarrow> (nat \<Rightarrow> bool) \<Rightarrow> bool \<Rightarrow> nat \<Rightarrow> bool" where
  "carry_in G P G0 i =
     (if i = 0 then G0
      else if i = 1 then fst (level1 G P G0 1)
      else if i < 4 then fst (level2 G P G0 i)
      else if i < 8 then fst (level3 G P G0 i)
      else level4 G P G0 i)"

definition vec16 :: "(nat \<Rightarrow> bool) \<Rightarrow> u16" where
  "vec16 f = horner_sum of_bool 2 (map f [0..<16])"

definition ks_outputs :: "(nat \<Rightarrow> bool) \<Rightarrow> (nat \<Rightarrow> bool) \<Rightarrow> bool \<Rightarrow> u16 \<times> bool" where
  "ks_outputs G P G0 =
     (vec16 (\<lambda>i. P (i + 1) \<noteq> carry_in G P G0 i), G 16 \<or> (P 16 \<and> level4 G P G0 15))"

definition comp_add :: "u16 \<Rightarrow> u16 \<Rightarrow> u16 \<times> bool" where
  "comp_add X Y =
     (let G = \<lambda>i. bit X (i - 1) \<and> bit Y (i - 1);
          P = \<lambda>i. bit X (i - 1) \<noteq> bit Y (i - 1) in ks_outputs G P False)"

definition comp_sub :: "u16 \<Rightarrow> u16 \<Rightarrow> u16 \<times> bool" where
  "comp_sub X Y =
     (let G = \<lambda>i. bit X (i - 1) \<and> \<not> bit Y (i - 1);
          P = \<lambda>i. bit X (i - 1) \<noteq> (\<not> bit Y (i - 1)) in ks_outputs G P True)"

subsection \<open>The unit\<close>

definition comp_nand :: "u16 \<Rightarrow> u16 \<Rightarrow> u16" where
  "comp_nand X Y = NOT (X AND Y)"

definition comp_xor :: "u16 \<Rightarrow> u16 \<Rightarrow> u16" where
  "comp_xor X Y = X XOR Y"

definition comp_zero :: "u16 \<Rightarrow> bool" where
  "comp_zero X = (if X = 0 then True else False)"

definition mux :: "u16 \<Rightarrow> u16 \<Rightarrow> u16 \<Rightarrow> u16 \<Rightarrow> bool \<Rightarrow> bool \<Rightarrow> u16" where
  "mux X1 X2 X3 X4 Sel1 Sel0 =
     (if \<not> Sel1 \<and> \<not> Sel0 then X1
      else if \<not> Sel1 \<and> Sel0 then X2
      else if Sel1 \<and> \<not> Sel0 then X3
      else X4)"

definition mux2 :: "bool \<Rightarrow> bool \<Rightarrow> bool \<Rightarrow> bool \<Rightarrow> bool \<Rightarrow> bool \<Rightarrow> bool" where
  "mux2 X1 X2 X3 X4 Sel1 Sel0 =
     (if \<not> Sel1 then if \<not> Sel0 then X1 else X2
      else if \<not> Sel0 then X3 else X4)"

record alu_out =
  alu_Z :: bool
  alu_C :: bool
  alu_R :: u16

definition ALU :: "u16 \<Rightarrow> u16 \<Rightarrow> bool \<Rightarrow> bool \<Rightarrow> alu_out" where
  "ALU A B S1 S0 =
     (let sigAdd = comp_add A B;
          sigSub = comp_add A B;
          sigN = comp_nand A B;
          sigX = comp_xor A B;
          R = mux (fst sigAdd) (fst sigSub) sigN sigX S1 S0;
          C = mux2 (snd sigAdd) (snd sigSub) False False S1 S0 in
      \<lparr>alu_Z = comp_zero R, alu_C = C, alu_R = R\<rparr>)"

subsection \<open>Groups of generate and propagate signals\<close>

text \<open>\<open>group G P i n\<close>: generate and propagate of the \<open>n\<close> positions up to \<open>i\<close>; \<open>carry\<close>: the carry out of position \<open>i\<close>.\<close>

fun group :: "(nat \<Rightarrow> bool) \<Rightarrow> (nat \<Rightarrow> bool) \<Rightarrow> nat \<Rightarrow> nat \<Rightarrow> bool \<times> bool" where
  "group G P i 0 = (False, True)"
| "group G P i (Suc n) = (G i \<or> (P i \<and> fst (group G P (i - 1) n)), P i \<and> snd (group G P (i - 1) n))"

fun carry :: "(nat \<Rightarrow> bool) \<Rightarrow> (nat \<Rightarrow> bool) \<Rightarrow> bool \<Rightarrow> nat \<Rightarrow> bool" where
  "carry G P c 0 = c"
| "carry G P c (Suc i) = (G (Suc i) \<or> (P (Suc i) \<and> carry G P c i))"

lemma group_join:
  "GPGG (fst (group G P i n)) (snd (group G P i n)) (fst (group G P (i - n) m)) (snd (group G P (i - n) m)) = group G P i (n + m)"
proof (induction n arbitrary: i)
  case (Suc n)
  show ?case
    using Suc [of "i - 1"] by (simp add: GPGG_def prod_eq_iff) blast
qed (simp add: GPGG_def)

lemma carry_group: "n \<le> i \<Longrightarrow> GG (fst (group G P i n)) (snd (group G P i n)) (carry G P c (i - n)) = carry G P c i"
proof (induction n arbitrary: i)
  case (Suc n)
  then obtain k where "i = Suc k" "n \<le> k"
    by (cases i) auto
  then show ?case
    using Suc.IH [of k] by (auto simp: GG_def)
qed (simp add: GG_def)

lemma level1_group: "2 \<le> i \<Longrightarrow> level1 G P c i = group G P i 2" "fst (level1 G P c 1) = carry G P c 1"
  by (simp_all add: level1_def numeral_2_eq_2 GPGG_def GG_def)

lemma level2_group: "4 \<le> i \<Longrightarrow> level2 G P c i = group G P i 4" "2 \<le> i \<Longrightarrow> i < 4 \<Longrightarrow> fst (level2 G P c i) = carry G P c i"
proof -
  show "4 \<le> i \<Longrightarrow> level2 G P c i = group G P i 4"
    using group_join [of G P i 2 2] by (simp add: level2_def level1_group)
  assume "2 \<le> i" "i < 4"
  then have "i = 2 \<or> i = 3"
    by auto
  then show "fst (level2 G P c i) = carry G P c i"
    using carry_group [of 2 i G P c] level1_group(2) [of G P c]
    by (auto simp: level2_def level1_group(1))
qed

lemma level3_group: "8 \<le> i \<Longrightarrow> level3 G P c i = group G P i 8" "4 \<le> i \<Longrightarrow> i < 8 \<Longrightarrow> fst (level3 G P c i) = carry G P c i"
proof -
  show "8 \<le> i \<Longrightarrow> level3 G P c i = group G P i 8"
    using group_join [of G P i 4 4] by (simp add: level3_def level2_group)
  assume "4 \<le> i" "i < 8"
  then have "i = 4 \<or> i = 5 \<or> i = 6 \<or> i = 7"
    by auto
  then show "fst (level3 G P c i) = carry G P c i"
    using carry_group [of 4 i G P c] level1_group(2) [of G P c] by (auto simp: level3_def level2_group)
qed

lemma level4_carry: "8 \<le> i \<Longrightarrow> i < 16 \<Longrightarrow> level4 G P c i = carry G P c i"
proof -
  assume i: "8 \<le> i" "i < 16"
  have "i = 8 \<or> i = 9 \<or> i = 10 \<or> i = 11 \<or> 12 \<le> i"
    using i by auto
  then show ?thesis
    using i carry_group [of 8 i G P c] level1_group(2) [of G P c] by (auto simp: level4_def level3_group level2_group(2))
qed

lemma carry_in_carry: "i < 16 \<Longrightarrow> carry_in G P c i = carry G P c i"
  using level1_group(2) [of G P c] by (auto simp: carry_in_def level2_group(2) level3_group(2) level4_carry)

subsection \<open>Binary addition\<close>

lemma carry_sum:
  fixes x y :: nat
  assumes "\<And>i. i < 16 \<Longrightarrow> G (Suc i) \<longleftrightarrow> bit x i \<and> bit y i" and "\<And>i. i < 16 \<Longrightarrow> P (Suc i) \<longleftrightarrow> bit x i \<noteq> bit y i"
  shows "n \<le> 16 \<Longrightarrow> take_bit n x + take_bit n y + of_bool c =
    horner_sum of_bool 2 (map (\<lambda>i. P (Suc i) \<noteq> carry G P c i) [0..<n]) + 2 ^ n * of_bool (carry G P c n)"
proof (induction n)
  case (Suc n)
  have t: "take_bit (Suc n) z = take_bit n z + 2 ^ n * of_bool (bit z n)" for z :: nat
    by (simp add: take_bit_Suc_from_most)
  show ?case
    using Suc unfolding t by (auto simp: horner_sum_append assms split: if_splits)
qed simp

lemma of_nat_bits: "of_nat (horner_sum of_bool 2 bs) = horner_sum of_bool 2 bs"
  by (induction bs) simp_all

lemma vec16_unat: "unat (vec16 f) = horner_sum of_bool 2 (map f [0..<16])"
proof -
  have "horner_sum of_bool 2 (map f [0..<16]) < (2 :: nat) ^ 16"
    using horner_sum_of_bool_2_less [of "map f [0..<16]"] by (simp del: upt_rec_numeral)
  moreover have "vec16 f = of_nat (horner_sum of_bool 2 (map f [0..<16]))"
    unfolding vec16_def by (rule of_nat_bits [symmetric])
  ultimately show ?thesis
    by (simp add: unat_of_nat del: upt_rec_numeral)
qed

lemma ks_adds:
  fixes x y :: u16
  assumes "\<And>i. i < 16 \<Longrightarrow> G (Suc i) \<longleftrightarrow> bit x i \<and> bit y i" and "\<And>i. i < 16 \<Longrightarrow> P (Suc i) \<longleftrightarrow> bit x i \<noteq> bit y i"
  shows "ks_outputs G P c = (x + y + of_bool c, 2 ^ 16 \<le> unat x + unat y + of_bool c)"
proof -
  let ?s = "vec16 (\<lambda>i. P (i + 1) \<noteq> carry_in G P c i)" and ?k = "carry G P c 16"
  have b: "bit (unat z) i = bit z i" for z :: u16 and i
    by (simp add: bit_unsigned_iff)
  have "horner_sum of_bool 2 (map (\<lambda>i. P (i + 1) \<noteq> carry_in G P c i) [0..<16]) =
      (horner_sum of_bool 2 (map (\<lambda>i. P (Suc i) \<noteq> carry G P c i) [0..<16]) :: nat)"
    by (rule arg_cong [where f = "horner_sum of_bool 2"], rule map_cong) (simp_all add: carry_in_carry)
  moreover have "take_bit 16 (unat z) = unat z" for z :: u16
    using unsigned_less [where ?'a = nat, of z] by (simp add: take_bit_nat_eq_self)
  ultimately have sum: "unat x + unat y + of_bool c = unat ?s + 2 ^ 16 * of_bool ?k"
    using carry_sum [of G "unat x" "unat y" P 16 c] assms by (simp add: b vec16_unat del: upt_rec_numeral)
  have less: "unat ?s < 2 ^ 16"
    using unsigned_less [where ?'a = nat, of ?s] by simp
  have k: "?k = (2 ^ 16 \<le> unat x + unat y + of_bool c)"
    unfolding sum using less by (cases ?k) simp_all
  have "x + y + of_bool c = of_nat (unat x + unat y + of_bool c)"
    by simp
  also have "\<dots> = ?s"
    unfolding sum by (cases ?k) simp_all
  finally have "?s = x + y + of_bool c" ..
  moreover have "(G 16 \<or> (P 16 \<and> level4 G P c 15)) = ?k"
    using carry.simps(2) [of G P c 15] by (simp add: level4_carry)
  ultimately show ?thesis
    by (simp only: ks_outputs_def k)
qed

lemma add_outputs:
  "ks_outputs (\<lambda>i. bit X (i - 1) \<and> bit Y (i - 1)) (\<lambda>i. bit X (i - 1) \<noteq> bit Y (i - 1)) False = (X + Y, 2 ^ 16 \<le> unat X + unat Y)"
  using ks_adds [of "\<lambda>i. bit X (i - 1) \<and> bit Y (i - 1)" X Y "\<lambda>i. bit X (i - 1) \<noteq> bit Y (i - 1)" False] by simp

text \<open>C37: the adder adds: for all operands the sixteen outputs of the carry network are the sum modulo \<open>2\<^sup>16\<close>, and \<open>Carryout\<close> says
  whether the sum of the unsigned operands needs a seventeenth bit.\<close>

theorem comp_add_adds: "comp_add X Y = (X + Y, 2 ^ 16 \<le> unat X + unat Y)"
  by (simp only: comp_add_def Let_def add_outputs)

text \<open>C38: the subtractor subtracts: its outputs are the difference modulo \<open>2\<^sup>16\<close>, and \<open>Carryout\<close> is set exactly when there is no borrow.\<close>

theorem comp_sub_subtracts: "comp_sub X Y = (X - Y, Y \<le> X)"
proof -
  have "ks_outputs (\<lambda>i. bit X (i - 1) \<and> \<not> bit Y (i - 1)) (\<lambda>i. bit X (i - 1) \<noteq> (\<not> bit Y (i - 1))) True =
      (X + NOT Y + of_bool True, 2 ^ 16 \<le> unat X + unat (NOT Y) + of_bool True)"
    by (rule ks_adds) (auto simp: bit_not_iff)
  moreover have "X + NOT Y + 1 = X - Y"
    by (simp add: not_eq_complement)
  moreover have "unat (NOT Y) = 2 ^ 16 - 1 - unat Y"
    using unat_sub [of Y "- 1"] not_eq_complement [of Y] minus_diff_commute [of Y 1]
    by (simp add: unsigned_minus_1_eq_mask mask_eq_exp_minus_1)
  ultimately show ?thesis
    using unsigned_less [where ?'a = nat, of Y] by (auto simp: comp_sub_def word_le_nat_alt)
qed

text \<open>C39: what the unit computes for every value of its control inputs: with 00 the sum and its carry, with 10 the bitwise nand and
  with 11 the exclusive or, both without carry; with 01, which is meant to subtract, again the sum, because the
  subtraction step instantiates the adder.  The zero output says whether the result is zero.\<close>

theorem ALU_outcome:
  "ALU A B S1 S0 =
     (let R = (if S1 then if S0 then A XOR B else NOT (A AND B) else A + B) in
      \<lparr>alu_Z = (R = 0), alu_C = (\<not> S1 \<and> 2 ^ 16 \<le> unat A + unat B), alu_R = R\<rparr>)"
  unfolding ALU_def comp_add_def Let_def add_outputs
  by (simp add: mux_def mux2_def comp_nand_def comp_xor_def comp_zero_def)

end
