(* ===== verification/Spec2Isabelle.thy ===== *)
theory Spec2Isabelle
  imports Contend Logsafe Pipes Tables Refault Fsdata Mkimage Sh Grep Wc Alu
begin

text \<open>
  A verification development of the repository's two systems with a discrete behaviour: the xv6 kernel with
  lazy \<open>mmap\<close> (\<open>src/mmap/xv6\<close>), with three of its user programs and the program that builds its disk, and the
  arithmetic logic unit in VHDL (\<open>src/Hardware/Arithmetic Logic Unit VHDL/Part A\<close>).

  \<^bold>\<open>The kernel model.\<close>  Every C function is one definition of the same name.  A kernel function takes the
  state and returns an outcome of the type \<open>res\<close>: \<open>Ok\<close> with a value and the new state, \<open>Panic\<close> with the message, \<open>Switch\<close>
  when the thread gives the processor to the scheduler inside \<open>sched\<close>, \<open>Spin\<close> when it does not come back by itself.
  What a thread does after \<open>swtch\<close> is a definition of its own (\<open>sched_resume\<close>, \<open>sleep_resume\<close>, \<open>yield_resume\<close> and those of
  their callers).  The state is a chain of extensible records, one per layer, in the order in which the
  layers use each other:
  \<^item> \<open>core\<close>: processors, interrupt flags and all spin locks (\<open>Spinlock\<close>);
  \<^item> \<open>mach\<close>: memory, a function from addresses to bytes, and the free list of pages (\<open>Kalloc\<close>);
  \<^item> \<open>con\<close>: serial port, screen and the console's variables (\<open>Cprintf\<close>);
  \<^item> \<open>vm\<close>: the kernel's page directory (\<open>Vm\<close>);
  \<^item> \<open>kproc\<close>: the process table (\<open>Proc\<close>); \<open>kslock\<close>: sleep locks (\<open>Sleeplock\<close>);
  \<^item> \<open>kbio\<close>: disk and buffer cache (\<open>Bio\<close>); \<open>klog\<close>: the log (\<open>Log\<close>); \<open>kinode\<close>: super block and inode cache (\<open>Inode\<close>);
  \<^item> \<open>kcons\<close>: console input (\<open>Console\<close>); \<open>kfile\<close>: open files, pipes, clock, interrupt table (\<open>Filepipe\<close>).

  A function of a layer works on any extension of its record, so that a call of a lower layer is a plain
  function call.  Page tables, user memory and kernel stacks are bytes of the one memory; processes, inodes,
  buffers and files are indexes of their tables.

  \<^bold>\<open>Theories of definitions and the code they model.\<close>
  \<^item> \<open>Prelude\<close>: C integers, outcomes and their sequencing, little-endian layouts.  \<open>Interfaces\<close>: the shared locales.
  \<^item> \<open>Mmu\<close>: \<open>mmu.h\<close>, \<open>memlayout.h\<close>.  \<open>Spinlock\<close>: \<open>spinlock.c\<close>, and \<open>mycpu\<close>, \<open>cpuid\<close>, \<open>myproc\<close> of \<open>proc.c\<close>.  \<open>Contend\<close>: \<open>acquire\<close> and \<open>release\<close>
    again, cut at their accesses to the lock.  \<open>Ram\<close>: \<open>string.c\<close>.
  \<^item> \<open>Kalloc\<close>: \<open>kalloc.c\<close>.  \<open>Cprintf\<close>: output of \<open>console.c\<close> and \<open>uart.c\<close>.  \<open>Vm\<close>: \<open>vm.c\<close> with \<open>page_fault_handler\<close>.
  \<^item> \<open>Proc\<close>: \<open>proc.c\<close> without the functions that use files, which are in \<open>Life\<close> with \<open>exec.c\<close>.  \<open>Sleeplock\<close>: \<open>sleeplock.c\<close>.
  \<^item> \<open>Bio\<close>: \<open>bio.c\<close> and \<open>memide.c\<close>.  \<open>Log\<close>: \<open>log.c\<close>.  \<open>Inode\<close> and \<open>Dir\<close>: \<open>fs.c\<close>.  \<open>Console\<close>: \<open>kbd.c\<close> and input of \<open>console.c\<close> and \<open>uart.c\<close>.
  \<^item> \<open>Umem\<close>: argument fetching of \<open>syscall.c\<close> and the processor's access to user addresses.  \<open>Filepipe\<close>: \<open>pipe.c\<close> and \<open>file.c\<close>.
  \<^item> \<open>Sysfile\<close>: \<open>sysfile.c\<close>.  \<open>Trap\<close>: \<open>trap.c\<close>, the table of \<open>syscall.c\<close> and \<open>sysproc.c\<close>.
  \<^item> \<open>Mkfs\<close>: \<open>mkfs.c\<close>.  \<open>Sh\<close>: the parser of \<open>sh.c\<close>.  \<open>Grep\<close>: \<open>grep.c\<close>.  \<open>Wc\<close>: \<open>wc.c\<close>.  \<open>Alu\<close>: the VHDL sources.

  \<^bold>\<open>What is shown.\<close>
  \<^item> Locks (\<open>Spinlock\<close>, \<open>Contend\<close>): \<open>acquire\<close> on each of its branches, and in every interleaving of all processors at the grain of
    the atomic exchange, exclusion, interrupts off while a lock is held or waited for, and the meaning of \<open>ncli\<close>.
  \<^item> Scheduling (\<open>Sched\<close>): the operations of \<open>proc.c\<close> as a step relation; a process runs on at most one processor.
  \<^item> Memory (\<open>Kalloc\<close>, \<open>Paging\<close>, \<open>Uvm\<close>, \<open>Aspace\<close>): the free list as a list of distinct pages, page tables as functions from
    addresses to entries, the invariants \<open>vm_wf\<close> and \<open>as_wf\<close>, and the effect of each operation on them.
  \<^item> Lazy memory (\<open>Lazy\<close>, \<open>Refault\<close>): \<open>mmap\<close>, the first access, the trap without memory, and shrinking to nothing.
  \<^item> System calls (\<open>Entry\<close>): gates, the pointer check of \<open>argptr\<close> and how \<open>mmap\<close> defeats it, unknown call numbers.
  \<^item> File system (\<open>Logsafe\<close>, \<open>Fsdata\<close>, \<open>Mkblocks\<close>, \<open>Mkimage\<close>): \<open>commit\<close> is atomic under a crash at any disk write; names, entries and inodes
    round-trip; \<open>iappend\<close> refines appending to an entry of a list of files, and \<open>mkfs\<close> builds the image of its arguments.
  \<^item> Pipes (\<open>Pipes\<close>): a pipe is a queue of at most 512 bytes, on every path of \<open>pipewrite\<close> and \<open>piperead\<close>.
  \<^item> Tables (\<open>Tables\<close>): the three allocators of a first free slot.  Output (\<open>Ram\<close>, \<open>Cprintf\<close>): \<open>memmove\<close> and the digits of \<open>printint\<close>.
  \<^item> Programs: the shell's parser ends and inverts a printer, \<open>grep\<close>'s matcher has its denotation, \<open>wc\<close> counts right.
  \<^item> The adder and the subtractor of the logic unit are addition and subtraction modulo \<open>2\<^sup>16\<close>; the unit never subtracts.

  The locales are \<open>inductive_invariant\<close> (interpreted for lock calls, for contention and for scheduling), \<open>slot_table\<close> (files,
  descriptors, processes), \<open>ring_buffer\<close> (pipes) and \<open>page_allocator\<close> (\<open>kalloc\<close> and \<open>kfree\<close>).  \<open>Usermem\<close> has the lemmas
  about mapped user buffers, \<open>Sample\<close> the concrete state in which the theorems are applied.

  \<^bold>\<open>Bounds.\<close>  A loop over pages has \<open>2\<^sup>20\<close> rounds, the number of pages of the address space (one more where the loop
  makes a last test); running out of rounds is \<open>Spin\<close>, and the theorems show the outcome \<open>Ok\<close>.  The parser has as
  many rounds as its line needs, shown by the theorem that it always ends.  Everything else recurses on its data.

  \<^bold>\<open>Not modelled.\<close>  Boot code, interrupt controllers, the IDE driver and assembly (device registers and stack
  switching); \<open>name\<close> and \<open>pcs\<close> of locks with \<open>getcallerpcs\<close> (debugging); the part of the shell that runs commands, the
  small user programs and the user library (sequences of system calls and copies of the kernel's string
  functions); weak memory, caches of the page table and time.  Bytes that devices deliver, the contents of registers at a trap and the
  linker's symbols are arguments.  The physics, image processing and sensor projects of the repository are
  numerical scripts over external libraries.
\<close>

end
